(* ===== verification/Prelude.thy ===== *)
theory Prelude
  imports Main "HOL-Library.Word"
begin

text \<open>
  The shared vocabulary of the development: the machine types of the code (\<open>size_t\<close>,
  \<open>u_char\<close>, pointers), memory regions and their disjointness, the pointer
  alignment macro of \<open>src/core/cw_config.h\<close>, and the word and list lemmas that the
  component theories use.  Nothing here is specific to one component.
\<close>

unbundle bit_operations_syntax

section \<open>Machine types\<close>

type_synonym u8 = "8 word"
type_synonym u64 = "64 word"
type_synonym addr = "64 word"
type_synonym region = "64 word \<times> 64 word"

text \<open>Facts that open a component's operations, and facts that state what they preserve.\<close>

named_theorems cw_sizes \<open>sizes of the structures and numeric constants of the code\<close>
named_theorems cw_frame \<open>what an operation leaves unchanged\<close>

section \<open>The return codes of \<open>cw_core.h\<close>\<close>

definition CW_OK :: int where [cw_sizes]: "CW_OK = 0"
definition CW_ERROR :: int where [cw_sizes]: "CW_ERROR = -1"

section \<open>Regions of memory\<close>

text \<open>A region is a start address and a size in bytes, read over the natural numbers.\<close>

definition lo :: "region \<Rightarrow> nat" where
  "lo r = unat (fst r)"

definition hi :: "region \<Rightarrow> nat" where
  "hi r = unat (fst r) + unat (snd r)"

text \<open>Two regions share no byte (an empty region shares none with any).\<close>

definition rdisj :: "region \<Rightarrow> region \<Rightarrow> bool" where
  "rdisj r s \<longleftrightarrow> hi r \<le> lo s \<or> hi s \<le> lo r \<or> snd r = 0 \<or> snd s = 0"

lemma lo_pair [simp]: "lo (a, n) = unat a"
  by (simp add: lo_def)

lemma hi_pair [simp]: "hi (a, n) = unat a + unat n"
  by (simp add: hi_def)

lemma rdisj_sym: "rdisj r s \<longleftrightarrow> rdisj s r"
  by (auto simp: rdisj_def)

lemma rdisj_within:
  assumes "rdisj r s" and "lo r \<le> lo r'" and "hi r' \<le> hi r" and "lo s \<le> lo s'" and "hi s' \<le> hi s"
  shows "rdisj r' s'"
proof -
  have "snd r = 0 \<Longrightarrow> snd r' = 0" "snd s = 0 \<Longrightarrow> snd s' = 0"
    using assms(2-5) by (simp_all add: lo_def hi_def word_unat_eq_iff)
  then show ?thesis using assms by (auto simp: rdisj_def)
qed

text \<open>A list of regions no two of which overlap.\<close>

definition separated :: "region list \<Rightarrow> bool" where
  "separated rs \<longleftrightarrow> sorted_wrt rdisj rs"

lemma separated_Nil [simp]: "separated []"
  by (simp add: separated_def)

lemma separated_Cons [simp]:
  "separated (r # rs) \<longleftrightarrow> (\<forall>s\<in>set rs. rdisj r s) \<and> separated rs"
  by (simp add: separated_def)

lemma separated_append:
  "separated (rs @ ss) \<longleftrightarrow> separated rs \<and> separated ss \<and> (\<forall>r\<in>set rs. \<forall>s\<in>set ss. rdisj r s)"
  by (auto simp: separated_def sorted_wrt_append)

lemma separated_middle:
  "separated (rs @ r # ss) \<longleftrightarrow> separated (r # rs @ ss)"
  by (auto simp: separated_append rdisj_sym)

lemma separated_filter: "separated rs \<Longrightarrow> separated (filter P rs)"
  by (induction rs) auto

lemma separated_nth:
  "separated rs \<Longrightarrow> i < length rs \<Longrightarrow> j < length rs \<Longrightarrow> i \<noteq> j \<Longrightarrow> rdisj (rs ! i) (rs ! j)"
  unfolding separated_def sorted_wrt_iff_nth_less by (metis nat_neq_iff rdisj_sym)

section \<open>Pointer alignment: \<open>cw_align_ptr\<close>\<close>

text \<open>
  The default of \<open>src/core/cw_config.h\<close>, the size of an \<open>unsigned long\<close>, which holds on the machines
  \<open>auto/os/conf\<close> knows as amd64 and x86_64.  On those where the build defines 16 instead, the
  library says nothing.
\<close>

definition CW_ALIGNMENT :: u64 where [cw_sizes]: "CW_ALIGNMENT = 8"

definition cw_align_ptr :: "u64 \<Rightarrow> u64 \<Rightarrow> u64" where
  "cw_align_ptr p a = ((p + (a - 1)) AND NOT (a - 1))"

lemma and_not_7: "unat ((x :: u64) AND NOT 7) = unat x - unat x mod 8"
proof -
  have m: "(7 :: u64) = mask 3" by (simp add: mask_eq_exp_minus_1)
  have "unat (x AND mask 3) = unat x mod 8"
    by (simp add: take_bit_eq_mod unat_mod_distrib flip: take_bit_eq_mask)
  moreover have "x AND NOT (mask 3) = x - (x AND mask 3)"
  proof -
    have "NOT x AND (x AND mask 3) = 0"
      by (rule bit_eqI) (simp add: bit_simps)
    moreover have "x AND NOT (x AND mask 3) = x AND NOT (mask 3)"
      by (rule bit_eqI) (auto simp add: bit_simps)
    ultimately show ?thesis by (simp add: disjunctive_diff_eq_and_not)
  qed
  moreover have "x AND mask 3 \<le> x" by (rule word_and_le2)
  ultimately show ?thesis by (simp add: m unat_sub)
qed

lemma unat_align_8:
  assumes "unat p + 7 < 2 ^ 64"
  shows "unat (cw_align_ptr p CW_ALIGNMENT) = (unat p + 7) div 8 * 8"
proof -
  have "unat (p + 7) = unat p + 7"
    using assms by (subst unat_add_lem [THEN iffD1]) simp_all
  then show ?thesis
    using and_not_7 [of "p + 7"]
    by (simp add: cw_align_ptr_def cw_sizes minus_mod_eq_div_mult)
qed

lemma align_8_bounds:
  assumes "unat p \<le> e" and "e mod 8 = 0" and "e < 2 ^ 64"
  shows "unat p \<le> unat (cw_align_ptr p CW_ALIGNMENT)"
    and "unat (cw_align_ptr p CW_ALIGNMENT) \<le> e"
    and "unat (cw_align_ptr p CW_ALIGNMENT) mod 8 = 0"
proof -
  have "e < 18446744073709551616" using assms(3) by simp
  then have "unat p + 7 < 18446744073709551616" using assms(1,2) by presburger
  then have "unat p + 7 < 2 ^ 64" by simp
  note eq = unat_align_8 [OF this]
  show "unat p \<le> unat (cw_align_ptr p CW_ALIGNMENT)" unfolding eq by presburger
  show "unat (cw_align_ptr p CW_ALIGNMENT) \<le> e" unfolding eq using assms by presburger
  show "unat (cw_align_ptr p CW_ALIGNMENT) mod 8 = 0" unfolding eq by simp
qed

section \<open>Word arithmetic over the naturals\<close>

lemma unat_less_64: "unat (a :: u64) < 2 ^ 64"
  using unsigned_less [of a] by simp

lemma unat_plus_nowrap: "unat (a :: u64) + unat b < 2 ^ 64 \<Longrightarrow> unat (a + b) = unat a + unat b"
  by (subst unat_add_lem [THEN iffD1]) simp_all

lemma unat_minus_nowrap: "unat (b :: u64) \<le> unat a \<Longrightarrow> unat (a - b) = unat a - unat b"
  by (simp add: unat_sub word_le_nat_alt)

lemma unat_times_nowrap: "unat (a :: u64) * unat b < 2 ^ 64 \<Longrightarrow> unat (a * b) = unat a * unat b"
  by (subst unat_mult_lem [THEN iffD1]) simp_all

lemma unat_of_nat_64: "n < 2 ^ 64 \<Longrightarrow> unat (of_nat n :: u64) = n"
  by (simp add: unat_of_nat take_bit_nat_eq_self)

text \<open>The room test \<open>(size_t) (end - m) >= size\<close> of the pool, for a block not overrun.\<close>

lemma room_iff:
  assumes "unat m \<le> unat e"
  shows "(n :: u64) \<le> e - m \<longleftrightarrow> unat m + unat n \<le> unat e"
  using assms by (auto simp: word_le_nat_alt unat_minus_nowrap)

end
