(* ===== verification/Alloc.thy ===== *)
theory Alloc
  imports Prelude
begin

text \<open>
  \<open>src/os/unix/cw_alloc.c\<close>: the wrappers over the C library's allocator, and the state
  they act on.  The allocator itself is not part of the sources: it is the field
  \<open>h_libc\<close> of the heap, a strategy that answers each request from the number of the call,
  the alignment, the size and the regions now live (0 is a refusal).  What the library
  documents of \<open>malloc\<close> and \<open>posix_memalign\<close> is the hypothesis \<open>libc_ok\<close>: a
  region handed out is aligned, lies in the lower half of the address space (the user space
  of the 64-bit targets, so its size is at most \<open>PTRDIFF_MAX\<close>) and overlaps no live region.

  The theory also holds the interface \<open>region_allocator\<close> that every allocating component
  offers (the two wrappers here, the pool in theory \<open>Palloc\<close>) and the lemmas its clients
  share.
\<close>

section \<open>The heap\<close>

record heap =
  h_libc :: "nat \<Rightarrow> u64 \<Rightarrow> u64 \<Rightarrow> region list \<Rightarrow> addr"
  h_calls :: nat
  h_refused :: nat
  h_live :: "region list"
  h_mem :: "addr \<Rightarrow> u8"
  h_fault :: bool

definition fits :: "u64 \<Rightarrow> u64 \<Rightarrow> region list \<Rightarrow> addr \<Rightarrow> bool" where
  "fits al n live a \<longleftrightarrow>
     unat a + unat n < 2 ^ 63 \<and> unat a mod unat al = 0 \<and>
     (\<forall>r\<in>set live. rdisj (a, n) r \<and> fst r \<noteq> a)"

definition libc_ok :: "(nat \<Rightarrow> u64 \<Rightarrow> u64 \<Rightarrow> region list \<Rightarrow> addr) \<Rightarrow> bool" where
  "libc_ok f \<longleftrightarrow> (\<forall>t al n live. f t al n live \<noteq> 0 \<longrightarrow> fits al n live (f t al n live))"

text \<open>One request: the call is counted, and so is its refusal; a region that is granted becomes live.\<close>

definition libc_request :: "heap \<Rightarrow> u64 \<Rightarrow> u64 \<Rightarrow> heap \<times> addr" where
  "libc_request h al n =
     (let a = h_libc h (h_calls h) al n (h_live h);
          h' = h\<lparr>h_calls := Suc (h_calls h)\<rparr>
      in if a = 0 then (h'\<lparr>h_refused := Suc (h_refused h)\<rparr>, 0) else (h'\<lparr>h_live := (a, n) # h_live h\<rparr>, a))"

section \<open>\<open>cw_alloc\<close>, \<open>cw_memalign\<close>, \<open>cw_free\<close>\<close>

text \<open>\<open>malloc\<close> aligns for any built-in type: 16 bytes on the 64-bit targets.\<close>

definition MAX_ALIGN :: u64 where [cw_sizes]: "MAX_ALIGN = 16"

definition cw_alloc :: "heap \<Rightarrow> u64 \<Rightarrow> heap \<times> addr" where
  "cw_alloc h n = libc_request h MAX_ALIGN n"

text \<open>\<open>posix_memalign\<close> returns an error code; the wrapper turns an error into NULL.\<close>

definition cw_memalign :: "heap \<Rightarrow> u64 \<Rightarrow> u64 \<Rightarrow> heap \<times> addr" where
  "cw_memalign h alignment n =
     (let (h', p) = libc_request h alignment n; err = (p = 0)
      in if err then (h', 0) else (h', p))"

text \<open>
  \<open>cw_free\<close> is \<open>free\<close>: nothing for NULL, the end of the region for the address of a
  live one, undefined behaviour for any other address, which the model records as a fault.
\<close>

definition cw_free :: "heap \<Rightarrow> addr \<Rightarrow> heap" where
  "cw_free h a =
     (if a = 0 then h
      else if a \<in> fst ` set (h_live h) then h\<lparr>h_live := filter (\<lambda>r. fst r \<noteq> a) (h_live h)\<rparr>
      else h\<lparr>h_fault := True\<rparr>)"

section \<open>\<open>memset\<close> and \<open>memcpy\<close> on the byte memory\<close>

definition cw_memset :: "(addr \<Rightarrow> u8) \<Rightarrow> addr \<Rightarrow> u8 \<Rightarrow> u64 \<Rightarrow> (addr \<Rightarrow> u8)" where
  "cw_memset m p c n = (\<lambda>x. if x - p < n then c else m x)"

definition cw_memcpy :: "(addr \<Rightarrow> u8) \<Rightarrow> addr \<Rightarrow> addr \<Rightarrow> u64 \<Rightarrow> (addr \<Rightarrow> u8)" where
  "cw_memcpy m dst src n = (\<lambda>x. if x - dst < n then m (src + (x - dst)) else m x)"

definition inside :: "addr \<Rightarrow> region \<Rightarrow> bool" where
  "inside x r \<longleftrightarrow> lo r \<le> unat x \<and> unat x < hi r"

lemma offset_less_iff:
  assumes "unat p + unat n < 2 ^ 64"
  shows "x - p < (n :: u64) \<longleftrightarrow> inside x (p, n)"
proof (cases "unat p \<le> unat x")
  case True
  then show ?thesis by (auto simp: inside_def word_less_nat_alt unat_minus_nowrap)
next
  case False
  then have "unat (x - p) = 2 ^ 64 + unat x - unat p"
    by (simp add: unat_sub_if')
  with assms False show ?thesis by (auto simp: inside_def word_less_nat_alt)
qed

lemma inside_disjoint: "rdisj r s \<Longrightarrow> inside x r \<Longrightarrow> \<not> inside x s"
  by (auto simp: inside_def rdisj_def lo_def hi_def)

lemma memset_inside:
  "unat p + unat n < 2 ^ 64 \<Longrightarrow> inside x (p, n) \<Longrightarrow> cw_memset m p c n x = c"
  by (simp add: cw_memset_def offset_less_iff)

lemma memset_outside:
  "unat p + unat n < 2 ^ 64 \<Longrightarrow> \<not> inside x (p, n) \<Longrightarrow> cw_memset m p c n x = m x"
  by (simp add: cw_memset_def offset_less_iff)

lemma memcpy_outside:
  "unat d + unat n < 2 ^ 64 \<Longrightarrow> \<not> inside x (d, n) \<Longrightarrow> cw_memcpy m d s n x = m x"
  by (simp add: cw_memcpy_def offset_less_iff)

lemma memcpy_at: "i < n \<Longrightarrow> cw_memcpy m d s n (d + i) = m (s + i)"
  by (simp add: cw_memcpy_def)

section \<open>The allocator interface\<close>

text \<open>
  \<open>inv s rs\<close>: the state is well formed and \<open>rs\<close> are the regions handed out so far.
  A successful call adds its region to \<open>rs\<close>; the regions never overlap.
\<close>

locale region_allocator =
  fixes alloc :: "'s \<Rightarrow> u64 \<Rightarrow> 's \<times> addr"
    and inv :: "'s \<Rightarrow> region list \<Rightarrow> bool"
    and mem :: "'s \<Rightarrow> addr \<Rightarrow> u8"
  assumes alloc_grants: "inv s rs \<Longrightarrow> alloc s n = (s', a) \<Longrightarrow> a \<noteq> 0 \<Longrightarrow> inv s' ((a, n) # rs)"
    and alloc_refuses: "inv s rs \<Longrightarrow> alloc s n = (s', 0) \<Longrightarrow> inv s' rs"
    and alloc_mem: "alloc s n = (s', a) \<Longrightarrow> mem s' = mem s"
    and inv_separated: "inv s rs \<Longrightarrow> separated rs"
    and inv_bounded: "inv s rs \<Longrightarrow> r \<in> set rs \<Longrightarrow> hi r < 2 ^ 64"
begin

lemma fresh_region:
  assumes "inv s rs" and "alloc s n = (s', a)" and "a \<noteq> 0" and "r \<in> set rs"
  shows "rdisj (a, n) r"
  using inv_separated [OF alloc_grants [OF assms(1-3)]] assms(4) by simp

text \<open>
  Moving an object: a region is allocated and the first \<open>n\<close> bytes of an old one are
  copied to it.  The copy holds the old bytes, no other region changes, and the two
  regions \<open>memcpy\<close> is given do not overlap.
\<close>

lemma move_copies:
  assumes "inv s rs" and "(a, n) \<in> set rs" and "alloc s k = (s', b)" and "b \<noteq> 0"
    and "i < m" and "m \<le> n" and "m \<le> k"
  shows "cw_memcpy (mem s') b a m (b + i) = mem s (a + i)"
  using assms by (simp add: memcpy_at alloc_mem [OF assms(3)])

lemma move_preserves:
  assumes "inv s rs" and "alloc s k = (s', b)" and "b \<noteq> 0" and "m \<le> k"
    and "r \<in> set rs" and "inside x r"
  shows "cw_memcpy (mem s') b a m x = mem s x"
proof -
  have "rdisj (b, k) r" by (rule fresh_region [OF assms(1-3,5)])
  then have "\<not> inside x (b, m)"
    using assms(4,6) inside_disjoint [of "(b, k)" r x]
    by (auto simp: inside_def word_le_nat_alt)
  moreover have "unat b + unat k < 2 ^ 64"
    using inv_bounded [OF alloc_grants [OF assms(1-3)], of "(b, k)"] by simp
  ultimately show ?thesis
    using assms(4) by (subst memcpy_outside) (auto simp: word_le_nat_alt alloc_mem [OF assms(2)])
qed

end

section \<open>The well-formed heap\<close>

definition heap_ok :: "heap \<Rightarrow> bool" where
  "heap_ok h \<longleftrightarrow> libc_ok (h_libc h) \<and> \<not> h_fault h \<and> separated (h_live h) \<and>
     distinct (map fst (h_live h)) \<and>
     (\<forall>r\<in>set (h_live h). fst r \<noteq> 0 \<and> hi r < 2 ^ 63)"

lemma libc_request_mem [cw_frame]:
  "libc_request h al n = (h', a) \<Longrightarrow> h_mem h' = h_mem h \<and> h_fault h' = h_fault h \<and> h_libc h' = h_libc h"
  by (auto simp: libc_request_def Let_def split: if_splits)

lemma libc_request_refused: "libc_request h al n = (h', 0) \<Longrightarrow> h_live h' = h_live h"
  by (auto simp: libc_request_def Let_def split: if_splits)

lemma libc_request_granted:
  assumes "heap_ok h" and "libc_request h al n = (h', a)" and "a \<noteq> 0"
  shows "h_live h' = (a, n) # h_live h" and "fits al n (h_live h) a"
proof -
  from assms(2,3) have a: "a = h_libc h (h_calls h) al n (h_live h)"
    and "h_live h' = (a, n) # h_live h"
    by (auto simp: libc_request_def Let_def split: if_splits)
  then show "h_live h' = (a, n) # h_live h" by simp
  from assms(1) have "libc_ok (h_libc h)" by (simp add: heap_ok_def)
  with a assms(3) show "fits al n (h_live h) a" by (metis libc_ok_def)
qed

lemma libc_request_ok:
  assumes "heap_ok h" and "libc_request h al n = (h', a)"
  shows "heap_ok h'"
proof (cases "a = 0")
  case True
  with assms show ?thesis
    using libc_request_refused [of h al n h'] libc_request_mem [OF assms(2)]
    by (auto simp: heap_ok_def)
next
  case False
  note g = libc_request_granted [OF assms False]
  from assms(1) g libc_request_mem [OF assms(2)] False show ?thesis
    by (auto simp: heap_ok_def fits_def)
qed

text \<open>Between two states of the heap the library refused a request.\<close>

definition refusal :: "heap \<Rightarrow> heap \<Rightarrow> bool" where
  "refusal h h' \<longleftrightarrow> h_refused h < h_refused h'"

lemma libc_request_counts: "libc_request h al n = (h', a) \<Longrightarrow> h_refused h \<le> h_refused h'"
  by (auto simp: libc_request_def Let_def split: if_splits)

lemma libc_request_refusal: "libc_request h al n = (h', 0) \<Longrightarrow> refusal h h'"
  by (auto simp: refusal_def libc_request_def Let_def split: if_splits)

lemma refusal_later:
  "refusal h h' \<Longrightarrow> h_refused g \<le> h_refused h \<Longrightarrow> h_refused h' \<le> h_refused g' \<Longrightarrow> refusal g g'"
  by (simp add: refusal_def)

text \<open>The wrappers are single requests.\<close>

lemma cw_memalign_eq: "cw_memalign h al n = libc_request h al n"
  by (auto simp: cw_memalign_def Let_def split: prod.splits)

lemmas request_defs = cw_alloc_def cw_memalign_eq

definition heap_holds :: "heap \<Rightarrow> region list \<Rightarrow> bool" where
  "heap_holds h rs \<longleftrightarrow> heap_ok h \<and> h_live h = rs"

interpretation malloc: region_allocator cw_alloc heap_holds h_mem
proof unfold_locales
  fix s s' rs n a
  assume h: "heap_holds s rs" and c: "cw_alloc s n = (s', a)" and a: "a \<noteq> 0"
  from h have "heap_ok s" and live: "h_live s = rs" by (simp_all add: heap_holds_def)
  with c a show "heap_holds s' ((a, n) # rs)"
    unfolding cw_alloc_def
    by (simp add: heap_holds_def libc_request_granted(1) libc_request_ok)
next
  fix s s' rs n
  assume "heap_holds s rs" and "cw_alloc s n = (s', 0)"
  then show "heap_holds s' rs"
    unfolding cw_alloc_def
    by (auto simp: heap_holds_def libc_request_refused intro: libc_request_ok)
next
  fix s s' n a
  assume "cw_alloc s n = (s', a)"
  then show "h_mem s' = h_mem s" by (simp add: cw_alloc_def cw_frame)
qed (auto simp: heap_holds_def heap_ok_def)

interpretation memalign: region_allocator "\<lambda>h. cw_memalign h al" heap_holds h_mem for al
proof unfold_locales
  fix s s' rs n a
  assume h: "heap_holds s rs" and c: "cw_memalign s al n = (s', a)" and a: "a \<noteq> 0"
  from h have "heap_ok s" and live: "h_live s = rs" by (simp_all add: heap_holds_def)
  with c a show "heap_holds s' ((a, n) # rs)"
    unfolding cw_memalign_eq
    by (simp add: heap_holds_def libc_request_granted(1) libc_request_ok)
next
  fix s s' rs n
  assume "heap_holds s rs" and "cw_memalign s al n = (s', 0)"
  then show "heap_holds s' rs"
    unfolding cw_memalign_eq
    by (auto simp: heap_holds_def libc_request_refused intro: libc_request_ok)
next
  fix s s' n a
  assume "cw_memalign s al n = (s', a)"
  then show "h_mem s' = h_mem s" by (simp add: cw_memalign_eq cw_frame)
qed (auto simp: heap_holds_def heap_ok_def)

section \<open>Freeing\<close>

lemma cw_free_live:
  assumes "heap_ok h" and "(a, n) \<in> set (h_live h)"
  shows "h_live (cw_free h a) = filter (\<lambda>r. fst r \<noteq> a) (h_live h)"
    and "heap_ok (cw_free h a)"
proof -
  from assms have "a \<noteq> 0" by (auto simp: heap_ok_def)
  moreover have "a \<in> fst ` set (h_live h)" using assms(2) by force
  ultimately have eq: "cw_free h a = h\<lparr>h_live := filter (\<lambda>r. fst r \<noteq> a) (h_live h)\<rparr>"
    by (simp add: cw_free_def)
  then show "h_live (cw_free h a) = filter (\<lambda>r. fst r \<noteq> a) (h_live h)" by simp
  from assms(1) eq show "heap_ok (cw_free h a)"
    by (simp add: heap_ok_def separated_filter distinct_map_filter)
qed

lemma cw_free_mem [cw_frame]:
  "h_mem (cw_free h a) = h_mem h" "h_libc (cw_free h a) = h_libc h" "h_refused (cw_free h a) = h_refused h"
  by (simp_all add: cw_free_def)

section \<open>A concrete library, for evaluation\<close>

text \<open>
  A bump allocator that meets the documented behaviour by construction: it proposes the
  next aligned address above every live region and hands it out when it fits; it refuses
  the calls whose numbers are in \<open>bad\<close>.
\<close>

definition bump_next :: "u64 \<Rightarrow> region list \<Rightarrow> addr" where
  "bump_next al live = of_nat ((foldr (\<lambda>r m. max (hi r) m) live 4096 div unat al + 1) * unat al)"

definition bump_libc :: "nat list \<Rightarrow> nat \<Rightarrow> u64 \<Rightarrow> u64 \<Rightarrow> region list \<Rightarrow> addr" where
  "bump_libc bad t al n live =
     (let a = bump_next al live in if t \<in> set bad \<or> \<not> fits al n live a then 0 else a)"

lemma bump_libc_ok: "libc_ok (bump_libc bad)"
  by (simp add: libc_ok_def bump_libc_def Let_def)

definition bump_heap :: "nat list \<Rightarrow> heap" where
  "bump_heap bad = \<lparr>h_libc = bump_libc bad, h_calls = 0, h_refused = 0, h_live = [], h_mem = (\<lambda>_. 255), h_fault = False\<rparr>"

lemma bump_heap_ok: "heap_ok (bump_heap bad)"
  by (simp add: heap_ok_def bump_heap_def bump_libc_ok)

end
