(* ===== verification/Memory.thy ===== *)
theory Memory
  imports Alloc
begin

text \<open>
  Bytes and words in the memory of the heap: what storing through a \<open>u_char *\<close> or a pointer to
  a 64-bit field does, and what reading it back gives.  The targets are little-endian.
\<close>

section \<open>Bytes\<close>

definition mem_bytes :: "(addr \<Rightarrow> u8) \<Rightarrow> addr \<Rightarrow> nat \<Rightarrow> u8 list" where
  "mem_bytes m a n = map (\<lambda>i. m (a + of_nat i)) [0..<n]"

definition store_bytes :: "(addr \<Rightarrow> u8) \<Rightarrow> addr \<Rightarrow> u8 list \<Rightarrow> (addr \<Rightarrow> u8)" where
  "store_bytes m a bs = (\<lambda>x. if unat (x - a) < length bs then bs ! unat (x - a) else m x)"

lemma mem_bytes_length [simp]: "length (mem_bytes m a n) = n"
  by (simp add: mem_bytes_def)

lemma mem_bytes_store:
  assumes "length bs < 2 ^ 64"
  shows "mem_bytes (store_bytes m a bs) a (length bs) = bs"
  using assms by (auto simp: mem_bytes_def store_bytes_def unat_of_nat_64 intro!: nth_equalityI)

lemma mem_bytes_take: "k \<le> n \<Longrightarrow> mem_bytes m a k = take k (mem_bytes m a n)"
  by (simp add: mem_bytes_def take_map)

lemma mem_bytes_cong:
  assumes "\<And>x. inside x (a, n) \<Longrightarrow> m' x = m x" and "k \<le> unat n" and "unat a + unat n < 2 ^ 64"
  shows "mem_bytes m' a k = mem_bytes m a k"
proof -
  have "inside (a + of_nat i) (a, n)" if "i < k" for i
  proof -
    have "unat (of_nat i :: u64) = i" using that assms(2) unat_less_64 [of n] by (simp add: unat_of_nat_64)
    then show ?thesis using that assms(2,3) by (simp add: inside_def unat_plus_nowrap)
  qed
  then show ?thesis using assms(1) by (simp add: mem_bytes_def)
qed

text \<open>A store writes nothing outside the bytes stored.\<close>

lemma store_outside:
  assumes "unat a + length bs < 2 ^ 64" and "length bs \<le> unat n" and "unat a + unat n < 2 ^ 64"
    and "\<not> inside x (a, n)"
  shows "store_bytes m a bs x = m x"
proof -
  have "\<not> unat (x - a) < unat n" using offset_less_iff [OF assms(3), of x] assms(4) by (simp add: word_less_nat_alt)
  then show ?thesis using assms(2) by (simp add: store_bytes_def)
qed

section \<open>64-bit words\<close>

definition word_bytes :: "u64 \<Rightarrow> u8 list" where
  "word_bytes w = map (\<lambda>i. ucast (drop_bit (8 * i) w)) [0..<8]"

fun bytes_word :: "u8 list \<Rightarrow> u64" where
  "bytes_word [] = 0"
| "bytes_word (b # bs) = ucast b OR push_bit 8 (bytes_word bs)"

lemma word_bytes_length [simp]: "length (word_bytes w) = 8"
  by (simp add: word_bytes_def)

lemma bytes_word_bit:
  "bit (bytes_word bs) n \<longleftrightarrow> n < 64 \<and> n div 8 < length bs \<and> bit (bs ! (n div 8)) (n mod 8)"
proof (induction bs arbitrary: n)
  case (Cons b bs)
  show ?case
  proof (cases "n < 8")
    case True
    then show ?thesis by (auto simp: bit_simps)
  next
    case False
    then have "n div 8 = Suc ((n - 8) div 8)" "n mod 8 = (n - 8) mod 8"
      by (simp_all add: le_div_geq le_mod_geq)
    then show ?thesis using False Cons.IH [of "n - 8"]
      by (auto simp: bit_simps dest: bit_imp_le_length)
  qed
qed simp

lemma bytes_word_bytes [simp]: "bytes_word (word_bytes w) = w"
proof (rule bit_word_eqI)
  fix n assume "n < LENGTH(64)"
  then have "n < 64" "n div 8 < 8" by simp_all
  moreover have "8 * (n div 8) + n mod 8 = n" by simp
  ultimately show "bit (bytes_word (word_bytes w)) n = bit w n"
    by (simp add: bytes_word_bit word_bytes_def bit_simps less_mult_imp_div_less)
qed

definition store_word :: "(addr \<Rightarrow> u8) \<Rightarrow> addr \<Rightarrow> u64 \<Rightarrow> (addr \<Rightarrow> u8)" where
  "store_word m a w = store_bytes m a (word_bytes w)"

definition load_word :: "(addr \<Rightarrow> u8) \<Rightarrow> addr \<Rightarrow> u64" where
  "load_word m a = bytes_word (mem_bytes m a 8)"

lemma load_store_word [simp]: "load_word (store_word m a w) a = w"
  using mem_bytes_store [of "word_bytes w" m a] by (simp add: load_word_def store_word_def)

lemma load_word_cong:
  assumes "mem_bytes m' a 8 = mem_bytes m a 8"
  shows "load_word m' a = load_word m a"
  using assms by (simp add: load_word_def)

lemma store_word_outside:
  assumes "unat a + 8 < 2 ^ 64" and "\<not> inside x (a, 8)"
  shows "store_word m a w x = m x"
  using assms unfolding store_word_def by (intro store_outside [of _ _ 8]) simp_all

end
