(* ===== verification/Palloc.thy ===== *)
theory Palloc
  imports Alloc
begin

text \<open>
  \<open>src/core/cw_palloc.c\<close>: the memory pool.  A pool is a chain of blocks of one size,
  linked by \<open>d.next\<close>; the chain is the list \<open>p_blocks\<close> in link order, its head is the
  block that holds the \<open>cw_pool_t\<close> itself, and \<open>current\<close> is a position in it.
  Requests up to \<open>max\<close> bytes are cut from a block; larger ones go to \<open>malloc\<close> and
  are listed in \<open>large\<close>, whose list nodes are cut from the blocks.
\<close>

section \<open>Data\<close>

text \<open>Sizes of the structures on the 64-bit targets, and the limits of \<open>cw_palloc.h\<close>.\<close>

definition sizeof_cw_pool :: u64 where [cw_sizes]: "sizeof_cw_pool = 80"
definition sizeof_cw_pool_data :: u64 where [cw_sizes]: "sizeof_cw_pool_data = 32"
definition sizeof_cw_pool_large :: u64 where [cw_sizes]: "sizeof_cw_pool_large = 16"
definition CW_MAX_ALLOC_FROM_POOL :: u64 where [cw_sizes]: "CW_MAX_ALLOC_FROM_POOL = 1024 - 1"
definition CW_DEFAULT_POOL_SIZE :: u64 where [cw_sizes]: "CW_DEFAULT_POOL_SIZE = 16 * 1024"
definition CW_POOL_ALIGNMENT :: u64 where [cw_sizes]: "CW_POOL_ALIGNMENT = 16"

record cw_pool_data =
  b_addr :: addr
  b_last :: addr
  b_end :: addr
  b_failed :: u64

record cw_pool_large =
  l_addr :: addr
  l_alloc :: addr

text \<open>A cleanup is a handler (named by its address) and its argument.\<close>

record cw_pool_cleanup =
  c_handler :: addr
  c_data :: addr

record cw_pool =
  p_blocks :: "cw_pool_data list"
  p_max :: u64
  p_current :: nat
  p_large :: "cw_pool_large list"
  p_cleanup :: "cw_pool_cleanup list"

section \<open>Operations\<close>

definition cw_create_pool :: "heap \<Rightarrow> u64 \<Rightarrow> heap \<times> cw_pool option" where
  "cw_create_pool h sz =
     (let (h1, p) = cw_memalign h CW_POOL_ALIGNMENT sz
      in if p = 0 then (h1, None)
         else let room = sz - sizeof_cw_pool
              in (h1, Some \<lparr>p_blocks = [\<lparr>b_addr = p, b_last = p + sizeof_cw_pool,
                                          b_end = p + sz, b_failed = 0\<rparr>],
                            p_max = (if room < CW_MAX_ALLOC_FROM_POOL then room
                                     else CW_MAX_ALLOC_FROM_POOL),
                            p_current = 0, p_large = [], p_cleanup = []\<rparr>))"

text \<open>
  The search of \<open>cw_palloc_small\<close> from a block to the end of the chain.  The room left
  in a block is the unsigned difference, as the cast to \<open>size_t\<close> makes it.
\<close>

fun palloc_search :: "u64 \<Rightarrow> bool \<Rightarrow> cw_pool_data list \<Rightarrow> (cw_pool_data list \<times> addr) option" where
  "palloc_search n align [] = None"
| "palloc_search n align (b # bs) =
     (let m = (if align then cw_align_ptr (b_last b) CW_ALIGNMENT else b_last b)
      in if b_end b - m \<ge> n then Some (b\<lparr>b_last := m + n\<rparr> # bs, m)
         else map_option (\<lambda>(bs', a). (b # bs', a)) (palloc_search n align bs))"

text \<open>
  The loop of \<open>cw_palloc_block\<close> over the blocks from \<open>current\<close> that have a successor:
  each failure is counted, and a block that failed more than four times before moves
  \<open>current\<close> to the next.  \<open>i\<close> is the position of the first block of the list.
\<close>

fun count_failures :: "nat \<Rightarrow> nat \<Rightarrow> cw_pool_data list \<Rightarrow> nat \<times> cw_pool_data list" where
  "count_failures i cur (b # c # bs) =
     (let cur' = (if b_failed b > 4 then i + 1 else cur);
          (cur'', rest) = count_failures (i + 1) cur' (c # bs)
      in (cur'', b\<lparr>b_failed := b_failed b + 1\<rparr> # rest))"
| "count_failures i cur bs = (cur, bs)"

definition cw_palloc_block :: "heap \<Rightarrow> cw_pool \<Rightarrow> u64 \<Rightarrow> heap \<times> cw_pool \<times> addr" where
  "cw_palloc_block h pool n =
     (let psize = b_end (hd (p_blocks pool)) - b_addr (hd (p_blocks pool));
          (h1, m) = cw_memalign h CW_POOL_ALIGNMENT psize
      in if m = 0 then (h1, pool, 0)
         else let m' = cw_align_ptr (m + sizeof_cw_pool_data) CW_ALIGNMENT;
                  new = \<lparr>b_addr = m, b_last = m' + n, b_end = m + psize, b_failed = 0\<rparr>;
                  cur = p_current pool;
                  (cur', tail) = count_failures cur cur (drop cur (p_blocks pool))
              in (h1, pool\<lparr>p_blocks := take cur (p_blocks pool) @ tail @ [new],
                           p_current := cur'\<rparr>, m'))"

definition cw_palloc_small :: "heap \<Rightarrow> cw_pool \<Rightarrow> u64 \<Rightarrow> bool \<Rightarrow> heap \<times> cw_pool \<times> addr" where
  "cw_palloc_small h pool n align =
     (case palloc_search n align (drop (p_current pool) (p_blocks pool)) of
        Some (bs, m) \<Rightarrow> (h, pool\<lparr>p_blocks := take (p_current pool) (p_blocks pool) @ bs\<rparr>, m)
      | None \<Rightarrow> cw_palloc_block h pool n)"

text \<open>
  The first loop of \<open>cw_palloc_large\<close>: a list node whose allocation was released is used
  again, but only the first five nodes are looked at (\<open>n++ > 3\<close>).
\<close>

fun reuse_large :: "nat \<Rightarrow> addr \<Rightarrow> cw_pool_large list \<Rightarrow> cw_pool_large list option" where
  "reuse_large n p [] = None"
| "reuse_large n p (l # ls) =
     (if l_alloc l = 0 then Some (l\<lparr>l_alloc := p\<rparr> # ls)
      else if n > 3 then None
      else map_option ((#) l) (reuse_large (n + 1) p ls))"

definition cw_palloc_large :: "heap \<Rightarrow> cw_pool \<Rightarrow> u64 \<Rightarrow> heap \<times> cw_pool \<times> addr" where
  "cw_palloc_large h pool n =
     (let (h1, p) = cw_alloc h n
      in if p = 0 then (h1, pool, 0)
         else case reuse_large 0 p (p_large pool) of
                Some ls \<Rightarrow> (h1, pool\<lparr>p_large := ls\<rparr>, p)
              | None \<Rightarrow>
                  (let (h2, pool2, large) = cw_palloc_small h1 pool sizeof_cw_pool_large True
                   in if large = 0 then (cw_free h2 p, pool2, 0)
                      else (h2, pool2\<lparr>p_large := \<lparr>l_addr = large, l_alloc = p\<rparr> # p_large pool2\<rparr>, p)))"

definition cw_palloc :: "heap \<Rightarrow> cw_pool \<Rightarrow> u64 \<Rightarrow> heap \<times> cw_pool \<times> addr" where
  "cw_palloc h pool n =
     (if n \<le> p_max pool then cw_palloc_small h pool n True else cw_palloc_large h pool n)"

definition cw_pnalloc :: "heap \<Rightarrow> cw_pool \<Rightarrow> u64 \<Rightarrow> heap \<times> cw_pool \<times> addr" where
  "cw_pnalloc h pool n =
     (if n \<le> p_max pool then cw_palloc_small h pool n False else cw_palloc_large h pool n)"

definition cw_pcalloc :: "heap \<Rightarrow> cw_pool \<Rightarrow> u64 \<Rightarrow> heap \<times> cw_pool \<times> addr" where
  "cw_pcalloc h pool n =
     (let (h1, pool1, p) = cw_palloc h pool n
      in (if p \<noteq> 0 then h1\<lparr>h_mem := cw_memset (h_mem h1) p 0 n\<rparr> else h1, pool1, p))"

text \<open>
  \<open>cw_destroy_pool\<close>: the cleanup handlers that are set run in list order (the result
  lists the calls), then every large allocation that is not NULL is freed, then the blocks
  from the head of the chain.  The debug listing of the same lists is left out.
\<close>

definition cw_destroy_pool :: "heap \<Rightarrow> cw_pool \<Rightarrow> heap \<times> (addr \<times> addr) list" where
  "cw_destroy_pool h pool =
     (let calls = map (\<lambda>c. (c_handler c, c_data c)) (filter (\<lambda>c. c_handler c \<noteq> 0) (p_cleanup pool));
          h1 = fold (\<lambda>l h. if l_alloc l \<noteq> 0 then cw_free h (l_alloc l) else h) (p_large pool) h;
          h2 = fold (\<lambda>b h. cw_free h (b_addr b)) (p_blocks pool) h1
      in (h2, calls))"

section \<open>The pool invariant\<close>

text \<open>
  A block holds its header (the whole \<open>cw_pool_t\<close> in the head block, only the
  \<open>cw_pool_data_t\<close> in the others) and then the bytes handed out, up to \<open>last\<close>.
\<close>

definition blk_hdr :: "nat \<Rightarrow> nat" where
  "blk_hdr i = (if i = 0 then 80 else 32)"

definition block_ok :: "nat \<Rightarrow> nat \<Rightarrow> cw_pool_data \<Rightarrow> bool" where
  "block_ok ps i b \<longleftrightarrow>
     unat (b_end b) = unat (b_addr b) + ps \<and> unat (b_addr b) mod 16 = 0 \<and>
     unat (b_addr b) + blk_hdr i \<le> unat (b_last b) \<and> unat (b_last b) \<le> unat (b_end b)"

definition pool_size :: "cw_pool \<Rightarrow> u64" where
  "pool_size p = b_end (hd (p_blocks p)) - b_addr (hd (p_blocks p))"

definition blocks_ok :: "nat \<Rightarrow> cw_pool_data list \<Rightarrow> bool" where
  "blocks_ok ps bs \<longleftrightarrow> bs \<noteq> [] \<and> (\<forall>i<length bs. block_ok ps i (bs ! i))"

definition chain_ok :: "cw_pool \<Rightarrow> bool" where
  "chain_ok p \<longleftrightarrow>
     blocks_ok (unat (pool_size p)) (p_blocks p) \<and> p_current p < length (p_blocks p) \<and>
     unat (pool_size p) mod 8 = 0 \<and> 80 \<le> unat (pool_size p) \<and>
     unat (p_max p) = min (unat (pool_size p) - 80) 1023"

definition large_addrs :: "cw_pool \<Rightarrow> addr list" where
  "large_addrs p = filter (\<lambda>a. a \<noteq> 0) (map l_alloc (p_large p))"

text \<open>The addresses the pool will free: those of its blocks and of its large allocations.\<close>

definition pool_addrs :: "cw_pool \<Rightarrow> addr list" where
  "pool_addrs p = map b_addr (p_blocks p) @ large_addrs p"

definition owns :: "heap \<Rightarrow> cw_pool \<Rightarrow> bool" where
  "owns h p \<longleftrightarrow>
     (\<forall>b\<in>set (p_blocks p). (b_addr b, pool_size p) \<in> set (h_live h)) \<and>
     set (large_addrs p) \<subseteq> fst ` set (h_live h) \<and> distinct (pool_addrs p)"

text \<open>A region lies in the used part of a block, or in a large allocation.\<close>

definition in_block :: "cw_pool_data list \<Rightarrow> region \<Rightarrow> bool" where
  "in_block bs r \<longleftrightarrow>
     (\<exists>i<length bs. unat (b_addr (bs ! i)) + blk_hdr i \<le> lo r \<and> hi r \<le> unat (b_last (bs ! i)))"

definition in_large :: "heap \<Rightarrow> cw_pool \<Rightarrow> region \<Rightarrow> bool" where
  "in_large h p r \<longleftrightarrow>
     (\<exists>l\<in>set (h_live h). fst l \<in> set (large_addrs p) \<and> lo l \<le> lo r \<and> hi r \<le> hi l)"

text \<open>The list nodes of the large allocations are themselves cut from the blocks.\<close>

definition large_nodes :: "cw_pool \<Rightarrow> region list" where
  "large_nodes p = map (\<lambda>l. (l_addr l, sizeof_cw_pool_large)) (p_large p)"

text \<open>
  \<open>rs\<close> are the regions handed out to the pool's clients: each lies in memory the pool
  owns, behind the block headers, and no two of them, nor one of them and a list node of
  the pool, overlap.
\<close>

definition pool_inv :: "heap \<Rightarrow> cw_pool \<Rightarrow> region list \<Rightarrow> bool" where
  "pool_inv h p rs \<longleftrightarrow>
     heap_ok h \<and> chain_ok p \<and> owns h p \<and>
     (\<forall>r\<in>set rs. in_block (p_blocks p) r \<or> in_large h p r) \<and>
     (\<forall>r\<in>set (large_nodes p). in_block (p_blocks p) r) \<and>
     separated (rs @ large_nodes p)"

lemma pool_invD:
  assumes "pool_inv h p rs"
  shows "heap_ok h" and "chain_ok p" and "owns h p" and "separated rs"
    and "separated (rs @ large_nodes p)"
    and "\<And>r. r \<in> set rs \<Longrightarrow> in_block (p_blocks p) r \<or> in_large h p r"
    and "\<And>r. r \<in> set (large_nodes p) \<Longrightarrow> in_block (p_blocks p) r"
  using assms by (auto simp: pool_inv_def separated_append)

lemma chain_okD:
  assumes "chain_ok p"
  shows "p_blocks p \<noteq> []" and "p_current p < length (p_blocks p)"
    and "unat (pool_size p) mod 8 = 0" and "80 \<le> unat (pool_size p)"
    and "i < length (p_blocks p) \<Longrightarrow> block_ok (unat (pool_size p)) i (p_blocks p ! i)"
    and "unat (p_max p) = min (unat (pool_size p) - 80) 1023"
  using assms by (auto simp: chain_ok_def blocks_ok_def)

lemma owned_live:
  assumes "owns h p"
  shows "set (pool_addrs p) \<subseteq> fst ` set (h_live h)"
proof -
  have "b_addr ` set (p_blocks p) \<subseteq> fst ` set (h_live h)"
    using assms unfolding owns_def by force
  then show ?thesis using assms by (simp add: owns_def pool_addrs_def)
qed

text \<open>Every region of the pool lies inside a live region of the heap that the pool owns.\<close>

lemma in_block_live:
  assumes "chain_ok p" and "owns h p" and "in_block (p_blocks p) r"
  shows "\<exists>l\<in>set (h_live h). fst l \<in> set (pool_addrs p) \<and> lo l \<le> lo r \<and> hi r \<le> hi l"
proof -
  from assms(3) obtain i where i: "i < length (p_blocks p)"
    and r: "unat (b_addr (p_blocks p ! i)) + blk_hdr i \<le> lo r" "hi r \<le> unat (b_last (p_blocks p ! i))"
    by (auto simp: in_block_def)
  have "block_ok (unat (pool_size p)) i (p_blocks p ! i)"
    by (rule chain_okD(5) [OF assms(1) i])
  moreover have "(b_addr (p_blocks p ! i), pool_size p) \<in> set (h_live h)"
    using assms(2) i by (simp add: owns_def)
  ultimately show ?thesis
    using r i by (intro bexI [of _ "(b_addr (p_blocks p ! i), pool_size p)"])
      (auto simp: block_ok_def pool_addrs_def)
qed

lemma pool_region_live:
  assumes "pool_inv h p rs" and "r \<in> set (rs @ large_nodes p)"
  shows "\<exists>l\<in>set (h_live h). fst l \<in> set (pool_addrs p) \<and> lo l \<le> lo r \<and> hi r \<le> hi l"
proof -
  from assms consider "in_block (p_blocks p) r" | "in_large h p r"
    by (auto simp: pool_inv_def)
  then show ?thesis
  proof cases
    case 1
    then show ?thesis using assms(1) in_block_live by (blast dest: pool_invD)
  next
    case 2
    then show ?thesis by (auto simp: in_large_def pool_addrs_def)
  qed
qed

lemma pool_region_bound:
  assumes "pool_inv h p rs" and "r \<in> set rs"
  shows "hi r < 2 ^ 64"
proof -
  obtain l where "l \<in> set (h_live h)" "hi r \<le> hi l"
    using pool_region_live [OF assms(1), of r] assms(2) by auto
  with pool_invD(1) [OF assms(1)] show ?thesis by (fastforce simp: heap_ok_def)
qed

lemma live_disjoint:
  assumes "heap_ok h" and "l \<in> set (h_live h)" and "k \<in> set (h_live h)" and "fst l \<noteq> fst k"
  shows "rdisj l k"
proof -
  from assms(2,3) obtain i j where ij: "i < length (h_live h)" "j < length (h_live h)"
    and eq: "h_live h ! i = l" "h_live h ! j = k" by (metis in_set_conv_nth)
  moreover have "i \<noteq> j" using assms(4) eq by auto
  ultimately show ?thesis
    using assms(1) separated_nth [of "h_live h" i j] by (simp add: heap_ok_def)
qed

lemma block_region_live:
  assumes "owns h p" and "i < length (p_blocks p)"
  shows "(b_addr (p_blocks p ! i), pool_size p) \<in> set (h_live h)"
  using assms by (simp add: owns_def)

lemma block_addr_distinct:
  assumes "owns h p" and "i < length (p_blocks p)" and "j < length (p_blocks p)" and "i \<noteq> j"
  shows "b_addr (p_blocks p ! i) \<noteq> b_addr (p_blocks p ! j)"
  proof -
  have "distinct (map b_addr (p_blocks p))" using assms(1) by (simp add: owns_def pool_addrs_def)
  then show ?thesis using assms(2-4) by (auto simp: distinct_conv_nth)
qed

lemma large_addr_not_block:
  assumes "owns h p" and "a \<in> set (large_addrs p)" and "i < length (p_blocks p)"
  shows "a \<noteq> b_addr (p_blocks p ! i)"
proof -
  have "b_addr (p_blocks p ! i) \<in> b_addr ` set (p_blocks p)" using assms(3) by simp
  then show ?thesis using assms(1,2) by (auto simp: owns_def pool_addrs_def)
qed

lemma owns_cong:
  assumes "map b_addr (p_blocks q) = map b_addr (p_blocks p)" and "large_addrs q = large_addrs p"
    and "pool_size q = pool_size p"
  shows "owns h q = owns h p"
proof -
  have alt: "owns h p \<longleftrightarrow> (\<forall>a\<in>set (map b_addr (p_blocks p)). (a, pool_size p) \<in> set (h_live h)) \<and>
     set (large_addrs p) \<subseteq> fst ` set (h_live h) \<and> distinct (pool_addrs p)" for p
    by (simp add: owns_def)
  show ?thesis unfolding alt pool_addrs_def assms ..
qed

text \<open>Nothing the pool handed out reaches into the free part of a block.\<close>

lemma free_part_disjoint:
  assumes inv: "pool_inv h p rs" and r: "r \<in> set (rs @ large_nodes p)"
    and i: "i < length (p_blocks p)" and b: "b = p_blocks p ! i"
    and m: "unat (b_last b) \<le> unat m" "unat m + unat n \<le> unat (b_end b)"
  shows "rdisj (m, n) r"
proof -
  note D = pool_invD [OF inv]
  let ?bl = "(b_addr b, pool_size p)"
  have blk: "block_ok (unat (pool_size p)) i b" using chain_okD(5) [OF D(2) i] b by simp
  have live: "?bl \<in> set (h_live h)" using block_region_live [OF D(3) i] b by simp
  have other: "rdisj (m, n) r" if l: "l \<in> set (h_live h)" "lo l \<le> lo r" "hi r \<le> hi l"
    and ne: "fst l \<noteq> b_addr b" for l
  proof -
    have "rdisj ?bl l" using live_disjoint [OF D(1) live l(1)] ne by simp
    then show ?thesis using blk m l by (rule_tac rdisj_within) (auto simp: block_ok_def)
  qed
  from r D consider (blk) "in_block (p_blocks p) r" | (lrg) "in_large h p r"
    by (metis Un_iff set_append)
  then show ?thesis
  proof cases
    case blk
    then obtain j where j: "j < length (p_blocks p)"
      and rj: "unat (b_addr (p_blocks p ! j)) + blk_hdr j \<le> lo r" "hi r \<le> unat (b_last (p_blocks p ! j))"
      by (auto simp: in_block_def)
    show ?thesis
    proof (cases "j = i")
      case True
      then show ?thesis using rj b m by (auto simp: rdisj_def)
    next
      case False
      then show ?thesis
        using other [OF block_region_live [OF D(3) j]] rj chain_okD(5) [OF D(2) j]
          block_addr_distinct [OF D(3) j i] b by (auto simp: block_ok_def)
    qed
  next
    case lrg
    then obtain l where "l \<in> set (h_live h)" "fst l \<in> set (large_addrs p)" "lo l \<le> lo r" "hi r \<le> hi l"
      by (auto simp: in_large_def)
    moreover from this have "fst l \<noteq> b_addr b"
      using large_addr_not_block [OF D(3) _ i] b by blast
    ultimately show ?thesis using other by blast
  qed
qed

text \<open>Cutting bytes from the free part of block \<open>i\<close> keeps the chain and adds one region.\<close>

definition cut :: "cw_pool \<Rightarrow> nat \<Rightarrow> addr \<Rightarrow> cw_pool" where
  "cut p i e = p\<lparr>p_blocks := (p_blocks p)[i := (p_blocks p ! i)\<lparr>b_last := e\<rparr>]\<rparr>"

lemma cut_simps [simp]:
  "p_large (cut p i e) = p_large p" "p_max (cut p i e) = p_max p"
  "p_current (cut p i e) = p_current p" "p_cleanup (cut p i e) = p_cleanup p"
  "length (p_blocks (cut p i e)) = length (p_blocks p)"
  "large_addrs (cut p i e) = large_addrs p" "large_nodes (cut p i e) = large_nodes p"
  by (simp_all add: cut_def large_addrs_def large_nodes_def)

lemma map_update_id: "f x = f (xs ! i) \<Longrightarrow> map f (xs[i := x]) = map f xs"
  by (metis list_update_id map_update)

lemma cut_maps [simp]:
  "map b_addr (p_blocks (cut p i e)) = map b_addr (p_blocks p)"
  "map b_end (p_blocks (cut p i e)) = map b_end (p_blocks p)"
  by (simp_all add: cut_def map_update_id)

lemma pool_size_map:
  assumes "p_blocks p \<noteq> []" and "map b_addr (p_blocks q) = map b_addr (p_blocks p)"
    and "map b_end (p_blocks q) = map b_end (p_blocks p)"
  shows "pool_size q = pool_size p"
proof -
  from assms have "p_blocks q \<noteq> []" by auto
  with assms show ?thesis unfolding pool_size_def by (metis list.map_sel(1))
qed

lemma cut_nth:
  "j < length (p_blocks p) \<Longrightarrow> p_blocks (cut p i e) ! j =
     (if j = i then (p_blocks p ! i)\<lparr>b_last := e\<rparr> else p_blocks p ! j)"
  by (simp add: cut_def nth_list_update)

lemma cut_from_block:
  assumes inv: "pool_inv h p rs" and i: "i < length (p_blocks p)" and b: "b = p_blocks p ! i"
    and m: "unat (b_last b) \<le> unat m" "unat m + unat n \<le> unat (b_end b)"
  shows "pool_inv h (cut p i (m + n)) ((m, n) # rs)"
    and "in_block (p_blocks (cut p i (m + n))) (m, n)"
proof -
  note D = pool_invD [OF inv]
  let ?q = "cut p i (m + n)"
  have blk: "block_ok (unat (pool_size p)) i b" using chain_okD(5) [OF D(2) i] b by simp
  have mn: "unat (m + n) = unat m + unat n"
    using m(2) unat_less_64 [of "b_end b"] by (simp add: unat_plus_nowrap)
  have ps: "pool_size ?q = pool_size p"
    by (rule pool_size_map) (simp_all add: chain_okD(1) [OF D(2)])
  have nth: "block_ok (unat (pool_size p)) j (p_blocks ?q ! j)" if "j < length (p_blocks p)" for j
    using that chain_okD(5) [OF D(2) that] blk b m mn by (auto simp: cut_nth block_ok_def)
  have chain: "chain_ok ?q"
    using D(2) nth chain_okD(1) [OF D(2)] unfolding chain_ok_def blocks_ok_def ps cut_simps
    by (metis cut_simps(5) length_0_conv)
  have "owns h ?q"
    using D(3) owns_cong [OF cut_maps(1) cut_simps(6) ps] by blast
  moreover have keep: "in_block (p_blocks ?q) r" if r: "in_block (p_blocks p) r" for r
  proof -
    from r obtain j where j: "j < length (p_blocks p)"
      and "unat (b_addr (p_blocks p ! j)) + blk_hdr j \<le> lo r" "hi r \<le> unat (b_last (p_blocks p ! j))"
      by (auto simp: in_block_def)
    with m mn b show ?thesis
      unfolding in_block_def by (intro exI [of _ j]) (auto simp: cut_nth)
  qed
  moreover show here: "in_block (p_blocks ?q) (m, n)"
    using i b blk m mn unfolding in_block_def by (intro exI [of _ i]) (simp add: cut_nth block_ok_def)
  moreover have "in_large h ?q r = in_large h p r" for r
    by (simp add: in_large_def)
  moreover have "\<forall>r\<in>set (rs @ large_nodes p). rdisj (m, n) r"
    using free_part_disjoint [OF inv _ i b m] by blast
  ultimately show "pool_inv h ?q ((m, n) # rs)"
    using D(1,5-7) chain here unfolding pool_inv_def cut_simps append_Cons separated_Cons
    by (metis set_ConsD)
qed

section \<open>Growing the heap and the chain\<close>

lemma pool_inv_more_heap:
  assumes "pool_inv h p rs" and "heap_ok h'" and "set (h_live h) \<subseteq> set (h_live h')"
  shows "pool_inv h' p rs"
proof -
  from assms(3) have "in_large h p r \<Longrightarrow> in_large h' p r" for r
    by (auto simp: in_large_def)
  moreover have "owns h p \<Longrightarrow> owns h' p"
    using assms(3) unfolding owns_def by (meson image_mono order_trans subsetD)
  ultimately show ?thesis
    using assms(1,2) by (auto simp: pool_inv_def)
qed

text \<open>Failure counts and \<open>current\<close> play no part in the invariant.\<close>

definition extent :: "cw_pool_data \<Rightarrow> addr \<times> addr \<times> addr" where
  "extent b = (b_addr b, b_last b, b_end b)"

lemma extent_eq:
  "extent b = extent c \<longleftrightarrow> b_addr b = b_addr c \<and> b_last b = b_last c \<and> b_end b = b_end c"
  by (simp add: extent_def)

lemma extent_maps:
  assumes "map extent bs = map extent cs"
  shows "map b_addr bs = map b_addr cs" and "map b_end bs = map b_end cs"
    and "length bs = length cs" and "i < length cs \<Longrightarrow> extent (bs ! i) = extent (cs ! i)"
proof -
  show "map b_addr bs = map b_addr cs"
    using arg_cong [OF assms, of "map fst"] by (simp add: extent_def comp_def)
  show "map b_end bs = map b_end cs"
    using arg_cong [OF assms, of "map (\<lambda>x. snd (snd x))"] by (simp add: extent_def comp_def)
  show "length bs = length cs" using assms by (metis length_map)
  then show "i < length cs \<Longrightarrow> extent (bs ! i) = extent (cs ! i)" using assms by (metis nth_map)
qed

lemma pool_inv_extent:
  assumes inv: "pool_inv h p rs" and e: "map extent (p_blocks q) = map extent (p_blocks p)"
    and same: "p_large q = p_large p" "p_max q = p_max p" and cur: "p_current q < length (p_blocks q)"
  shows "pool_inv h q rs"
proof -
  note D = pool_invD [OF inv]
  note M = extent_maps [OF e]
  have ps: "pool_size q = pool_size p"
    by (rule pool_size_map [OF chain_okD(1) [OF D(2)] M(1,2)])
  have la: "large_addrs q = large_addrs p" and ln: "large_nodes q = large_nodes p"
    by (simp_all add: large_addrs_def large_nodes_def same)
  have "block_ok (unat (pool_size p)) i (p_blocks q ! i)" if "i < length (p_blocks p)" for i
    using chain_okD(5) [OF D(2) that] M(4) [OF that] by (simp add: block_ok_def extent_eq)
  then have "chain_ok q"
    using chain_okD [OF D(2)] M(3) cur unfolding chain_ok_def blocks_ok_def ps same by auto
  moreover have "owns h q" using D(3) owns_cong [OF M(1) la ps] by blast
  moreover have "in_block (p_blocks q) r = in_block (p_blocks p) r" for r
    unfolding in_block_def M(3) using M(4) by (metis (no_types, lifting) extent_eq)
  moreover have "in_large h q r = in_large h p r" for r by (simp add: in_large_def la)
  ultimately show ?thesis using inv by (simp add: pool_inv_def ln)
qed

text \<open>A fresh block, with only its header in use, joins the chain.\<close>

lemma add_block:
  assumes inv: "pool_inv h p rs" and ok: "heap_ok h'"
    and live: "h_live h' = (m, pool_size p) # h_live h" and m: "unat m mod 16 = 0"
    and new: "b_addr b = m" "b_last b = m + 32" "b_end b = m + pool_size p"
  shows "pool_inv h' (p\<lparr>p_blocks := p_blocks p @ [b]\<rparr>) rs"
proof -
  note D = pool_invD [OF inv]
  let ?q = "p\<lparr>p_blocks := p_blocks p @ [b]\<rparr>"
  have bd: "unat m + unat (pool_size p) < 2 ^ 64" and fresh: "m \<notin> fst ` set (h_live h)"
    using ok live by (auto simp: heap_ok_def)
  have end32: "unat (m + 32) = unat m + 32" "unat (m + pool_size p) = unat m + unat (pool_size p)"
    using bd chain_okD(4) [OF D(2)] by (subst unat_plus_nowrap; simp)+
  have ps: "pool_size ?q = pool_size p"
    using chain_okD(1) [OF D(2)] by (simp add: pool_size_def)
  have blk: "block_ok (unat (pool_size p)) (length (p_blocks p)) b"
    using chain_okD(1,4) [OF D(2)] end32 m new by (simp add: block_ok_def blk_hdr_def)
  have "block_ok (unat (pool_size p)) i ((p_blocks p @ [b]) ! i)" if "i < Suc (length (p_blocks p))" for i
    using that blk chain_okD(5) [OF D(2)] by (auto simp: nth_append less_Suc_eq)
  then have "chain_ok ?q"
    using chain_okD [OF D(2)] unfolding chain_ok_def blocks_ok_def ps by auto
  moreover have "owns h' ?q"
  proof -
    have "m \<notin> b_addr ` set (p_blocks p)" and "m \<notin> set (large_addrs p)"
      using fresh owned_live [OF D(3)] by (auto simp: pool_addrs_def)
    moreover have la: "large_addrs ?q = large_addrs p" by (simp add: large_addrs_def)
    ultimately have "distinct (pool_addrs ?q)"
      using D(3) new(1) by (simp add: owns_def pool_addrs_def)
    moreover have "set (large_addrs p) \<subseteq> fst ` set (h_live h')"
      using owned_live [OF D(3)] live by (auto simp: pool_addrs_def)
    moreover have "\<forall>c\<in>set (p_blocks ?q). (b_addr c, pool_size p) \<in> set (h_live h')"
      using D(3) live new(1) by (simp add: owns_def)
    ultimately show ?thesis unfolding owns_def ps la by blast
  qed
  moreover have "in_block (p_blocks ?q) r" if "in_block (p_blocks p) r" for r
    using that unfolding in_block_def by (auto simp: nth_append intro: less_SucI)
  moreover have "in_large h' ?q r" if "in_large h p r" for r
    using that live by (auto simp: in_large_def large_addrs_def)
  moreover have "large_nodes ?q = large_nodes p" by (simp add: large_nodes_def)
  ultimately show ?thesis
    using D(5-7) ok unfolding pool_inv_def by metis
qed

lemma count_failures_extent:
  "count_failures i cur bs = (cur', bs') \<Longrightarrow>
     map extent bs' = map extent bs \<and> (cur' = cur \<or> cur' < i + length bs)"
proof (induction i cur bs arbitrary: cur' bs' rule: count_failures.induct)
  case (1 i cur b c bs)
  then show ?case
    by (auto simp: Let_def extent_def split: prod.splits if_splits) fastforce+
qed auto

lemma palloc_search_Some:
  "palloc_search n al bs = Some (bs', m) \<Longrightarrow>
     \<exists>i<length bs. m = (if al then cw_align_ptr (b_last (bs ! i)) CW_ALIGNMENT else b_last (bs ! i)) \<and>
       n \<le> b_end (bs ! i) - m \<and> bs' = bs[i := (bs ! i)\<lparr>b_last := m + n\<rparr>]"
proof (induction bs arbitrary: bs')
  case (Cons b bs)
  let ?m = "if al then cw_align_ptr (b_last b) CW_ALIGNMENT else b_last b"
  show ?case
  proof (cases "b_end b - ?m \<ge> n")
    case True
    with Cons.prems show ?thesis by (intro exI [of _ 0]) (auto simp: Let_def)
  next
    case False
    with Cons.prems obtain bs1 where "palloc_search n al bs = Some (bs1, m)" and "bs' = b # bs1"
      by (auto simp: Let_def)
    with Cons.IH obtain i where "i < length bs"
      "m = (if al then cw_align_ptr (b_last (bs ! i)) CW_ALIGNMENT else b_last (bs ! i))"
      "n \<le> b_end (bs ! i) - m" "bs1 = bs[i := (bs ! i)\<lparr>b_last := m + n\<rparr>]" by blast
    with \<open>bs' = b # bs1\<close> show ?thesis by (intro exI [of _ "Suc i"]) auto
  qed
qed simp

section \<open>The allocation routines keep the invariant\<close>

lemma update_after_take: "take c xs @ (drop c xs)[i := x] = xs[c + i := x]"
proof -
  have "take c xs @ (drop c xs)[i := x] = take c (xs[c + i := x]) @ drop c (xs[c + i := x])"
    by (simp add: drop_update_swap)
  also have "\<dots> = xs[c + i := x]" by (rule append_take_drop_id)
  finally show ?thesis .
qed

text \<open>What a small allocation leaves alone.\<close>

lemma palloc_block_frame:
  "cw_palloc_block h p n = (h', p', a) \<Longrightarrow>
     p_large p' = p_large p \<and> p_max p' = p_max p \<and> p_cleanup p' = p_cleanup p \<and>
     h_mem h' = h_mem h \<and> h_libc h' = h_libc h"
  by (auto simp: cw_palloc_block_def cw_memalign_eq cw_frame Let_def split: prod.splits if_splits)

lemma palloc_small_frame [cw_frame]:
  "cw_palloc_small h p n al = (h', p', a) \<Longrightarrow>
     p_large p' = p_large p \<and> p_max p' = p_max p \<and> p_cleanup p' = p_cleanup p \<and>
     h_mem h' = h_mem h \<and> h_libc h' = h_libc h"
  by (auto simp: cw_palloc_small_def palloc_block_frame split: option.splits)

lemma palloc_block_refused:
  assumes inv: "pool_inv h p rs" and c: "cw_palloc_block h p n = (h', p', 0)"
    and n: "unat n + 32 \<le> unat (pool_size p)"
  shows "p' = p" and "h_live h' = h_live h" and "heap_ok h'" and "refusal h h'"
proof -
  note D = pool_invD [OF inv]
  obtain h1 m where r: "libc_request h CW_POOL_ALIGNMENT (pool_size p) = (h1, m)" by fastforce
  have "m = 0"
  proof (rule ccontr)
    assume "m \<noteq> 0"
    note g = libc_request_granted [OF D(1) r this]
    have f: "unat m mod 16 = 0" "unat m + unat (pool_size p) < 2 ^ 64"
      using g(2) by (simp_all add: fits_def cw_sizes)
    then have a: "unat (m + 32) = unat m + 32"
      using chain_okD(4) [OF D(2)] by (subst unat_plus_nowrap) simp_all
    have "unat (m + 32) \<le> unat (cw_align_ptr (m + 32) CW_ALIGNMENT)"
    proof (rule align_8_bounds(1))
      show "unat (m + 32) \<le> unat m + 32" using a by simp
      show "(unat m + 32) mod 8 = 0" using f(1) by presburger
      show "unat m + 32 < 2 ^ 64" using f(2) chain_okD(4) [OF D(2)] by simp
    qed
    then have "cw_align_ptr (m + 32) CW_ALIGNMENT \<noteq> 0" using a by (metis add_is_0 le_zero_eq unat_0 zero_neq_numeral)
    then show False
      using c \<open>m \<noteq> 0\<close> r
      by (auto simp: cw_palloc_block_def cw_memalign_eq Let_def sizeof_cw_pool_data_def
          simp flip: pool_size_def split: prod.splits)
  qed
  then have eq: "h' = h1 \<and> p' = p"
    using c r by (simp add: cw_palloc_block_def cw_memalign_eq Let_def flip: pool_size_def)
  then show "p' = p" by simp
  from eq r \<open>m = 0\<close> show "h_live h' = h_live h" by (simp add: libc_request_refused)
  from eq libc_request_ok [OF D(1) r] show "heap_ok h'" by simp
  from eq r \<open>m = 0\<close> show "refusal h h'" by (simp add: libc_request_refusal)
qed

text \<open>The data of a block begin after its header, where no alignment is needed.\<close>

lemma block_data_aligned:
  assumes "unat m mod 16 = 0" "unat m + k < 2 ^ 64" "40 \<le> k"
  shows "unat (m + 32) = unat m + 32" "cw_align_ptr (m + 32) CW_ALIGNMENT = m + 32"
proof -
  show m32: "unat (m + 32) = unat m + 32" using assms(2,3) by (subst unat_plus_nowrap) simp_all
  have lt: "unat (m + 32) + 7 < 2 ^ 64" using m32 assms(2,3) by simp
  have "unat (cw_align_ptr (m + 32) CW_ALIGNMENT) = unat (m + 32)"
    unfolding unat_align_8 [OF lt] m32 using assms(1) by presburger
  then show "cw_align_ptr (m + 32) CW_ALIGNMENT = m + 32" by (simp add: word_unat_eq_iff)
qed

text \<open>Counting failures changes neither the extent of a block nor what the pool owns.\<close>

lemma count_failures_pool:
  assumes inv: "pool_inv h p rs"
    and cf: "count_failures (p_current p) (p_current p) (drop (p_current p) (p_blocks p)) = (cur', tail)"
  defines "q \<equiv> p\<lparr>p_blocks := take (p_current p) (p_blocks p) @ tail, p_current := cur'\<rparr>"
  shows "pool_inv h q rs" "pool_size q = pool_size p" "map b_addr (p_blocks q) = map b_addr (p_blocks p)"
proof -
  note D = pool_invD [OF inv]
  let ?bs = "take (p_current p) (p_blocks p) @ tail"
  have ext: "map extent tail = map extent (drop (p_current p) (p_blocks p))"
    and cur': "cur' = p_current p \<or> cur' < p_current p + length (drop (p_current p) (p_blocks p))"
    using count_failures_extent [OF cf] by auto
  have bs: "map extent ?bs = map extent (p_blocks p)"
    using ext by (metis append_take_drop_id map_append)
  note M = extent_maps [OF bs]
  show "pool_inv h q rs"
    unfolding q_def by (rule pool_inv_extent [OF inv]) (use bs M(3) cur' chain_okD(2) [OF D(2)] in auto)
  show "pool_size q = pool_size p"
    unfolding q_def by (rule pool_size_map [OF chain_okD(1) [OF D(2)]]) (use M in simp_all)
  show "map b_addr (p_blocks q) = map b_addr (p_blocks p)" using M(1) by (simp add: q_def)
qed

lemma palloc_block_granted:
  assumes inv: "pool_inv h p rs" and c: "cw_palloc_block h p n = (h', p', a)" and a: "a \<noteq> 0"
    and n: "unat n + 32 \<le> unat (pool_size p)"
  shows "pool_inv h' p' ((a, n) # rs)" and "unat a mod 8 = 0"
    and "\<exists>m. h_live h' = (m, pool_size p) # h_live h \<and> m \<notin> fst ` set (h_live h) \<and>
           map b_addr (p_blocks p') = map b_addr (p_blocks p) @ [m]"
    and "in_block (p_blocks p') (a, n)"
proof -
  note D = pool_invD [OF inv]
  let ?cur = "p_current p"
  obtain h1 m where r: "libc_request h CW_POOL_ALIGNMENT (pool_size p) = (h1, m)" by fastforce
  obtain cur' tail where cf: "count_failures ?cur ?cur (drop ?cur (p_blocks p)) = (cur', tail)"
    by fastforce
  have m0: "m \<noteq> 0"
    using c r a by (auto simp: cw_palloc_block_def cw_memalign_eq Let_def simp flip: pool_size_def)
  note g = libc_request_granted [OF D(1) r m0]
  have ok1: "heap_ok h1" by (rule libc_request_ok [OF D(1) r])
  have f: "unat m mod 16 = 0" "unat m + unat (pool_size p) < 2 ^ 64"
    using g(2) by (simp_all add: fits_def cw_sizes)
  have m32: "unat (m + 32) = unat m + 32" and al: "cw_align_ptr (m + 32) CW_ALIGNMENT = m + 32"
    using block_data_aligned [OF f] chain_okD(4) [OF D(2)] by simp_all
  let ?new = "\<lparr>b_addr = m, b_last = m + 32, b_end = m + pool_size p, b_failed = 0\<rparr>"
  let ?bs = "take ?cur (p_blocks p) @ tail"
  let ?q = "p\<lparr>p_blocks := ?bs, p_current := cur'\<rparr>"
  let ?q1 = "?q\<lparr>p_blocks := p_blocks ?q @ [?new]\<rparr>"
  note Q = count_failures_pool [OF inv cf]
  have q1: "pool_inv h1 ?q1 rs"
    using Q(2) by (intro add_block [OF Q(1) ok1]) (use g(1) f in simp_all)
  have "h1 = h' \<and> p\<lparr>p_blocks := ?bs @ [?new\<lparr>b_last := m + 32 + n\<rparr>], p_current := cur'\<rparr> = p' \<and> m + 32 = a"
    using c r m0 cf al
    by (auto simp add: cw_palloc_block_def cw_memalign_eq Let_def sizeof_cw_pool_data_def
        simp flip: pool_size_def)
  moreover have "(?bs @ [?new])[length ?bs := ((?bs @ [?new]) ! length ?bs)\<lparr>b_last := m + 32 + n\<rparr>]
      = ?bs @ [?new\<lparr>b_last := m + 32 + n\<rparr>]"
    by (simp only: nth_append_length list_update_length)
  ultimately have eqs: "h' = h1" "a = m + 32" "p' = cut ?q1 (length ?bs) (m + 32 + n)"
    by (auto simp: cut_def)
  have "unat (m + pool_size p) = unat m + unat (pool_size p)"
    by (rule unat_plus_nowrap [OF f(2)])
  then have "unat (b_last ?new) \<le> unat (m + 32)" "unat (m + 32) + unat n \<le> unat (b_end ?new)"
    using m32 n by auto
  moreover have "p_blocks ?q1 = ?bs @ [?new]" by simp
  then have "?new = p_blocks ?q1 ! length ?bs" by (simp only: nth_append_length)
  moreover have "length ?bs < length (p_blocks ?q1)" by simp
  ultimately have "pool_inv h1 (cut ?q1 (length ?bs) (m + 32 + n)) ((m + 32, n) # rs)"
    and "in_block (p_blocks (cut ?q1 (length ?bs) (m + 32 + n))) (m + 32, n)"
    using cut_from_block [OF q1] by blast+
  then show "pool_inv h' p' ((a, n) # rs)" and "in_block (p_blocks p') (a, n)" unfolding eqs by auto
  show "unat a mod 8 = 0" unfolding eqs m32 using f(1) by presburger
  have "map b_addr (p_blocks p') = map b_addr (p_blocks p) @ [m]"
    unfolding eqs cut_maps using Q(3) by simp
  then show "\<exists>m. h_live h' = (m, pool_size p) # h_live h \<and> m \<notin> fst ` set (h_live h) \<and>
           map b_addr (p_blocks p') = map b_addr (p_blocks p) @ [m]"
    using g eqs(1) by (intro exI [of _ m]) (auto simp: fits_def)
qed

text \<open>
  \<open>cw_palloc_small\<close> either cuts the bytes from a block of the chain or adds a block.
  \<open>grown\<close> says how the heap and the addresses the pool owns can change.
\<close>

definition grown :: "heap \<Rightarrow> cw_pool \<Rightarrow> heap \<Rightarrow> cw_pool \<Rightarrow> bool" where
  "grown h p h' p' \<longleftrightarrow>
     set (h_live h) \<subseteq> set (h_live h') \<and>
     b_addr ` set (p_blocks p') \<subseteq> b_addr ` set (p_blocks p) \<union> - fst ` set (h_live h)"

lemma palloc_small_found:
  assumes inv: "pool_inv h p rs"
    and s: "palloc_search n al (drop (p_current p) (p_blocks p)) = Some (bs, m)"
  shows "pool_inv h (p\<lparr>p_blocks := take (p_current p) (p_blocks p) @ bs\<rparr>) ((m, n) # rs)"
    and "al \<Longrightarrow> unat m mod 8 = 0" and "m \<noteq> 0"
    and "map b_addr (take (p_current p) (p_blocks p) @ bs) = map b_addr (p_blocks p)"
    and "in_block (take (p_current p) (p_blocks p) @ bs) (m, n)"
proof -
  note D = pool_invD [OF inv]
  let ?ds = "drop (p_current p) (p_blocks p)"
  obtain k where k0: "k < length ?ds"
    and m0: "m = (if al then cw_align_ptr (b_last (?ds ! k)) CW_ALIGNMENT else b_last (?ds ! k))"
    and r0: "n \<le> b_end (?ds ! k) - m" and bs0: "bs = ?ds[k := (?ds ! k)\<lparr>b_last := m + n\<rparr>]"
    using palloc_search_Some [OF s] by blast
  have nth: "?ds ! k = p_blocks p ! (p_current p + k)" using chain_okD(2) [OF D(2)] by simp
  from k0 have k: "p_current p + k < length (p_blocks p)" by simp
  from m0 r0 bs0 have
      m: "m = (if al then cw_align_ptr (b_last (p_blocks p ! (p_current p + k))) CW_ALIGNMENT
                   else b_last (p_blocks p ! (p_current p + k)))"
      and room: "n \<le> b_end (p_blocks p ! (p_current p + k)) - m"
      and bs: "bs = (drop (p_current p) (p_blocks p))[k := (p_blocks p ! (p_current p + k))\<lparr>b_last := m + n\<rparr>]"
    unfolding nth by blast+
  define i where "i = p_current p + k"
  let ?b = "p_blocks p ! i"
  have i: "i < length (p_blocks p)" using k by (simp add: i_def)
  have blk: "block_ok (unat (pool_size p)) i ?b" by (rule chain_okD(5) [OF D(2) i])
  have e: "unat (b_last ?b) \<le> unat (b_end ?b)" "unat (b_end ?b) mod 8 = 0" "unat (b_end ?b) < 2 ^ 64"
    using blk chain_okD(3) [OF D(2)] unat_less_64 [of "b_end ?b"] by (auto simp: block_ok_def)
  note al = align_8_bounds [OF e]
  have le: "unat (b_last ?b) \<le> unat m" "unat m \<le> unat (b_end ?b)"
    using m al e(1) by (simp_all add: i_def)
  then have "unat m + unat n \<le> unat (b_end ?b)"
    using room room_iff [of m "b_end ?b" n] by (simp add: i_def)
  then have "pool_inv h (cut p i (m + n)) ((m, n) # rs)"
    and "in_block (p_blocks (cut p i (m + n))) (m, n)"
    using cut_from_block [OF inv i refl le(1)] by simp_all
  note cut = this
  have eq: "p\<lparr>p_blocks := take (p_current p) (p_blocks p) @ bs\<rparr> = cut p i (m + n)"
    by (simp add: cut_def bs update_after_take i_def)
  show "pool_inv h (p\<lparr>p_blocks := take (p_current p) (p_blocks p) @ bs\<rparr>) ((m, n) # rs)"
    unfolding eq by (rule cut(1))
  show "in_block (take (p_current p) (p_blocks p) @ bs) (m, n)"
    using arg_cong [OF eq, of p_blocks] cut(2) by simp
  show "unat m mod 8 = 0" if al using that m al(3) by (simp add: i_def)
  have "0 < unat m" using blk le(1) by (auto simp: block_ok_def blk_hdr_def split: if_splits)
  then show "m \<noteq> 0" by auto
  show "map b_addr (take (p_current p) (p_blocks p) @ bs) = map b_addr (p_blocks p)"
    by (simp add: bs update_after_take map_update_id)
qed

lemma palloc_small_granted:
  assumes inv: "pool_inv h p rs" and c: "cw_palloc_small h p n al = (h', p', a)" and a: "a \<noteq> 0"
    and n: "unat n + 32 \<le> unat (pool_size p)"
  shows "pool_inv h' p' ((a, n) # rs)" and "al \<Longrightarrow> unat a mod 8 = 0" and "grown h p h' p'"
    and "in_block (p_blocks p') (a, n)"
proof -
  have "pool_inv h' p' ((a, n) # rs) \<and> (al \<longrightarrow> unat a mod 8 = 0) \<and> grown h p h' p' \<and>
      in_block (p_blocks p') (a, n)"
  proof (cases "palloc_search n al (drop (p_current p) (p_blocks p))")
    case None
    then have "cw_palloc_block h p n = (h', p', a)" using c by (simp add: cw_palloc_small_def)
    note g = palloc_block_granted [OF inv this a n]
    then obtain m where "h_live h' = (m, pool_size p) # h_live h" "m \<notin> fst ` set (h_live h)"
      and eq: "map b_addr (p_blocks p') = map b_addr (p_blocks p) @ [m]" by blast
    moreover have "b_addr ` set (p_blocks p') = insert m (b_addr ` set (p_blocks p))"
      using arg_cong [OF eq, of set] by simp
    ultimately show ?thesis using g by (auto simp: grown_def)
  next
    case (Some x)
    obtain bs m where x: "x = (bs, m)" by fastforce
    note f = palloc_small_found [OF inv Some [unfolded x]]
    have eqs: "h' = h" "p' = p\<lparr>p_blocks := take (p_current p) (p_blocks p) @ bs\<rparr>" "a = m"
      using c Some x by (simp_all add: cw_palloc_small_def)
    have "b_addr ` set (p_blocks p') = b_addr ` set (p_blocks p)"
      using arg_cong [OF f(4), of set] eqs(2) by (simp add: image_Un)
    then show ?thesis using f(1,2,5) unfolding grown_def eqs by auto
  qed
  then show "pool_inv h' p' ((a, n) # rs)" and "al \<Longrightarrow> unat a mod 8 = 0" and "grown h p h' p'"
    and "in_block (p_blocks p') (a, n)"
    by auto
qed

lemma palloc_small_refused:
  assumes inv: "pool_inv h p rs" and c: "cw_palloc_small h p n al = (h', p', 0)"
    and n: "unat n + 32 \<le> unat (pool_size p)"
  shows "p' = p" and "h_live h' = h_live h" and "heap_ok h'" and "pool_inv h' p' rs"
    and "refusal h h'"
proof -
  have "cw_palloc_block h p n = (h', p', 0)"
    using c palloc_small_found(3) [OF inv, of n al]
    by (auto simp: cw_palloc_small_def split: option.splits)
  note r = palloc_block_refused [OF inv this n]
  then show "p' = p" and "h_live h' = h_live h" and "heap_ok h'" and "refusal h h'" by auto
  then show "pool_inv h' p' rs" using pool_inv_more_heap [OF inv, of h'] by simp
qed

section \<open>Large allocations\<close>

lemma reuse_large_Some:
  "reuse_large n p ls = Some ls' \<Longrightarrow>
     \<exists>us l vs. ls = us @ l # vs \<and> ls' = us @ l\<lparr>l_alloc := p\<rparr> # vs \<and> l_alloc l = 0"
proof (induction n p ls arbitrary: ls' rule: reuse_large.induct)
  case (2 n p l ls)
  show ?case
  proof (cases "l_alloc l = 0")
    case True
    with "2.prems" show ?thesis by (intro exI [of _ "[]"]) auto
  next
    case False
    with "2.prems" obtain ls1 where "reuse_large (n + 1) p ls = Some ls1" "ls' = l # ls1" "\<not> n > 3"
      by (auto split: if_splits)
    with "2.IH" [OF False] obtain us k vs where "ls = us @ k # vs" "ls1 = us @ k\<lparr>l_alloc := p\<rparr> # vs" "l_alloc k = 0"
      by blast
    with \<open>ls' = l # ls1\<close> show ?thesis by (intro exI [of _ "l # us"]) auto
  qed
qed simp

text \<open>
  A fresh live region is handed to the pool as a large allocation: \<open>q\<close> is the pool with
  \<open>a\<close> among its large addresses, and \<open>nodes\<close> are the list nodes it had to cut for it.
\<close>

lemma add_large:
  assumes inv: "pool_inv h p (nodes @ rs)" and live: "(a, n) \<in> set (h_live h)"
    and new: "a \<notin> set (pool_addrs p)" and a: "a \<noteq> 0"
    and blk: "\<forall>r\<in>set nodes. in_block (p_blocks p) r"
    and q: "q = p\<lparr>p_large := ls\<rparr>" and mem: "set (large_addrs q) = insert a (set (large_addrs p))"
    and dist: "distinct (large_addrs q)" and nds: "separated (large_nodes q @ rs) = separated (nodes @ large_nodes p @ rs)"
    and nset: "set (large_nodes q) = set nodes \<union> set (large_nodes p)"
  shows "pool_inv h q ((a, n) # rs)"
proof -
  note D = pool_invD [OF inv]
  have ps: "pool_size q = pool_size p" and ch: "chain_ok q = chain_ok p"
    by (simp_all add: q pool_size_def chain_ok_def)
  have own: "owns h q"
  proof -
    have "a \<in> fst ` set (h_live h)" using live by force
    then have "set (large_addrs q) \<subseteq> fst ` set (h_live h)" using D(3) mem by (simp add: owns_def)
    moreover have "distinct (pool_addrs q)"
    proof -
      have "b_addr ` set (p_blocks p) \<inter> set (large_addrs q) = {}"
        using D(3) new mem by (auto simp: owns_def pool_addrs_def)
      then show ?thesis using D(3) dist by (simp add: owns_def pool_addrs_def q)
    qed
    ultimately show ?thesis using D(3) unfolding owns_def ps by (simp add: q)
  qed
  have disj: "rdisj (a, n) r" if r: "r \<in> set ((nodes @ rs) @ large_nodes p)" for r
  proof -
    obtain l where l: "l \<in> set (h_live h)" "fst l \<in> set (pool_addrs p)" "lo l \<le> lo r" "hi r \<le> hi l"
      using pool_region_live [OF inv r] by blast
    then have "rdisj (a, n) l" using new by (intro live_disjoint [OF D(1) live]) auto
    then show ?thesis by (rule rdisj_within) (use l in auto)
  qed
  have "in_large h q (a, n)"
    using live mem unfolding in_large_def by (intro bexI [of _ "(a, n)"]) simp_all
  moreover have "in_large h q r" if "in_large h p r" for r
    using that mem by (auto simp: in_large_def)
  moreover have "separated (rs @ large_nodes q)"
    using D(5) nds by (auto simp: separated_append rdisj_sym)
  moreover have "\<forall>r\<in>set (rs @ large_nodes q). rdisj (a, n) r"
    using disj nset by auto
  moreover have "\<forall>r\<in>set rs. in_block (p_blocks q) r \<or> in_large h p r"
    using D(6) by (simp add: q)
  moreover have "\<forall>r\<in>set (large_nodes q). in_block (p_blocks q) r"
    using D(7) blk nset by (auto simp: q)
  ultimately show ?thesis
    using D(1,2) own unfolding pool_inv_def ch by (metis append_Cons separated_Cons set_ConsD)
qed

lemma large_reused:
  assumes inv: "pool_inv h p rs" and live: "(a, n) \<in> set (h_live h)"
    and new: "a \<notin> set (pool_addrs p)" and a: "a \<noteq> 0"
    and r: "reuse_large 0 a (p_large p) = Some ls"
  shows "pool_inv h (p\<lparr>p_large := ls\<rparr>) ((a, n) # rs)"
proof -
  obtain us l vs where ls: "p_large p = us @ l # vs" "ls = us @ l\<lparr>l_alloc := a\<rparr> # vs" "l_alloc l = 0"
    using reuse_large_Some [OF r] by blast
  let ?q = "p\<lparr>p_large := ls\<rparr>"
  have nodes: "large_nodes ?q = large_nodes p" by (simp add: large_nodes_def ls)
  have addrs: "set (large_addrs ?q) = insert a (set (large_addrs p))"
    using a by (auto simp: large_addrs_def ls)
  have "distinct (large_addrs p)" and "a \<notin> set (large_addrs p)"
    using pool_invD(3) [OF inv] new by (simp_all add: owns_def pool_addrs_def)
  then have dist: "distinct (large_addrs ?q)"
    using a by (auto simp: large_addrs_def ls)
  show ?thesis
  proof (rule add_large [where nodes = "[]" and ls = ls])
    show "separated (large_nodes ?q @ rs) = separated ([] @ large_nodes p @ rs)"
      by (simp add: nodes)
  qed (use inv live new a addrs dist nodes in auto)
qed

lemma large_listed:
  assumes inv: "pool_inv h p ((x, sizeof_cw_pool_large) # rs)" and live: "(a, n) \<in> set (h_live h)"
    and new: "a \<notin> set (pool_addrs p)" and a: "a \<noteq> 0"
    and x: "in_block (p_blocks p) (x, sizeof_cw_pool_large)"
  shows "pool_inv h (p\<lparr>p_large := \<lparr>l_addr = x, l_alloc = a\<rparr> # p_large p\<rparr>) ((a, n) # rs)"
proof -
  let ?q = "p\<lparr>p_large := \<lparr>l_addr = x, l_alloc = a\<rparr> # p_large p\<rparr>"
  have nodes: "large_nodes ?q = (x, sizeof_cw_pool_large) # large_nodes p" by (simp add: large_nodes_def)
  have addrs: "large_addrs ?q = a # large_addrs p" using a by (simp add: large_addrs_def)
  have dist: "distinct (large_addrs ?q)"
    using pool_invD(3) [OF inv] new by (simp add: owns_def pool_addrs_def addrs)
  show ?thesis
  proof (rule add_large [where nodes = "[(x, sizeof_cw_pool_large)]" and ls = "p_large ?q"])
    show "separated (large_nodes ?q @ rs) = separated ([(x, sizeof_cw_pool_large)] @ large_nodes p @ rs)"
      by (simp add: nodes)
  qed (use inv live new a addrs dist nodes x in auto)
qed

lemma room_for_node: "chain_ok p \<Longrightarrow> unat sizeof_cw_pool_large + 32 \<le> unat (pool_size p)"
  using chain_okD(4) by (fastforce simp: cw_sizes)

lemma not_live_not_owned:
  assumes "pool_inv h p rs" and "a \<notin> fst ` set (h_live h)"
  shows "a \<notin> set (pool_addrs p)"
proof -
  have "set (pool_addrs p) \<subseteq> fst ` set (h_live h)"
    by (rule owned_live [OF pool_invD(3) [OF assms(1)]])
  then show ?thesis using assms(2) by blast
qed

lemma palloc_large_granted:
  assumes inv: "pool_inv h p rs" and c: "cw_palloc_large h p n = (h', p', a)" and a: "a \<noteq> 0"
  shows "pool_inv h' p' ((a, n) # rs)" and "unat a mod 16 = 0"
proof -
  note D = pool_invD [OF inv]
  obtain h1 a1 where r: "libc_request h MAX_ALIGN n = (h1, a1)" by fastforce
  have a1: "a1 \<noteq> 0" using c r a by (auto simp: cw_palloc_large_def cw_alloc_def Let_def)
  note g = libc_request_granted [OF D(1) r a1]
  have ok: "heap_ok h1" by (rule libc_request_ok [OF D(1) r])
  have inv1: "pool_inv h1 p rs" by (rule pool_inv_more_heap [OF inv ok]) (auto simp: g(1))
  have fresh: "a1 \<notin> fst ` set (h_live h)" and al: "unat a1 mod 16 = 0"
    using g(2) by (auto simp: fits_def cw_sizes)
  have new: "a1 \<notin> set (pool_addrs p)" by (rule not_live_not_owned [OF inv fresh])
  have live1: "(a1, n) \<in> set (h_live h1)" by (simp add: g(1))
  have "pool_inv h' p' ((a, n) # rs) \<and> a = a1"
  proof (cases "reuse_large 0 a1 (p_large p)")
    case (Some ls)
    then have eqs: "h' = h1" "p' = p\<lparr>p_large := ls\<rparr>" "a = a1"
      using c r a1 by (simp_all add: cw_palloc_large_def cw_alloc_def Let_def)
    then show ?thesis using large_reused [OF inv1 live1 new a1 Some] by simp
  next
    case None
    obtain h2 p2 x where s: "cw_palloc_small h1 p sizeof_cw_pool_large True = (h2, p2, x)"
      using prod_cases3 by blast
    have x: "x \<noteq> 0" and eqs: "h' = h2" "p' = p2\<lparr>p_large := \<lparr>l_addr = x, l_alloc = a1\<rparr> # p_large p2\<rparr>" "a = a1"
      using c r a1 a None s
      by (auto simp: cw_palloc_large_def cw_alloc_def Let_def split: if_splits)
    note sg = palloc_small_granted [OF inv1 s x room_for_node [OF D(2)]]
    have pl: "p_large p2 = p_large p" using s by (simp add: cw_frame)
    have "a1 \<notin> b_addr ` set (p_blocks p)" using new by (auto simp: pool_addrs_def)
    moreover have "a1 \<in> fst ` set (h_live h1)" using live1 by force
    ultimately have "a1 \<notin> set (pool_addrs p2)"
      using new sg(3) pl by (auto simp: grown_def pool_addrs_def large_addrs_def)
    moreover have "(a1, n) \<in> set (h_live h2)" using sg(3) live1 by (auto simp: grown_def)
    ultimately show ?thesis
      using large_listed [OF sg(1) _ _ a1 sg(4)] by (simp add: eqs)
  qed
  then show "pool_inv h' p' ((a, n) # rs)" and "unat a mod 16 = 0" using al by auto
qed

lemma palloc_large_refused:
  assumes inv: "pool_inv h p rs" and c: "cw_palloc_large h p n = (h', p', 0)"
  shows "p' = p" and "h_live h' = h_live h" and "pool_inv h' p' rs" and "refusal h h'"
proof -
  note D = pool_invD [OF inv]
  obtain h1 a where r: "libc_request h MAX_ALIGN n = (h1, a)" by fastforce
  have ok: "heap_ok h1" by (rule libc_request_ok [OF D(1) r])
  have "p' = p \<and> h_live h' = h_live h \<and> heap_ok h' \<and> refusal h h'"
  proof (cases "a = 0")
    case True
    then show ?thesis using c r ok libc_request_refused [of h MAX_ALIGN n h1] libc_request_refusal
      by (auto simp: cw_palloc_large_def cw_alloc_def Let_def)
  next
    case False
    note g = libc_request_granted [OF D(1) r False]
    have inv1: "pool_inv h1 p rs" by (rule pool_inv_more_heap [OF inv ok]) (auto simp: g(1))
    obtain h2 p2 x where s: "cw_palloc_small h1 p sizeof_cw_pool_large True = (h2, p2, x)"
      using prod_cases3 by blast
    have x: "x = 0" and eqs: "h' = cw_free h2 a" "p' = p2"
      using c r False s by (auto simp: cw_palloc_large_def cw_alloc_def Let_def split: option.splits if_splits)
    note sr = palloc_small_refused [OF inv1 s [unfolded x] room_for_node [OF D(2)]]
    have "(a, n) \<in> set (h_live h2)" using sr(2) g(1) by simp
    note f = cw_free_live [OF sr(3) this]
    have "\<forall>r\<in>set (h_live h). fst r \<noteq> a" using g(2) by (auto simp: fits_def)
    then have "filter (\<lambda>r. fst r \<noteq> a) (h_live h2) = h_live h"
      using sr(2) g(1) by (simp add: filter_id_conv)
    moreover have "refusal h h'"
      using refusal_later [OF sr(5)] libc_request_mem [OF r] libc_request_counts [OF r]
      by (simp add: eqs cw_frame)
    ultimately show ?thesis using f sr(1) eqs by simp
  qed
  then show "p' = p" and "h_live h' = h_live h" and "pool_inv h' p' rs" and "refusal h h'"
    using pool_inv_more_heap [OF inv, of h'] by auto
qed

end
