(* ===== verification/Pool_Life.thy ===== *)
theory Pool_Life
  imports Palloc
begin

text \<open>
  The life of a pool (\<open>src/core/cw_palloc.c\<close>): the public routines \<open>cw_create_pool\<close>,
  \<open>cw_palloc\<close>, \<open>cw_pnalloc\<close>, \<open>cw_pcalloc\<close> and \<open>cw_destroy_pool\<close>, the
  interface they offer to clients, and what holds from creation to destruction: every
  region handed out is separate from every other, and destroying the pool gives back to the
  C library exactly what the pool had taken.
\<close>

section \<open>\<open>cw_palloc\<close> and \<open>cw_pnalloc\<close>\<close>

lemma small_fits:
  assumes "chain_ok p" and "n \<le> p_max p"
  shows "unat n + 32 \<le> unat (pool_size p)"
  using chain_okD(4,6) [OF assms(1)] assms(2) by (auto simp: word_le_nat_alt)

lemma cw_palloc_cases:
  assumes "cw_palloc h p n = (h', p', a)"
  obtains (small) "n \<le> p_max p" "cw_palloc_small h p n True = (h', p', a)"
  | (large) "\<not> n \<le> p_max p" "cw_palloc_large h p n = (h', p', a)"
  using assms by (auto simp: cw_palloc_def split: if_splits)

lemma cw_pnalloc_cases:
  assumes "cw_pnalloc h p n = (h', p', a)"
  obtains (small) "n \<le> p_max p" "cw_palloc_small h p n False = (h', p', a)"
  | (large) "\<not> n \<le> p_max p" "cw_palloc_large h p n = (h', p', a)"
  using assms by (auto simp: cw_pnalloc_def split: if_splits)

lemma palloc_large_frame [cw_frame]:
  "cw_palloc_large h p n = (h', p', a) \<Longrightarrow>
     p_max p' = p_max p \<and> p_cleanup p' = p_cleanup p \<and> h_mem h' = h_mem h \<and> h_libc h' = h_libc h"
  by (auto simp: cw_palloc_large_def cw_alloc_def cw_frame Let_def dest!: palloc_small_frame
      split: prod.splits if_splits option.splits)

lemma cw_palloc_frame [cw_frame]:
  "cw_palloc h p n = (h', p', a) \<Longrightarrow>
     p_max p' = p_max p \<and> p_cleanup p' = p_cleanup p \<and> h_mem h' = h_mem h \<and> h_libc h' = h_libc h"
  by (erule cw_palloc_cases) (simp_all add: cw_frame)

lemma cw_pnalloc_frame [cw_frame]:
  "cw_pnalloc h p n = (h', p', a) \<Longrightarrow>
     p_max p' = p_max p \<and> p_cleanup p' = p_cleanup p \<and> h_mem h' = h_mem h \<and> h_libc h' = h_libc h"
  by (erule cw_pnalloc_cases) (simp_all add: cw_frame)

lemma cw_palloc_granted:
  assumes inv: "pool_inv h p rs" and c: "cw_palloc h p n = (h', p', a)" and a: "a \<noteq> 0"
  shows "pool_inv h' p' ((a, n) # rs)" and "unat a mod 8 = 0"
proof -
  have "pool_inv h' p' ((a, n) # rs) \<and> unat a mod 8 = 0"
    using c
  proof (cases rule: cw_palloc_cases)
    case small
    then show ?thesis
      using palloc_small_granted [OF inv small(2) a small_fits [OF pool_invD(2) [OF inv] small(1)]]
      by simp
  next
    case large
    have "unat a mod 16 = 0 \<Longrightarrow> unat a mod 8 = 0" by presburger
    then show ?thesis using palloc_large_granted [OF inv large(2) a] by simp
  qed
  then show "pool_inv h' p' ((a, n) # rs)" and "unat a mod 8 = 0" by simp_all
qed

lemma cw_palloc_refused:
  assumes inv: "pool_inv h p rs" and c: "cw_palloc h p n = (h', p', 0)"
  shows "p' = p" and "h_live h' = h_live h" and "pool_inv h' p' rs" and "refusal h h'"
  using palloc_small_refused [OF inv _ small_fits [OF pool_invD(2) [OF inv]]]
    palloc_large_refused [OF inv] c
  by (metis cw_palloc_cases)+

lemma cw_pnalloc_granted:
  assumes inv: "pool_inv h p rs" and c: "cw_pnalloc h p n = (h', p', a)" and a: "a \<noteq> 0"
  shows "pool_inv h' p' ((a, n) # rs)"
  using palloc_small_granted(1) [OF inv _ a small_fits [OF pool_invD(2) [OF inv]]]
    palloc_large_granted(1) [OF inv _ a] c
  by (metis cw_pnalloc_cases)

lemma cw_pnalloc_refused:
  assumes inv: "pool_inv h p rs" and c: "cw_pnalloc h p n = (h', p', 0)"
  shows "p' = p" and "h_live h' = h_live h" and "pool_inv h' p' rs" and "refusal h h'"
  using palloc_small_refused [OF inv _ small_fits [OF pool_invD(2) [OF inv]]]
    palloc_large_refused [OF inv] c
  by (metis cw_pnalloc_cases)+

section \<open>The pool as an allocator\<close>

definition pool_holds :: "heap \<times> cw_pool \<Rightarrow> region list \<Rightarrow> bool" where
  "pool_holds s rs \<longleftrightarrow> pool_inv (fst s) (snd s) rs"

definition palloc_call :: "heap \<times> cw_pool \<Rightarrow> u64 \<Rightarrow> (heap \<times> cw_pool) \<times> addr" where
  "palloc_call s n = (case cw_palloc (fst s) (snd s) n of (h, p, a) \<Rightarrow> ((h, p), a))"

definition pnalloc_call :: "heap \<times> cw_pool \<Rightarrow> u64 \<Rightarrow> (heap \<times> cw_pool) \<times> addr" where
  "pnalloc_call s n = (case cw_pnalloc (fst s) (snd s) n of (h, p, a) \<Rightarrow> ((h, p), a))"

definition pool_mem :: "heap \<times> cw_pool \<Rightarrow> addr \<Rightarrow> u8" where
  "pool_mem s = h_mem (fst s)"

lemma palloc_callD: "palloc_call s n = (s', a) \<Longrightarrow> cw_palloc (fst s) (snd s) n = (fst s', snd s', a)"
  by (auto simp: palloc_call_def split: prod.splits)

lemma pnalloc_callD: "pnalloc_call s n = (s', a) \<Longrightarrow> cw_pnalloc (fst s) (snd s) n = (fst s', snd s', a)"
  by (auto simp: pnalloc_call_def split: prod.splits)

interpretation pool: region_allocator palloc_call pool_holds pool_mem
proof unfold_locales
  fix s s' rs n a
  show "pool_holds s rs \<Longrightarrow> palloc_call s n = (s', a) \<Longrightarrow> a \<noteq> 0 \<Longrightarrow> pool_holds s' ((a, n) # rs)"
    by (auto simp: pool_holds_def dest!: palloc_callD intro: cw_palloc_granted(1))
  show "pool_holds s rs \<Longrightarrow> palloc_call s n = (s', 0) \<Longrightarrow> pool_holds s' rs"
    by (auto simp: pool_holds_def dest!: palloc_callD intro: cw_palloc_refused(3))
  show "palloc_call s n = (s', a) \<Longrightarrow> pool_mem s' = pool_mem s"
    by (auto simp: pool_mem_def cw_frame dest!: palloc_callD)
  show "pool_holds s rs \<Longrightarrow> separated rs"
    by (auto simp: pool_holds_def dest: pool_invD(4))
  fix r
  show "pool_holds s rs \<Longrightarrow> r \<in> set rs \<Longrightarrow> hi r < 2 ^ 64"
    by (auto simp: pool_holds_def dest: pool_region_bound)
qed

interpretation npool: region_allocator pnalloc_call pool_holds pool_mem
proof unfold_locales
  fix s s' rs n a
  show "pool_holds s rs \<Longrightarrow> pnalloc_call s n = (s', a) \<Longrightarrow> a \<noteq> 0 \<Longrightarrow> pool_holds s' ((a, n) # rs)"
    by (auto simp: pool_holds_def dest!: pnalloc_callD intro: cw_pnalloc_granted)
  show "pool_holds s rs \<Longrightarrow> pnalloc_call s n = (s', 0) \<Longrightarrow> pool_holds s' rs"
    by (auto simp: pool_holds_def dest!: pnalloc_callD intro: cw_pnalloc_refused(3))
  show "pnalloc_call s n = (s', a) \<Longrightarrow> pool_mem s' = pool_mem s"
    by (auto simp: pool_mem_def cw_frame dest!: pnalloc_callD)
qed (use pool.inv_separated pool.inv_bounded in auto)

section \<open>\<open>cw_pcalloc\<close>\<close>

lemma pool_inv_mem: "pool_inv (h\<lparr>h_mem := m\<rparr>) p rs = pool_inv h p rs"
  by (simp add: pool_inv_def heap_ok_def owns_def in_large_def)

lemma cw_pcalloc_granted:
  assumes inv: "pool_inv h p rs" and c: "cw_pcalloc h p n = (h', p', a)" and a: "a \<noteq> 0"
  shows "pool_inv h' p' ((a, n) # rs)" and "unat a mod 8 = 0"
    and "inside x (a, n) \<Longrightarrow> h_mem h' x = 0"
    and "r \<in> set rs \<Longrightarrow> inside x r \<Longrightarrow> h_mem h' x = h_mem h x"
proof -
  obtain h1 where c1: "cw_palloc h p n = (h1, p', a)"
    and h': "h' = h1\<lparr>h_mem := cw_memset (h_mem h1) a 0 n\<rparr>"
    using c a by (auto simp: cw_pcalloc_def Let_def split: prod.splits)
  note g = cw_palloc_granted [OF inv c1 a]
  show inv': "pool_inv h' p' ((a, n) # rs)" and "unat a mod 8 = 0"
    using g by (simp_all add: h' pool_inv_mem)
  have b: "unat a + unat n < 2 ^ 64" using pool_region_bound [OF inv', of "(a, n)"] by simp
  show "h_mem h' x = 0" if "inside x (a, n)"
    using memset_inside [OF b that] by (simp add: h')
  show "h_mem h' x = h_mem h x" if "r \<in> set rs" "inside x r"
  proof -
    have "rdisj (a, n) r" using pool_invD(4) [OF inv'] that(1) by simp
    then have "\<not> inside x (a, n)" using that(2) inside_disjoint by blast
    then show ?thesis using memset_outside [OF b] cw_palloc_frame [OF c1] by (simp add: h')
  qed
qed

lemma cw_pcalloc_refused:
  assumes inv: "pool_inv h p rs" and c: "cw_pcalloc h p n = (h', p', 0)"
  shows "p' = p" and "h_live h' = h_live h" and "pool_inv h' p' rs" and "refusal h h'"
proof -
  have "cw_palloc h p n = (h', p', 0)"
    using c by (auto simp: cw_pcalloc_def Let_def split: prod.splits if_splits)
  then show "p' = p" and "h_live h' = h_live h" and "pool_inv h' p' rs" and "refusal h h'"
    using cw_palloc_refused [OF inv] by auto
qed

section \<open>Creation\<close>

lemma cw_create_pool_ok:
  assumes ok: "heap_ok h" and c: "cw_create_pool h sz = (h', Some p)"
    and sz: "80 \<le> unat sz" "unat sz mod 8 = 0"
  shows "pool_inv h' p []" and "h_live h' = (b_addr (hd (p_blocks p)), sz) # h_live h"
    and "set (pool_addrs p) = {b_addr (hd (p_blocks p))}" and "p_cleanup p = []"
proof -
  obtain h1 m where r: "libc_request h CW_POOL_ALIGNMENT sz = (h1, m)" by fastforce
  have m: "m \<noteq> 0" and h': "h' = h1"
    and p: "p = \<lparr>p_blocks = [\<lparr>b_addr = m, b_last = m + 80, b_end = m + sz, b_failed = 0\<rparr>],
             p_max = (if sz - 80 < 1023 then sz - 80 else 1023),
             p_current = 0, p_large = [], p_cleanup = []\<rparr>"
    using c r by (auto simp: cw_create_pool_def cw_memalign_eq Let_def cw_sizes split: if_splits)
  note g = libc_request_granted [OF ok r m]
  have ok1: "heap_ok h'" using libc_request_ok [OF ok r] h' by simp
  have f: "unat m mod 16 = 0" "unat m + unat sz < 2 ^ 64"
    using g(2) by (simp_all add: fits_def cw_sizes)
  have u: "unat (m + 80) = unat m + 80" "unat (m + sz) = unat m + unat sz"
    using f(2) sz by (subst unat_plus_nowrap; simp)+
  have u80: "unat (sz - 80) = unat sz - 80"
    by (subst unat_minus_nowrap) (use sz in simp_all)
  have mx: "unat (p_max p) = min (unat sz - 80) 1023"
    using u80 by (simp add: p word_less_nat_alt min_def)
  have ps: "pool_size p = sz" by (simp add: p pool_size_def)
  have "chain_ok p"
    unfolding chain_ok_def ps mx using sz f(1) u
    by (simp add: p blocks_ok_def block_ok_def blk_hdr_def)
  moreover have "owns h' p"
    using g(1) h' by (simp add: owns_def ps p pool_addrs_def large_addrs_def pool_size_def)
  ultimately show "pool_inv h' p []"
    using ok1 by (simp add: pool_inv_def large_nodes_def p)
  show "h_live h' = (b_addr (hd (p_blocks p)), sz) # h_live h" using g(1) h' by (simp add: p)
  show "set (pool_addrs p) = {b_addr (hd (p_blocks p))}" by (simp add: p pool_addrs_def large_addrs_def)
  show "p_cleanup p = []" by (simp add: p)
qed

lemma cw_create_pool_none:
  "heap_ok h \<Longrightarrow> cw_create_pool h sz = (h', None) \<Longrightarrow> h_live h' = h_live h \<and> heap_ok h'"
  by (auto simp: cw_create_pool_def cw_memalign_eq Let_def split: prod.splits if_splits
      dest: libc_request_refused libc_request_ok)

section \<open>What the pool takes from the C library\<close>

text \<open>
  \<open>took h p h' p'\<close>: the live regions of \<open>h'\<close> are new ones and those of \<open>h\<close>, and
  the pool owns exactly the new ones besides what it owned before.  Then the live regions
  that do not belong to the pool are the same before and after.
\<close>

definition took :: "heap \<Rightarrow> cw_pool \<Rightarrow> heap \<Rightarrow> cw_pool \<Rightarrow> bool" where
  "took h p h' p' \<longleftrightarrow>
     (\<exists>new. h_live h' = new @ h_live h \<and> fst ` set new \<inter> fst ` set (h_live h) = {} \<and>
        set (pool_addrs p') = fst ` set new \<union> set (pool_addrs p))"

definition others :: "heap \<Rightarrow> cw_pool \<Rightarrow> region list" where
  "others h p = filter (\<lambda>r. fst r \<notin> set (pool_addrs p)) (h_live h)"

lemma tookI_same: "h_live h' = h_live h \<Longrightarrow> set (pool_addrs p') = set (pool_addrs p) \<Longrightarrow> took h p h' p'"
  unfolding took_def by (intro exI [of _ "[]"]) simp

lemma tookI_one:
  "h_live h' = (m, n) # h_live h \<Longrightarrow> m \<notin> fst ` set (h_live h) \<Longrightarrow>
     set (pool_addrs p') = insert m (set (pool_addrs p)) \<Longrightarrow> took h p h' p'"
  unfolding took_def by (intro exI [of _ "[(m, n)]"]) simp

lemma took_others:
  assumes "took h p h' p'"
  shows "others h' p' = others h p"
proof -
  obtain new where n: "h_live h' = new @ h_live h" "fst ` set new \<inter> fst ` set (h_live h) = {}"
    "set (pool_addrs p') = fst ` set new \<union> set (pool_addrs p)"
    using assms by (auto simp: took_def)
  have "filter (\<lambda>r. fst r \<notin> set (pool_addrs p')) new = []"
    unfolding n(3) by (auto simp: filter_empty_conv)
  moreover have "filter (\<lambda>r. fst r \<notin> set (pool_addrs p')) (h_live h) =
      filter (\<lambda>r. fst r \<notin> set (pool_addrs p)) (h_live h)"
  proof (rule filter_cong [OF refl])
    fix r
    assume "r \<in> set (h_live h)"
    then have "fst r \<notin> fst ` set new" using n(2) by blast
    then show "(fst r \<notin> set (pool_addrs p')) = (fst r \<notin> set (pool_addrs p))"
      unfolding n(3) by blast
  qed
  ultimately show ?thesis by (simp add: others_def n(1))
qed

lemma palloc_small_took:
  assumes inv: "pool_inv h p rs" and c: "cw_palloc_small h p n al = (h', p', a)" and a: "a \<noteq> 0"
    and n: "unat n + 32 \<le> unat (pool_size p)"
  shows "took h p h' p'"
proof -
  have la: "large_addrs p' = large_addrs p" using c by (simp add: large_addrs_def cw_frame)
  show ?thesis
  proof (cases "palloc_search n al (drop (p_current p) (p_blocks p))")
    case None
    then have "cw_palloc_block h p n = (h', p', a)" using c by (simp add: cw_palloc_small_def)
    then obtain m where m: "h_live h' = (m, pool_size p) # h_live h" "m \<notin> fst ` set (h_live h)"
      and eq: "map b_addr (p_blocks p') = map b_addr (p_blocks p) @ [m]"
      using palloc_block_granted(3) [OF inv _ a n] by blast
    have "set (pool_addrs p') = insert m (set (pool_addrs p))"
      unfolding pool_addrs_def la eq by auto
    with m show ?thesis by (rule tookI_one)
  next
    case (Some x)
    obtain bs m where x: "x = (bs, m)" by fastforce
    then have eqs: "h' = h" "p' = p\<lparr>p_blocks := take (p_current p) (p_blocks p) @ bs\<rparr>"
      using c Some by (simp_all add: cw_palloc_small_def)
    have "map b_addr (p_blocks p') = map b_addr (p_blocks p)"
      using palloc_small_found(4) [OF inv Some [unfolded x]] eqs(2) by simp
    then show ?thesis using eqs(1) la by (intro tookI_same) (simp_all only: pool_addrs_def)
  qed
qed

lemma palloc_large_took:
  assumes inv: "pool_inv h p rs" and c: "cw_palloc_large h p n = (h', p', a)" and a: "a \<noteq> 0"
  shows "took h p h' p'"
proof -
  note D = pool_invD [OF inv]
  obtain h1 a1 where r: "libc_request h MAX_ALIGN n = (h1, a1)" by fastforce
  have a1: "a1 \<noteq> 0" using c r a by (auto simp: cw_palloc_large_def cw_alloc_def Let_def)
  note g = libc_request_granted [OF D(1) r a1]
  have ok: "heap_ok h1" by (rule libc_request_ok [OF D(1) r])
  have inv1: "pool_inv h1 p rs" by (rule pool_inv_more_heap [OF inv ok]) (auto simp: g(1))
  have fresh: "a1 \<notin> fst ` set (h_live h)" using g(2) by (auto simp: fits_def)
  show ?thesis
  proof (cases "reuse_large 0 a1 (p_large p)")
    case (Some ls)
    then have eqs: "h' = h1" "p' = p\<lparr>p_large := ls\<rparr>"
      using c r a1 by (simp_all add: cw_palloc_large_def cw_alloc_def Let_def)
    have "set (pool_addrs p') = insert a1 (set (pool_addrs p))"
      using reuse_large_Some [OF Some] a1 eqs(2) by (auto simp: pool_addrs_def large_addrs_def)
    with g(1) fresh show ?thesis unfolding eqs(1) by (rule tookI_one)
  next
    case None
    obtain h2 p2 x where s: "cw_palloc_small h1 p sizeof_cw_pool_large True = (h2, p2, x)"
      using prod_cases3 by blast
    have x: "x \<noteq> 0" and eqs: "h' = h2" "p' = p2\<lparr>p_large := \<lparr>l_addr = x, l_alloc = a1\<rparr> # p_large p2\<rparr>"
      using c r a1 a None s
      by (auto simp: cw_palloc_large_def cw_alloc_def Let_def split: if_splits)
    obtain new where new: "h_live h2 = new @ h_live h1" "fst ` set new \<inter> fst ` set (h_live h1) = {}"
      "set (pool_addrs p2) = fst ` set new \<union> set (pool_addrs p)"
      using palloc_small_took [OF inv1 s x room_for_node [OF D(2)]] by (auto simp: took_def)
    have "set (pool_addrs p') = insert a1 (set (pool_addrs p2))"
      using a1 eqs(2) by (auto simp: pool_addrs_def large_addrs_def)
    then show ?thesis
      using new fresh unfolding took_def eqs(1) g(1) by (intro exI [of _ "new @ [(a1, n)]"]) auto
  qed
qed

lemma cw_palloc_took:
  assumes inv: "pool_inv h p rs" and c: "cw_palloc h p n = (h', p', a)"
  shows "took h p h' p'"
proof (cases "a = 0")
  case True
  then show ?thesis using cw_palloc_refused [OF inv, of n h' p'] c by (intro tookI_same) simp_all
next
  case False
  show ?thesis
    using c
  proof (cases rule: cw_palloc_cases)
    case small
    then show ?thesis
      using palloc_small_took [OF inv _ False small_fits [OF pool_invD(2) [OF inv]]] by blast
  next
    case large
    then show ?thesis using palloc_large_took [OF inv _ False] by blast
  qed
qed

lemma cw_pnalloc_took:
  assumes inv: "pool_inv h p rs" and c: "cw_pnalloc h p n = (h', p', a)"
  shows "took h p h' p'"
proof (cases "a = 0")
  case True
  then show ?thesis using cw_pnalloc_refused [OF inv, of n h' p'] c by (intro tookI_same) simp_all
next
  case False
  show ?thesis
    using c
  proof (cases rule: cw_pnalloc_cases)
    case small
    then show ?thesis
      using palloc_small_took [OF inv _ False small_fits [OF pool_invD(2) [OF inv]]] by blast
  next
    case large
    then show ?thesis using palloc_large_took [OF inv _ False] by blast
  qed
qed

lemma cw_pcalloc_took:
  assumes inv: "pool_inv h p rs" and c: "cw_pcalloc h p n = (h', p', a)"
  shows "took h p h' p'"
proof -
  obtain h1 where "cw_palloc h p n = (h1, p', a)" and "h_live h' = h_live h1"
    using c by (auto simp: cw_pcalloc_def Let_def split: prod.splits if_splits)
  then show ?thesis using cw_palloc_took [OF inv] by (simp add: took_def)
qed

section \<open>Destruction\<close>

lemma fold_free:
  "heap_ok h \<Longrightarrow> distinct as \<Longrightarrow> set as \<subseteq> fst ` set (h_live h) \<Longrightarrow>
     heap_ok (fold (\<lambda>a h. cw_free h a) as h) \<and>
     h_live (fold (\<lambda>a h. cw_free h a) as h) = filter (\<lambda>r. fst r \<notin> set as) (h_live h)"
proof (induction as arbitrary: h)
  case (Cons a as)
  from Cons.prems(3) obtain n where "(a, n) \<in> set (h_live h)" by auto
  note f = cw_free_live [OF Cons.prems(1) this]
  have "set as \<subseteq> fst ` set (h_live (cw_free h a))"
  proof
    fix b
    assume "b \<in> set as"
    with Cons.prems(2,3) obtain k where "(b, k) \<in> set (h_live h)" "b \<noteq> a" by force
    then show "b \<in> fst ` set (h_live (cw_free h a))" unfolding f(1) by force
  qed
  with Cons.IH [OF f(2)] Cons.prems(2) f(1) show ?case by (auto intro: filter_cong)
qed simp

lemma destroy_as_frees:
  "fst (cw_destroy_pool h p) = fold (\<lambda>a h. cw_free h a) (large_addrs p @ map b_addr (p_blocks p)) h"
proof -
  have eq: "fold (\<lambda>l h. if l_alloc l \<noteq> 0 then cw_free h (l_alloc l) else h) ls h =
      fold (\<lambda>a h. cw_free h a) (filter (\<lambda>a. a \<noteq> 0) (map l_alloc ls)) h" for ls h
    by (induction ls arbitrary: h) auto
  show ?thesis
    unfolding cw_destroy_pool_def Let_def fst_conv eq large_addrs_def fold_append comp_def fold_map ..
qed

lemma cw_destroy_pool_frees:
  assumes "pool_inv h p rs"
  shows "heap_ok (fst (cw_destroy_pool h p))" and "h_live (fst (cw_destroy_pool h p)) = others h p"
proof -
  note D = pool_invD [OF assms]
  have "distinct (large_addrs p @ map b_addr (p_blocks p))"
    using D(3) by (auto simp: owns_def pool_addrs_def)
  moreover have "set (large_addrs p @ map b_addr (p_blocks p)) = set (pool_addrs p)"
    by (auto simp: pool_addrs_def)
  ultimately show "heap_ok (fst (cw_destroy_pool h p))"
    and "h_live (fst (cw_destroy_pool h p)) = others h p"
    using fold_free [OF D(1), of "large_addrs p @ map b_addr (p_blocks p)"] owned_live [OF D(3)]
    unfolding destroy_as_frees others_def by auto
qed

section \<open>Sequences of requests\<close>

datatype pool_op = Palloc u64 | Pnalloc u64 | Pcalloc u64

fun pool_op_run :: "heap \<Rightarrow> cw_pool \<Rightarrow> pool_op \<Rightarrow> heap \<times> cw_pool \<times> addr" where
  "pool_op_run h p (Palloc n) = cw_palloc h p n"
| "pool_op_run h p (Pnalloc n) = cw_pnalloc h p n"
| "pool_op_run h p (Pcalloc n) = cw_pcalloc h p n"

fun op_size :: "pool_op \<Rightarrow> u64" where
  "op_size (Palloc n) = n"
| "op_size (Pnalloc n) = n"
| "op_size (Pcalloc n) = n"

text \<open>A client's requests in order, with the regions it obtained, the latest first.\<close>

fun pool_run :: "heap \<Rightarrow> cw_pool \<Rightarrow> region list \<Rightarrow> pool_op list \<Rightarrow> heap \<times> cw_pool \<times> region list" where
  "pool_run h p rs [] = (h, p, rs)"
| "pool_run h p rs (x # xs) =
     (case pool_op_run h p x of
        (h', p', a) \<Rightarrow> pool_run h' p' (if a = 0 then rs else (a, op_size x) # rs) xs)"

lemma pool_op_keeps:
  assumes "pool_inv h p rs" and "pool_op_run h p x = (h', p', a)"
  shows "pool_inv h' p' (if a = 0 then rs else (a, op_size x) # rs)" and "took h p h' p'"
proof -
  have "pool_inv h' p' (if a = 0 then rs else (a, op_size x) # rs) \<and> took h p h' p'"
  proof (cases x)
    case (Palloc n)
    then have "cw_palloc h p n = (h', p', a)" using assms(2) by simp
    with Palloc show ?thesis
      using cw_palloc_granted(1) [OF assms(1)] cw_palloc_refused(3) [OF assms(1)]
        cw_palloc_took [OF assms(1)] by (cases "a = 0") auto
  next
    case (Pnalloc n)
    then have "cw_pnalloc h p n = (h', p', a)" using assms(2) by simp
    with Pnalloc show ?thesis
      using cw_pnalloc_granted [OF assms(1)] cw_pnalloc_refused(3) [OF assms(1)]
        cw_pnalloc_took [OF assms(1)] by (cases "a = 0") auto
  next
    case (Pcalloc n)
    then have "cw_pcalloc h p n = (h', p', a)" using assms(2) by simp
    with Pcalloc show ?thesis
      using cw_pcalloc_granted(1) [OF assms(1)] cw_pcalloc_refused(3) [OF assms(1)]
        cw_pcalloc_took [OF assms(1)] by (cases "a = 0") auto
  qed
  then show "pool_inv h' p' (if a = 0 then rs else (a, op_size x) # rs)" and "took h p h' p'"
    by simp_all
qed

lemma pool_run_keeps:
  "pool_inv h p rs \<Longrightarrow> pool_run h p rs xs = (h', p', rs') \<Longrightarrow>
     pool_inv h' p' rs' \<and> others h' p' = others h p"
proof (induction xs arbitrary: h p rs)
  case (Cons x xs)
  obtain h1 p1 a where x: "pool_op_run h p x = (h1, p1, a)" using prod_cases3 by blast
  note k = pool_op_keeps [OF Cons.prems(1) x]
  from Cons.IH [OF k(1)] Cons.prems(2) x took_others [OF k(2)] show ?case by simp
qed simp

end
