(* ===== verification/Pool_Search.thy ===== *)
theory Pool_Search
  imports Pool_Life
begin

text \<open>
  The search policy of the pool (\<open>cw_palloc_block\<close> and \<open>cw_palloc_small\<close> in
  \<open>src/core/cw_palloc.c\<close>): a block is dropped from the search, by moving \<open>current\<close>
  past it, exactly when it has failed six times; the failure counters therefore stay
  small and cannot wrap.  The last section shows what the search does in a pool whose size
  is not a multiple of the alignment.
\<close>

section \<open>The failure counters\<close>

text \<open>
  \<open>fs\<close> are the counters along the chain: six for every block before \<open>current\<close>, then
  counters of at most five in descending order, and zero for the last block.
\<close>

definition failures_ok :: "u64 list \<Rightarrow> nat \<Rightarrow> bool" where
  "failures_ok fs cur \<longleftrightarrow>
     (\<exists>ds. fs = replicate cur 6 @ ds @ [0] \<and> sorted_wrt (\<ge>) ds \<and> (\<forall>x\<in>set ds. x \<le> 5))"

lemma count_failures_counts:
  "bs \<noteq> [] \<Longrightarrow> map b_failed (snd (count_failures i cur bs)) =
     map (\<lambda>b. b_failed b + 1) (butlast bs) @ [b_failed (last bs)]"
proof (induction i cur bs rule: count_failures.induct)
  case (1 i cur b c bs)
  then show ?case by (auto simp: Let_def split: prod.splits)
qed auto

lemma count_failures_current:
  "sorted_wrt (\<ge>) (map b_failed (butlast bs)) \<Longrightarrow>
     fst (count_failures i cur bs) =
       (let t = length (takeWhile (\<lambda>x. x > 4) (map b_failed (butlast bs))) in if t = 0 then cur else i + t)"
proof (induction i cur bs rule: count_failures.induct)
  case (1 i cur b c bs)
  let ?fs = "map b_failed (butlast (c # bs))"
  have IH: "fst (count_failures (i + 1) (if b_failed b > 4 then i + 1 else cur) (c # bs)) =
      (let t = length (takeWhile (\<lambda>x. x > 4) ?fs)
       in if t = 0 then (if b_failed b > 4 then i + 1 else cur) else i + 1 + t)"
    using "1.prems" by (intro "1.IH") auto
  have "takeWhile (\<lambda>x. x > 4) ?fs = []" if "\<not> b_failed b > 4"
    using "1.prems" that by (cases ?fs) auto
  with IH show ?case by (auto simp: Let_def split: prod.splits)
qed auto

lemma sorted_takeWhile_rest:
  "sorted_wrt (\<ge>) ds \<Longrightarrow> x \<in> set (dropWhile (\<lambda>x. x > (k :: u64)) ds) \<Longrightarrow> x \<le> k"
  by (induction ds) (auto split: if_splits)

text \<open>Counters that go down and are at most five: one more failure each leaves the six-valued ones in front.\<close>

lemma bump_counters:
  fixes ds :: "u64 list"
  assumes srt: "sorted_wrt (\<ge>) ds" and le5: "\<forall>x\<in>set ds. x \<le> 5"
    and n: "n = length (takeWhile (\<lambda>x. x > 4) ds)"
  obtains vs where "map (\<lambda>x. x + 1) ds = replicate n 6 @ vs" "sorted_wrt (\<ge>) vs" "\<forall>x\<in>set vs. x \<le> 5"
proof
  define us where "us = takeWhile (\<lambda>x. x > 4) ds"
  define vs where "vs = dropWhile (\<lambda>x. x > 4) ds"
  have ds: "ds = us @ vs" by (simp add: us_def vs_def)
  have "x = 5" if "x \<in> set us" for x
  proof -
    have "x > 4" "x \<le> 5"
      using set_takeWhileD [OF that [unfolded us_def]] le5 by auto
    then show ?thesis by (simp add: word_less_nat_alt word_le_nat_alt word_unat_eq_iff)
  qed
  then have us: "us = replicate n 5" by (simp add: replicate_length_same n us_def)
  then have "map (\<lambda>x. x + 1) us = replicate n 6" by simp
  then show "map (\<lambda>x. x + 1) ds = replicate n 6 @ map (\<lambda>x. x + 1) vs" by (subst ds) simp
  have v4: "\<forall>x\<in>set vs. x \<le> 4" using sorted_takeWhile_rest [OF srt] by (auto simp: vs_def)
  have plus: "unat (x + 1) = unat x + 1" if "x \<le> 4" for x :: u64
    using that by (intro unat_plus_nowrap [THEN trans]) (auto simp: word_le_nat_alt)
  have "sorted_wrt (\<ge>) vs" using srt by (simp add: ds sorted_wrt_append)
  then show "sorted_wrt (\<ge>) (map (\<lambda>x. x + 1) vs)"
    unfolding sorted_wrt_map by (rule sorted_wrt_mono_rel [rotated]) (use v4 plus in \<open>auto simp: word_le_nat_alt\<close>)
  show "\<forall>x\<in>set (map (\<lambda>x. x + 1) vs). x \<le> 5"
    using v4 plus by (auto simp: word_le_nat_alt)
qed

lemma count_failures_ok:
  assumes f: "failures_ok (map b_failed bs) cur"
    and c: "count_failures cur cur (drop cur bs) = (cur', tail)"
  shows "failures_ok (map b_failed (take cur bs @ tail @ [b\<lparr>b_failed := 0\<rparr>])) cur'"
proof -
  obtain ds where fs: "map b_failed bs = replicate cur 6 @ ds @ [0]"
    and srt: "sorted_wrt (\<ge>) ds" and le5: "\<forall>x\<in>set ds. x \<le> 5"
    using f by (auto simp: failures_ok_def)
  have dr: "map b_failed (drop cur bs) = ds @ [0]" and tk: "map b_failed (take cur bs) = replicate cur 6"
    using fs by (simp_all flip: drop_map take_map)
  then have ne: "drop cur bs \<noteq> []" by auto
  have bl: "map b_failed (butlast (drop cur bs)) = ds" and la: "b_failed (last (drop cur bs)) = 0"
    using dr ne by (metis map_butlast butlast_snoc, metis last_map last_snoc)
  have "map (\<lambda>b. b_failed b + 1) (butlast (drop cur bs)) = map (\<lambda>x. x + 1) ds"
    unfolding bl [symmetric] by (simp add: comp_def)
  then have tl: "map b_failed tail = map (\<lambda>x. x + 1) ds @ [0]"
    using count_failures_counts [OF ne, of cur cur] c la by simp
  define n where "n = length (takeWhile (\<lambda>x. x > 4) ds)"
  have cur': "cur' = cur + n"
    using count_failures_current [of "drop cur bs" cur cur] c bl srt by (simp add: n_def Let_def split: if_splits)
  obtain vs where vs: "map (\<lambda>x. x + 1) ds = replicate n 6 @ vs" "sorted_wrt (\<ge>) vs" "\<forall>x\<in>set vs. x \<le> 5"
    by (rule bump_counters [OF srt le5 n_def])
  then have "map b_failed (take cur bs @ tail @ [b\<lparr>b_failed := 0\<rparr>]) = replicate cur' 6 @ (vs @ [0]) @ [0]"
    using tk tl by (simp add: cur' replicate_add)
  then show ?thesis
    using vs(2,3) unfolding failures_ok_def by (intro exI [of _ "vs @ [0]"]) (auto simp: sorted_wrt_append)
qed

definition pool_failures_ok :: "cw_pool \<Rightarrow> bool" where
  "pool_failures_ok p \<longleftrightarrow> failures_ok (map b_failed (p_blocks p)) (p_current p)"

lemma palloc_small_failures:
  assumes "pool_failures_ok p" and "cw_palloc_small h p n al = (h', p', a)"
  shows "pool_failures_ok p'"
proof (cases "palloc_search n al (drop (p_current p) (p_blocks p))")
  case None
  obtain h1 m where r: "cw_memalign h CW_POOL_ALIGNMENT (pool_size p) = (h1, m)" by fastforce
  obtain cur tail where cf: "count_failures (p_current p) (p_current p)
      (drop (p_current p) (p_blocks p)) = (cur, tail)" by fastforce
  show ?thesis
    using assms None r cf count_failures_ok [OF _ cf]
    by (auto simp: cw_palloc_small_def cw_palloc_block_def pool_failures_ok_def Let_def
        simp flip: pool_size_def split: if_splits)
next
  case (Some x)
  obtain bs m where x: "x = (bs, m)" by fastforce
  obtain k where "bs = (drop (p_current p) (p_blocks p))[k := (drop (p_current p) (p_blocks p) ! k)\<lparr>b_last := m + n\<rparr>]"
    using palloc_search_Some [of n al _ bs m] Some x by blast
  then have "map b_failed bs = map b_failed (drop (p_current p) (p_blocks p))"
    by (simp add: map_update_id)
  then have "map b_failed (take (p_current p) (p_blocks p) @ bs) = map b_failed (p_blocks p)"
    by (metis append_take_drop_id map_append)
  then show ?thesis using assms Some x by (auto simp: cw_palloc_small_def pool_failures_ok_def)
qed

lemma palloc_large_failures:
  assumes "pool_failures_ok p" and "cw_palloc_large h p n = (h', p', a)"
  shows "pool_failures_ok p'"
proof -
  obtain h1 a1 where r: "cw_alloc h n = (h1, a1)" by fastforce
  obtain h2 p2 x where s: "cw_palloc_small h1 p sizeof_cw_pool_large True = (h2, p2, x)"
    using prod_cases3 by blast
  show ?thesis
    using assms r s palloc_small_failures [OF assms(1) s]
    by (auto simp: cw_palloc_large_def pool_failures_ok_def Let_def split: if_splits option.splits)
qed

lemma pool_op_failures:
  "pool_failures_ok p \<Longrightarrow> pool_op_run h p x = (h', p', a) \<Longrightarrow> pool_failures_ok p'"
  by (cases x) (auto simp: cw_pcalloc_def Let_def split: prod.splits
      elim!: cw_palloc_cases cw_pnalloc_cases dest: palloc_small_failures palloc_large_failures)

lemma pool_run_failures:
  "pool_failures_ok p \<Longrightarrow> pool_run h p rs xs = (h', p', rs') \<Longrightarrow> pool_failures_ok p'"
proof (induction xs arbitrary: h p rs)
  case (Cons x xs)
  obtain h1 p1 a where x: "pool_op_run h p x = (h1, p1, a)" using prod_cases3 by blast
  from Cons.IH [OF pool_op_failures [OF Cons.prems(1) x]] Cons.prems(2) x show ?case by simp
qed simp

lemma create_failures: "cw_create_pool h sz = (h', Some p) \<Longrightarrow> pool_failures_ok p"
  by (auto simp: cw_create_pool_def Let_def pool_failures_ok_def failures_ok_def split: prod.splits if_splits)

section \<open>Blocks whose end is not aligned\<close>

text \<open>
  \<open>cw_palloc_small\<close> compares the unsigned difference of the end of the block and the
  aligned pointer.  When aligning has moved the pointer past the end the difference wraps to
  a huge value and the test succeeds.
\<close>

lemma wrapped_room:
  assumes "unat (b_last b) \<le> unat (b_end b)" and "unat (b_last b) + 7 < 2 ^ 64"
    and "unat (b_end b) < unat (cw_align_ptr (b_last b) CW_ALIGNMENT)" and "n \<le> 1023"
  shows "n \<le> b_end b - cw_align_ptr (b_last b) CW_ALIGNMENT"
proof -
  let ?m = "cw_align_ptr (b_last b) CW_ALIGNMENT"
  have "unat ?m \<le> unat (b_last b) + 7" unfolding unat_align_8 [OF assms(2)] by presburger
  then have "unat ?m \<le> unat (b_end b) + 7" using assms(1) by simp
  moreover have "unat (b_end b - ?m) = 2 ^ 64 + unat (b_end b) - unat ?m"
    using assms(3) by (simp add: unat_sub_if')
  moreover have "unat n \<le> 1023" using assms(4) by (simp add: word_le_nat_alt)
  ultimately show ?thesis using assms(3) by (simp add: word_le_nat_alt)
qed

section \<open>A pool to evaluate\<close>

lemmas pool_eval = cw_create_pool_def cw_palloc_def cw_pnalloc_def cw_pcalloc_def cw_palloc_small_def
  cw_palloc_large_def cw_palloc_block_def cw_memalign_eq cw_alloc_def libc_request_def bump_heap_def
  bump_libc_def bump_next_def fits_def rdisj_def cw_align_ptr_def cw_sizes Let_def

definition demo_heap :: heap where
  "demo_heap = (bump_heap [])\<lparr>h_calls := 1, h_live := [(4112, 1024)]\<rparr>"

definition demo_pool :: cw_pool where
  "demo_pool = \<lparr>p_blocks = [\<lparr>b_addr = 4112, b_last = 4192, b_end = 5136, b_failed = 0\<rparr>],
     p_max = 944, p_current = 0, p_large = [], p_cleanup = []\<rparr>"

lemma demo_create: "cw_create_pool (bump_heap []) 1024 = (demo_heap, Some demo_pool)"
  by (simp add: demo_heap_def demo_pool_def pool_eval)

lemma demo_inv: "pool_inv demo_heap demo_pool []"
  by (rule cw_create_pool_ok(1) [OF bump_heap_ok demo_create]) simp_all

definition demo_ops :: "pool_op list" where
  "demo_ops = [Palloc 100, Pnalloc 13, Palloc 20, Pcalloc 2000, Palloc 900]"

lemma demo_run:
  "snd (snd (pool_run demo_heap demo_pool [] demo_ops)) =
     [(7200, 900), (5152, 2000), (4312, 20), (4292, 13), (4192, 100)]"
  by (simp add: demo_heap_def demo_pool_def demo_ops_def pool_eval)

definition demo_end_heap :: heap where
  "demo_end_heap = fst (pool_run demo_heap demo_pool [] demo_ops)"

definition demo_end_pool :: cw_pool where
  "demo_end_pool = fst (snd (pool_run demo_heap demo_pool [] demo_ops))"

lemma demo_run_result:
  "pool_run demo_heap demo_pool [] demo_ops =
     (demo_end_heap, demo_end_pool, [(7200, 900), (5152, 2000), (4312, 20), (4292, 13), (4192, 100)])"
  unfolding demo_run [symmetric] by (simp add: demo_end_heap_def demo_end_pool_def)

section \<open>Properties of the pool\<close>

text \<open>
  C1: in a pool created with a size that is a multiple of 8 and holds its header, after any
  sequence of \<open>cw_palloc\<close>, \<open>cw_pnalloc\<close> and \<open>cw_pcalloc\<close> requests, whatever the
  library grants or refuses, no two of the regions handed out overlap, and each lies inside
  one live region of the C library that the pool owns.
\<close>

theorem pool_regions_separate:
  assumes "heap_ok h" and "cw_create_pool h sz = (h1, Some p1)"
    and "80 \<le> unat sz" and "unat sz mod 8 = 0"
    and "pool_run h1 p1 [] xs = (h2, p2, rs)"
  shows "separated rs \<and>
    (\<forall>r\<in>set rs. \<exists>l\<in>set (h_live h2). fst l \<in> set (pool_addrs p2) \<and> lo l \<le> lo r \<and> hi r \<le> hi l)"
proof -
  have "pool_inv h2 p2 rs"
    using pool_run_keeps [OF cw_create_pool_ok(1) [OF assms(1-4)] assms(5)] by simp
  then show ?thesis using pool_invD(4) pool_region_live by fastforce
qed

theorem pool_regions_separate_witness:
  "separated [(7200, 900), (5152, 2000), (4312, 20), (4292, 13), (4192, 100)]"
  using pool_regions_separate [OF bump_heap_ok demo_create _ _ demo_run_result] by simp

text \<open>
  C2: whatever was requested from a pool, \<open>cw_destroy_pool\<close> frees each block and each large
  allocation once (no free of an address that is not live) and leaves exactly the regions
  that were live before the pool was created: nothing leaks.
\<close>

theorem pool_destroy_restores:
  assumes "heap_ok h" and "cw_create_pool h sz = (h1, Some p1)"
    and "80 \<le> unat sz" and "unat sz mod 8 = 0"
    and "pool_run h1 p1 [] xs = (h2, p2, rs)"
  shows "h_live (fst (cw_destroy_pool h2 p2)) = h_live h \<and> \<not> h_fault (fst (cw_destroy_pool h2 p2))"
proof -
  note c = cw_create_pool_ok [OF assms(1-4)]
  have run: "pool_inv h2 p2 rs" "others h2 p2 = others h1 p1"
    using pool_run_keeps [OF c(1) assms(5)] by simp_all
  have "distinct (map fst (h_live h1))" using pool_invD(1) [OF c(1)] by (simp add: heap_ok_def)
  then have "others h1 p1 = h_live h"
    unfolding others_def c(2,3) by (force simp: filter_id_conv)
  then show ?thesis
    using cw_destroy_pool_frees [OF run(1)] run(2) by (simp add: heap_ok_def)
qed

theorem pool_destroy_restores_witness:
  "h_live (fst (cw_destroy_pool demo_end_heap demo_end_pool)) = []"
  using pool_destroy_restores [OF bump_heap_ok demo_create _ _ demo_run_result]
  by (simp add: bump_heap_def)

text \<open>
  C3: the contract of one \<open>cw_palloc\<close> call.  A pointer that is returned is 8-byte aligned
  and its region overlaps none handed out before; NULL is returned only after the C library
  refused a request, and then the pool and the live regions are as they were.
\<close>

theorem cw_palloc_contract:
  assumes "pool_inv h p rs" and "cw_palloc h p n = (h', p', a)"
  shows "if a \<noteq> 0 then unat a mod 8 = 0 \<and> (\<forall>r\<in>set rs. rdisj (a, n) r) \<and> pool_inv h' p' ((a, n) # rs)
         else refusal h h' \<and> p' = p \<and> h_live h' = h_live h"
proof (cases "a = 0")
  case True
  then show ?thesis using cw_palloc_refused [OF assms(1)] assms(2) by auto
next
  case False
  note g = cw_palloc_granted [OF assms False]
  have "\<forall>r\<in>set rs. rdisj (a, n) r" using pool_invD(4) [OF g(1)] by simp
  with g False show ?thesis by simp
qed

theorem cw_palloc_contract_witness:
  "\<exists>h p. cw_palloc demo_heap demo_pool 100 = (h, p, 4192) \<and> unat (4192 :: addr) mod 8 = 0 \<and> pool_inv h p [(4192, 100)]"
proof -
  obtain h p where c: "cw_palloc demo_heap demo_pool 100 = (h, p, 4192)"
    by (simp add: demo_heap_def demo_pool_def pool_eval)
  from cw_palloc_contract [OF demo_inv c] c show ?thesis by auto
qed

text \<open>
  C4: \<open>cw_pcalloc\<close> returns a region whose bytes are all zero, and writes to no region
  handed out before.
\<close>

theorem cw_pcalloc_zeroes:
  assumes "pool_inv h p rs" and "cw_pcalloc h p n = (h', p', a)" and "a \<noteq> 0"
  shows "(\<forall>x. inside x (a, n) \<longrightarrow> h_mem h' x = 0) \<and>
    (\<forall>r\<in>set rs. \<forall>x. inside x r \<longrightarrow> h_mem h' x = h_mem h x)"
  using cw_pcalloc_granted [OF assms] by blast

theorem cw_pcalloc_zeroes_witness:
  "h_mem demo_heap 4200 = 255 \<and> h_mem (fst (cw_pcalloc demo_heap demo_pool 100)) 4200 = 0"
proof -
  obtain h p where c: "cw_pcalloc demo_heap demo_pool 100 = (h, p, 4192)"
    by (simp add: demo_heap_def demo_pool_def pool_eval)
  have "inside 4200 (4192, 100)" by (simp add: inside_def)
  moreover have "(4192 :: addr) \<noteq> 0" by simp
  ultimately have "h_mem h 4200 = 0" using cw_pcalloc_zeroes [OF demo_inv c] by blast
  then show ?thesis by (simp add: c) (simp add: demo_heap_def bump_heap_def)
qed

lemma sorted_replicate: "sorted_wrt (\<ge>) (replicate n (x :: u64))"
  by (induction n) simp_all

lemma counters_sorted:
  assumes "pool_failures_ok p"
  shows "p_current p < length (p_blocks p)" and "sorted_wrt (\<ge>) (map b_failed (p_blocks p))"
    and "b_failed (last (p_blocks p)) = 0"
    and "i < length (p_blocks p) \<Longrightarrow>
      if i < p_current p then b_failed (p_blocks p ! i) = 6 else b_failed (p_blocks p ! i) \<le> 5"
proof -
  obtain ds where ds: "map b_failed (p_blocks p) = replicate (p_current p) 6 @ ds @ [0]"
    and srt: "sorted_wrt (\<ge>) ds" and le: "\<forall>x\<in>set ds. x \<le> 5"
    using assms by (auto simp: pool_failures_ok_def failures_ok_def)
  have len: "length (p_blocks p) = p_current p + length ds + 1" using arg_cong [OF ds, of length] by simp
  then show "p_current p < length (p_blocks p)" by simp
  have "x \<le> 6" if "x \<le> 5" for x :: u64 using that by (simp add: word_le_nat_alt)
  then have "sorted_wrt (\<ge>) (replicate (p_current p) (6 :: u64) @ ds @ [0])"
    using srt le sorted_replicate [of "p_current p" 6] by (auto simp: sorted_wrt_append)
  then show "sorted_wrt (\<ge>) (map b_failed (p_blocks p))" by (simp only: ds)
  have "p_blocks p \<noteq> []" using len by auto
  then have "b_failed (last (p_blocks p)) = last (map b_failed (p_blocks p))" by (simp add: last_map)
  then show "b_failed (last (p_blocks p)) = 0" by (simp add: ds)
  show "if i < p_current p then b_failed (p_blocks p ! i) = 6 else b_failed (p_blocks p ! i) \<le> 5"
    if i: "i < length (p_blocks p)"
  proof -
    have "b_failed (p_blocks p ! i) = (replicate (p_current p) 6 @ ds @ [0]) ! i"
      using i by (simp flip: ds)
    then show ?thesis using le len i by (auto simp: nth_append less_Suc_eq)
  qed
qed

text \<open>
  C5: after any sequence of requests, every block before \<open>current\<close> has failed exactly six
  times and no other block more than five times; from each block to the next the counter stays
  or goes down, and that of the newest block is zero.  So the counters never wrap and \<open>current\<close>
  is always a block of the chain.
\<close>

theorem pool_failure_counts:
  assumes "cw_create_pool h sz = (h1, Some p1)" and "pool_run h1 p1 [] xs = (h2, p2, rs)"
    and "i < length (p_blocks p2)"
  shows "(if i < p_current p2 then b_failed (p_blocks p2 ! i) = 6 else b_failed (p_blocks p2 ! i) \<le> 5) \<and>
    p_current p2 < length (p_blocks p2) \<and> sorted_wrt (\<ge>) (map b_failed (p_blocks p2)) \<and>
    b_failed (last (p_blocks p2)) = 0"
  using counters_sorted [OF pool_run_failures [OF create_failures [OF assms(1)] assms(2)]] assms(3) by blast

theorem pool_failure_counts_witness:
  "b_failed (p_blocks demo_end_pool ! 0) \<le> 5 \<and> sorted_wrt (\<ge>) (map b_failed (p_blocks demo_end_pool))"
proof -
  have "p_blocks demo_end_pool \<noteq> []" and "p_current demo_end_pool = 0"
    by (simp_all add: demo_end_pool_def demo_heap_def demo_pool_def demo_ops_def pool_eval)
  then show ?thesis
    using pool_failure_counts [OF demo_create demo_run_result, of 0] by simp
qed

text \<open>
  C6: a pool whose block ends at an unaligned address can be overrun.  When the aligned
  \<open>last\<close> of the first block searched lies past the end of the block, \<open>cw_palloc\<close> of any
  small size takes the wrapped difference for room and returns a pointer past the end.
\<close>

theorem cw_palloc_overruns_unaligned_end:
  assumes "drop (p_current p) (p_blocks p) = b # bs"
    and "unat (b_last b) \<le> unat (b_end b)" and "unat (b_last b) + 7 < 2 ^ 64"
    and "unat (b_end b) < unat (cw_align_ptr (b_last b) CW_ALIGNMENT)"
    and "n \<le> p_max p" and "n \<le> CW_MAX_ALLOC_FROM_POOL"
  shows "\<exists>p' a. cw_palloc h p n = (h, p', a) \<and> unat (b_end b) < unat a"
proof -
  have "n \<le> 1023" using assms(6) by (simp add: cw_sizes)
  then have "n \<le> b_end b - cw_align_ptr (b_last b) CW_ALIGNMENT"
    by (rule wrapped_room [OF assms(2-4)])
  then show ?thesis using assms(1,4,5)
    by (simp add: cw_palloc_def cw_palloc_small_def Let_def)
qed

theorem cw_palloc_overruns_unaligned_end_witness:
  "\<exists>h1 p1 h2 p2 a. cw_create_pool (bump_heap []) 1001 = (h1, Some p1) \<and>
     cw_pnalloc h1 p1 921 = (h2, p2, a) \<and>
     (\<exists>p3 x. cw_palloc h2 p2 64 = (h2, p3, x) \<and> unat (b_end (p_blocks p1 ! 0)) < unat x)"
proof -
  define p1 where "p1 = \<lparr>p_blocks = [\<lparr>b_addr = 4112, b_last = 4192, b_end = 5113, b_failed = 0\<rparr>],
    p_max = 921, p_current = 0, p_large = [], p_cleanup = []\<rparr>"
  define p2 where "p2 = p1\<lparr>p_blocks := [\<lparr>b_addr = 4112, b_last = 5113, b_end = 5113, b_failed = 0\<rparr>]\<rparr>"
  define h1 where "h1 = fst (cw_create_pool (bump_heap []) 1001)"
  have "cw_create_pool (bump_heap []) 1001 = (h1, Some p1)"
    by (simp add: pool_eval p1_def h1_def)
  moreover have "cw_pnalloc h1 p1 921 = (h1, p2, 4192)"
    by (simp add: pool_eval p1_def p2_def)
  moreover have "\<exists>p3 x. cw_palloc h1 p2 64 = (h1, p3, x) \<and> unat (5113 :: addr) < unat x"
    using cw_palloc_overruns_unaligned_end [of p2 _ "[]" 64 h1]
    by (simp add: p1_def p2_def cw_align_ptr_def cw_sizes)
  moreover have "b_end (p_blocks p1 ! 0) = 5113" by (simp add: p1_def)
  ultimately show ?thesis by metis
qed

end
