(* ===== verification/Array.thy ===== *)
theory Array
  imports Pool_Search
begin

text \<open>
  \<open>src/core/cw_array.c\<close> and the inline \<open>cw_array_init\<close> of \<open>cw_array.h\<close>: the
  growable array whose elements live in a pool.  The array's \<open>pool\<close> field is the pool
  the operations are given; the bytes of the elements are those of the heap's memory.  When
  the array is full it grows in place if its elements end where the head block of the pool
  has been used up to, and otherwise moves to a new region twice as large.
\<close>

section \<open>Data and operations\<close>

definition sizeof_cw_array :: u64 where [cw_sizes]: "sizeof_cw_array = 40"

record cw_array =
  a_elts :: addr
  a_nelts :: u64
  a_size :: u64
  a_nalloc :: u64

definition cw_array_init :: "heap \<Rightarrow> cw_pool \<Rightarrow> u64 \<Rightarrow> u64 \<Rightarrow> heap \<times> cw_pool \<times> cw_array \<times> int" where
  "cw_array_init h p n sz =
     (let (h1, p1, e) = cw_palloc h p (n * sz);
          a = \<lparr>a_elts = e, a_nelts = 0, a_size = sz, a_nalloc = n\<rparr>
      in (h1, p1, a, if e = 0 then CW_ERROR else CW_OK))"

text \<open>\<open>cw_array_create\<close> returns the address of the structure and its contents.\<close>

definition cw_array_create ::
    "heap \<Rightarrow> cw_pool \<Rightarrow> u64 \<Rightarrow> u64 \<Rightarrow> heap \<times> cw_pool \<times> (addr \<times> cw_array) option" where
  "cw_array_create h p n sz =
     (let (h1, p1, a) = cw_palloc h p sizeof_cw_array
      in if a = 0 then (h1, p1, None)
         else let (h2, p2, arr, rc) = cw_array_init h1 p1 n sz
              in (h2, p2, if rc \<noteq> CW_OK then None else Some (a, arr)))"

text \<open>\<open>p->d\<close> is the data of the head block.\<close>

definition d_last :: "cw_pool \<Rightarrow> addr" where
  "d_last p = b_last (p_blocks p ! 0)"

definition d_end :: "cw_pool \<Rightarrow> addr" where
  "d_end p = b_end (p_blocks p ! 0)"

definition set_d_last :: "cw_pool \<Rightarrow> addr \<Rightarrow> cw_pool" where
  "set_d_last p x = cut p 0 x"

definition cw_array_destroy :: "cw_pool \<Rightarrow> addr \<Rightarrow> cw_array \<Rightarrow> cw_pool" where
  "cw_array_destroy p a arr =
     (let p1 = (if a_elts arr + a_size arr * a_nalloc arr = d_last p
                then set_d_last p (d_last p - a_size arr * a_nalloc arr) else p)
      in if a + sizeof_cw_array = d_last p1 then set_d_last p1 a else p1)"

definition cw_array_push :: "heap \<Rightarrow> cw_pool \<Rightarrow> cw_array \<Rightarrow> heap \<times> cw_pool \<times> cw_array \<times> addr" where
  "cw_array_push h p a =
     (let elt = (\<lambda>h p a. (h, p, a\<lparr>a_nelts := a_nelts a + 1\<rparr>, a_elts a + a_size a * a_nelts a))
      in if a_nelts a = a_nalloc a
         then let sz = a_size a * a_nalloc a
              in if a_elts a + sz = d_last p \<and> d_last p + a_size a \<le> d_end p
                 then elt h (set_d_last p (d_last p + a_size a)) (a\<lparr>a_nalloc := a_nalloc a + 1\<rparr>)
                 else let (h1, p1, new) = cw_palloc h p (2 * sz)
                      in if new = 0 then (h1, p1, a, 0)
                         else elt (h1\<lparr>h_mem := cw_memcpy (h_mem h1) new (a_elts a) sz\<rparr>) p1
                                (a\<lparr>a_elts := new, a_nalloc := a_nalloc a * 2\<rparr>)
         else elt h p a)"

definition cw_array_push_n ::
    "heap \<Rightarrow> cw_pool \<Rightarrow> cw_array \<Rightarrow> u64 \<Rightarrow> heap \<times> cw_pool \<times> cw_array \<times> addr" where
  "cw_array_push_n h p a n =
     (let sz = n * a_size a;
          elt = (\<lambda>h p a. (h, p, a\<lparr>a_nelts := a_nelts a + n\<rparr>, a_elts a + a_size a * a_nelts a))
      in if a_nelts a + n > a_nalloc a
         then if a_elts a + a_size a * a_nalloc a = d_last p \<and> d_last p + sz \<le> d_end p
              then elt h (set_d_last p (d_last p + sz)) (a\<lparr>a_nalloc := a_nalloc a + n\<rparr>)
              else let nalloc = 2 * (if n \<ge> a_nalloc a then n else a_nalloc a);
                       (h1, p1, new) = cw_palloc h p (nalloc * a_size a)
                   in if new = 0 then (h1, p1, a, 0)
                      else elt (h1\<lparr>h_mem := cw_memcpy (h_mem h1) new (a_elts a) (a_nelts a * a_size a)\<rparr>) p1
                             (a\<lparr>a_elts := new, a_nalloc := nalloc\<rparr>)
         else elt h p a)"

section \<open>The region at the end of the head block\<close>

lemma in_block_separate:
  assumes "pool_inv h p rs" and "i < length (p_blocks p)" and "i \<noteq> 0"
  shows "unat (b_end (p_blocks p ! i)) \<le> unat (b_addr (p_blocks p ! 0)) \<or>
         unat (b_end (p_blocks p ! 0)) \<le> unat (b_addr (p_blocks p ! i))"
proof -
  note D = pool_invD [OF assms(1)]
  have 0: "0 < length (p_blocks p)" using chain_okD(1) [OF D(2)] by simp
  have "rdisj (b_addr (p_blocks p ! i), pool_size p) (b_addr (p_blocks p ! 0), pool_size p)"
    using live_disjoint [OF D(1) block_region_live [OF D(3) assms(2)] block_region_live [OF D(3) 0]]
      block_addr_distinct [OF D(3) assms(2) 0 assms(3)] by simp
  then show ?thesis
    using chain_okD(5) [OF D(2) assms(2)] chain_okD(5) [OF D(2) 0] chain_okD(4) [OF D(2)]
    by (auto simp: rdisj_def block_ok_def)
qed

text \<open>
  A region that is not empty and ends at \<open>last\<close> of the head block lies in that block,
  behind the header.
\<close>

lemma ends_at_last:
  assumes inv: "pool_inv h p rs" and r: "(e, n) \<in> set rs"
    and last: "unat e + unat n = unat (d_last p)"
    and pos: "unat n > 0"
  shows "unat (b_addr (p_blocks p ! 0)) + 80 \<le> unat e"
proof -
  note D = pool_invD [OF inv]
  have 0: "0 < length (p_blocks p)" using chain_okD(1) [OF D(2)] by simp
  note b0 = chain_okD(5) [OF D(2) 0, unfolded block_ok_def blk_hdr_def]
  from D(6) [OF r] consider (blk) "in_block (p_blocks p) (e, n)" | (lrg) "in_large h p (e, n)" by blast
  then show ?thesis
  proof cases
    case blk
    then obtain i where i: "i < length (p_blocks p)"
      and e: "unat (b_addr (p_blocks p ! i)) + blk_hdr i \<le> unat e"
      and le: "unat e + unat n \<le> unat (b_last (p_blocks p ! i))"
      by (auto simp: in_block_def)
    show ?thesis
    proof (cases "i = 0")
      case True
      then show ?thesis using e by (simp add: blk_hdr_def)
    next
      case False
      then have False
        using in_block_separate [OF inv i] chain_okD(5) [OF D(2) i] e le last b0
        by (auto simp: block_ok_def blk_hdr_def d_last_def)
      then show ?thesis ..
    qed
  next
    case lrg
    then obtain l where l: "l \<in> set (h_live h)" "fst l \<in> set (large_addrs p)"
      and el: "lo l \<le> unat e" "unat e + unat n \<le> hi l" by (auto simp: in_large_def)
    have "rdisj l (b_addr (p_blocks p ! 0), pool_size p)"
      using live_disjoint [OF D(1) l(1) block_region_live [OF D(3) 0]] large_addr_not_block [OF D(3) l(2) 0]
      by simp
    moreover have "pool_size p \<noteq> 0" using chain_okD(4) [OF D(2)] by auto
    ultimately have False
      using el last b0 pos by (auto simp: rdisj_def d_last_def lo_def hi_def)
    then show ?thesis ..
  qed
qed

lemma pool_inv_drop: "pool_inv h p (r # rs) \<Longrightarrow> pool_inv h p rs"
  by (simp add: pool_inv_def)

lemma pool_inv_swap: "pool_inv h p (r # s # rs) \<Longrightarrow> pool_inv h p (s # r # rs)"
  by (auto simp: pool_inv_def rdisj_sym)

text \<open>The region at the end grows: \<open>last\<close> moves up by \<open>k\<close> bytes.\<close>

lemma grow_last:
  assumes inv: "pool_inv h p ((e, n) # rs)" and last: "unat e + unat n = unat (d_last p)"
    and pos: "unat n > 0" and k: "unat (d_last p) + unat k \<le> unat (d_end p)"
  shows "pool_inv h (set_d_last p (d_last p + k)) ((e, n + k) # rs)"
proof (cases "unat k = 0")
  case True
  have "cut p 0 (b_last (p_blocks p ! 0)) = p"
    by (cases "p_blocks p") (simp_all add: cut_def)
  moreover have "k = 0" using True by (simp add: word_unat_eq_iff)
  ultimately show ?thesis using inv by (simp add: set_d_last_def d_last_def)
next
  case False
  note D = pool_invD [OF inv]
  have 0: "0 < length (p_blocks p)" using chain_okD(1) [OF D(2)] by simp
  have e: "unat (b_addr (p_blocks p ! 0)) + 80 \<le> unat e"
    using ends_at_last [OF inv _ last pos] by simp
  have nk: "unat (n + k) = unat n + unat k" "unat (d_last p + k) = unat (d_last p) + unat k"
    using k last unat_less_64 [of "d_end p"] by (simp_all add: unat_plus_nowrap)
  let ?q = "cut p 0 (d_last p + k)"
  have q: "pool_inv h ?q ((d_last p, k) # (e, n) # rs)"
    by (rule cut_from_block(1) [OF inv 0]) (use k in \<open>auto simp: d_last_def d_end_def\<close>)
  note Q = pool_invD [OF q]
  have "rdisj (e, n + k) r" if "r \<in> set (rs @ large_nodes ?q)" for r
  proof -
    have "rdisj (d_last p, k) r" "rdisj (e, n) r" using Q(5) that by auto
    then show ?thesis
      using last nk False by (auto simp: rdisj_def lo_def hi_def word_unat_eq_iff)
  qed
  moreover have "in_block (p_blocks ?q) (e, n + k)"
    unfolding in_block_def using 0 e nk last
    by (intro exI [of _ 0]) (auto simp: cut_nth blk_hdr_def)
  ultimately have "pool_inv h ?q ((e, n + k) # rs)"
    using q by (auto simp: pool_inv_def)
  then show ?thesis by (simp add: set_d_last_def)
qed

text \<open>The region at the end is given back: \<open>last\<close> moves down to its start.\<close>

lemma shrink_last:
  assumes inv: "pool_inv h p ((e, n) # rs)" and last: "unat e + unat n = unat (d_last p)"
    and pos: "unat n > 0" and ne: "\<forall>r\<in>set rs. snd r \<noteq> 0"
  shows "pool_inv h (set_d_last p e) rs"
proof -
  note D = pool_invD [OF inv]
  have 0: "0 < length (p_blocks p)" using chain_okD(1) [OF D(2)] by simp
  have e: "unat (b_addr (p_blocks p ! 0)) + 80 \<le> unat e"
    using ends_at_last [OF inv _ last pos] by simp
  let ?q = "cut p 0 e"
  have ps: "pool_size ?q = pool_size p"
    by (rule pool_size_map) (simp_all add: chain_okD(1) [OF D(2)])
  have nth: "block_ok (unat (pool_size p)) j (p_blocks ?q ! j)" if "j < length (p_blocks p)" for j
    using chain_okD(5) [OF D(2) that] chain_okD(5) [OF D(2) 0] that e last
    by (auto simp: cut_nth block_ok_def blk_hdr_def d_last_def)
  have chain: "chain_ok ?q"
    using D(2) nth chain_okD(1) [OF D(2)] unfolding chain_ok_def blocks_ok_def ps cut_simps
    by (metis cut_simps(5) length_0_conv)
  have own: "owns h ?q" using D(3) owns_cong [OF cut_maps(1) cut_simps(6) ps] by blast
  have keep: "in_block (p_blocks ?q) r"
    if r: "r \<in> set (rs @ large_nodes p)" and blk: "in_block (p_blocks p) r" for r
  proof -
    obtain i where i: "i < length (p_blocks p)"
      and il: "unat (b_addr (p_blocks p ! i)) + blk_hdr i \<le> lo r" "hi r \<le> unat (b_last (p_blocks p ! i))"
      using blk by (auto simp: in_block_def)
    have "rdisj (e, n) r" and "snd r \<noteq> 0"
      using D(5) r ne by (auto simp: large_nodes_def cw_sizes)
    then have "i = 0 \<Longrightarrow> hi r \<le> unat e"
      using il last pos by (auto simp: rdisj_def d_last_def lo_def hi_def word_unat_eq_iff)
    then show ?thesis unfolding in_block_def using i il by (intro exI [of _ i]) (auto simp: cut_nth)
  qed
  have "in_large h ?q r = in_large h p r" for r by (simp add: in_large_def)
  then show ?thesis
    using inv chain own keep unfolding pool_inv_def set_d_last_def cut_simps by auto
qed

section \<open>The array invariant\<close>

definition arr_region :: "cw_array \<Rightarrow> region" where
  "arr_region a = (a_elts a, a_size a * a_nalloc a)"

text \<open>
  The counters agree, the element size and the capacity are not zero, and the size in bytes
  of the allocation does not wrap.
\<close>

definition array_ok :: "cw_array \<Rightarrow> bool" where
  "array_ok a \<longleftrightarrow>
     unat (a_nelts a) \<le> unat (a_nalloc a) \<and> 0 < unat (a_nalloc a) \<and> 0 < unat (a_size a) \<and>
     unat (a_size a) * unat (a_nalloc a) < 2 ^ 64"

definition array_inv :: "heap \<Rightarrow> cw_pool \<Rightarrow> cw_array \<Rightarrow> region list \<Rightarrow> bool" where
  "array_inv h p a rs \<longleftrightarrow> array_ok a \<and> pool_inv h p (arr_region a # rs)"

text \<open>The bytes of element \<open>j\<close>, and the contents of the array as a list of elements.\<close>

definition elem_addr :: "cw_array \<Rightarrow> nat \<Rightarrow> addr" where
  "elem_addr a j = a_elts a + a_size a * of_nat j"

definition elem_bytes :: "heap \<Rightarrow> cw_array \<Rightarrow> nat \<Rightarrow> u8 list" where
  "elem_bytes h a j = map (\<lambda>k. h_mem h (elem_addr a j + of_nat k)) [0..<unat (a_size a)]"

definition array_elems :: "heap \<Rightarrow> cw_array \<Rightarrow> u8 list list" where
  "array_elems h a = map (elem_bytes h a) [0..<unat (a_nelts a)]"

lemma array_size: "array_ok a \<Longrightarrow> unat (a_size a * a_nalloc a) = unat (a_size a) * unat (a_nalloc a)"
  by (simp add: array_ok_def unat_times_nowrap)

lemma array_half:
  assumes "array_inv h p a rs"
  shows "unat (a_size a) * unat (a_nalloc a) < 2 ^ 63"
proof -
  have inv: "pool_inv h p (arr_region a # rs)" and ok: "array_ok a" using assms by (simp_all add: array_inv_def)
  obtain l where l: "l \<in> set (h_live h)" "lo l \<le> lo (arr_region a)" "hi (arr_region a) \<le> hi l"
    using pool_region_live [OF inv, of "arr_region a"] by auto
  then have "hi l < 2 ^ 63" using pool_invD(1) [OF inv] by (auto simp: heap_ok_def)
  then show ?thesis using l(2,3) array_size [OF ok] by (simp add: arr_region_def lo_def hi_def)
qed

lemma array_end:
  assumes "array_inv h p a rs"
  shows "unat (a_elts a) + unat (a_size a) * unat (a_nalloc a) < 2 ^ 64"
  using assms pool_region_bound [of h p "arr_region a # rs" "arr_region a"] array_size [of a]
  by (simp add: array_inv_def arr_region_def)

section \<open>\<open>cw_array_push\<close>\<close>

lemma elts_nonzero:
  assumes "array_inv h p a rs"
  shows "0 < unat (a_elts a)"
proof -
  have inv: "pool_inv h p (arr_region a # rs)" using assms by (simp add: array_inv_def)
  obtain l where l: "l \<in> set (h_live h)" "lo l \<le> lo (arr_region a)"
    using pool_region_live [OF inv, of "arr_region a"] by auto
  then have "fst l \<noteq> 0" using pool_invD(1) [OF inv] by (simp add: heap_ok_def)
  then have "0 < lo l" by (simp add: lo_def unat_gt_0)
  then show ?thesis using l(2) by (simp add: arr_region_def)
qed

lemma elem_offset:
  assumes "array_ok a" and "j < unat (a_nalloc a)" and "k < unat (a_size a)"
  shows "unat (a_size a * of_nat j + of_nat k) = unat (a_size a) * j + k"
    and "unat (a_size a) * j + k < unat (a_size a) * unat (a_nalloc a)"
proof -
  have "unat (a_size a) * j + k < unat (a_size a) * Suc j" using assms(3) by simp
  also have "\<dots> \<le> unat (a_size a) * unat (a_nalloc a)" using assms(2) by (intro mult_le_mono2) simp
  finally show lt: "unat (a_size a) * j + k < unat (a_size a) * unat (a_nalloc a)" .
  have j: "unat (of_nat j :: u64) = j" and k: "unat (of_nat k :: u64) = k"
    using assms(2,3) unat_less_64 [of "a_nalloc a"] unat_less_64 [of "a_size a"]
    by (simp_all add: unat_of_nat_64)
  have b: "unat (a_size a) * j + k < 2 ^ 64" using lt assms(1) by (simp add: array_ok_def)
  then have "unat (a_size a * of_nat j) = unat (a_size a) * j"
    using j by (subst unat_times_nowrap) simp_all
  then show "unat (a_size a * of_nat j + of_nat k) = unat (a_size a) * j + k"
    using k b by (subst unat_plus_nowrap) simp_all
qed

text \<open>
  Moving the elements: the array's bytes are copied to a fresh region \<open>new\<close> at least as
  large; the elements read from the new place are those of the old.
\<close>

lemma moved_elems:
  assumes inv: "array_inv h p a rs" and al: "cw_palloc h p n = (h1, p1, new)" and new: "new \<noteq> 0"
    and m: "m \<le> a_size a * a_nalloc a" "m \<le> n"
    and cnt: "unat (a_size a) * cnt \<le> unat m" and cap: "cnt \<le> unat (a_nalloc a)"
    and h': "h' = h1\<lparr>h_mem := cw_memcpy (h_mem h1) new (a_elts a) m\<rparr>"
    and a': "a_elts a' = new" "a_size a' = a_size a"
  shows "j < cnt \<Longrightarrow> elem_bytes h' a' j = elem_bytes h a j"
    and "r \<in> set (arr_region a # rs) \<Longrightarrow> inside x r \<Longrightarrow> h_mem h' x = h_mem h x"
proof -
  let ?rs = "arr_region a # rs"
  have pi: "pool_holds (h, p) ?rs" and ok: "array_ok a"
    using inv by (simp_all add: array_inv_def pool_holds_def)
  have call: "palloc_call (h, p) n = ((h1, p1), new)" using al by (simp add: palloc_call_def)
  show "elem_bytes h' a' j = elem_bytes h a j" if "j < cnt"
    unfolding elem_bytes_def a'(2)
  proof (rule map_cong [OF refl])
    fix k
    assume "k \<in> set [0..<unat (a_size a)]"
    then have k: "k < unat (a_size a)" by simp
    let ?i = "a_size a * of_nat j + of_nat k"
    have "unat ?i = unat (a_size a) * j + k"
      using elem_offset(1) [OF ok _ k] that cap by simp
    also have "\<dots> < unat (a_size a) * Suc j" using k by simp
    also have "\<dots> \<le> unat (a_size a) * cnt" using that by (intro mult_le_mono2) simp
    also have "\<dots> \<le> unat m" by (rule cnt)
    finally have i: "?i < m" by (simp add: word_less_nat_alt)
    have "cw_memcpy (pool_mem (h1, p1)) new (a_elts a) m (new + ?i) = pool_mem (h, p) (a_elts a + ?i)"
      by (rule pool.move_copies [OF pi _ call new i m]) (simp add: arr_region_def)
    then show "h_mem h' (elem_addr a' j + of_nat k) = h_mem h (elem_addr a j + of_nat k)"
      by (simp add: h' elem_addr_def a' pool_mem_def add.assoc)
  qed
  show "h_mem h' x = h_mem h x" if "r \<in> set ?rs" "inside x r"
    using pool.move_preserves [OF pi call new m(2) that] by (simp add: h' pool_mem_def)
qed

text \<open>
  The contract of a push of \<open>k\<close> elements that succeeds: the invariant holds, the elements
  pushed are at \<open>e\<close>, the earlier elements and the clients' other regions keep their bytes.
\<close>

definition pushed :: "nat \<Rightarrow> heap \<Rightarrow> cw_array \<Rightarrow> region list \<Rightarrow> heap \<Rightarrow> cw_pool \<Rightarrow> cw_array \<Rightarrow> addr \<Rightarrow> bool" where
  "pushed k h a rs h' p' a' e \<longleftrightarrow>
     (\<exists>rs'. array_inv h' p' a' rs' \<and> set rs \<subseteq> set rs') \<and>
     unat (a_nelts a') = unat (a_nelts a) + k \<and> a_size a' = a_size a \<and>
     e = elem_addr a' (unat (a_nelts a)) \<and> e \<noteq> 0 \<and>
     (\<forall>j<unat (a_nelts a). elem_bytes h' a' j = elem_bytes h a j) \<and>
     (\<forall>r\<in>set rs. \<forall>x. inside x r \<longrightarrow> h_mem h' x = h_mem h x)"

text \<open>The last step of both push routines, once there is room for \<open>n\<close> more elements.\<close>

lemma count_up:
  assumes inv: "array_inv h p a rs" and room: "unat (a_nelts a) + unat n \<le> unat (a_nalloc a)"
  shows "array_inv h p (a\<lparr>a_nelts := a_nelts a + n\<rparr>) rs"
    and "unat (a_nelts a + n) = unat (a_nelts a) + unat n"
    and "a_elts a + a_size a * a_nelts a = elem_addr a (unat (a_nelts a))"
    and "elem_addr a (unat (a_nelts a)) \<noteq> 0"
proof -
  show n: "unat (a_nelts a + n) = unat (a_nelts a) + unat n"
    using room unat_less_64 [of "a_nalloc a"] by (simp add: unat_plus_nowrap)
  then show "array_inv h p (a\<lparr>a_nelts := a_nelts a + n\<rparr>) rs"
    using inv room by (simp add: array_inv_def array_ok_def arr_region_def)
  show eq: "a_elts a + a_size a * a_nelts a = elem_addr a (unat (a_nelts a))"
    by (simp add: elem_addr_def)
  have le: "unat (a_size a) * unat (a_nelts a) \<le> unat (a_size a) * unat (a_nalloc a)"
    using room by simp
  then have "unat (a_size a) * unat (a_nelts a) < 2 ^ 64"
    by (rule le_less_trans) (use array_half [OF inv] in simp)
  then have "unat (a_size a * a_nelts a) = unat (a_size a) * unat (a_nelts a)"
    by (rule unat_times_nowrap)
  then have "unat (a_elts a + a_size a * a_nelts a) = unat (a_elts a) + unat (a_size a) * unat (a_nelts a)"
    using le_less_trans [OF add_left_mono [OF le] array_end [OF inv]]
    by (subst unat_plus_nowrap) simp_all
  then have "0 < unat (a_elts a + a_size a * a_nelts a)" using elts_nonzero [OF inv] by simp
  then show "elem_addr a (unat (a_nelts a)) \<noteq> 0" unfolding eq [symmetric] by auto
qed

lemma nalloc_small: "array_inv h p a rs \<Longrightarrow> unat (a_nalloc a) < 2 ^ 63"
proof -
  assume inv: "array_inv h p a rs"
  then have "0 < unat (a_size a)" by (simp add: array_inv_def array_ok_def)
  then have "unat (a_nalloc a) \<le> unat (a_size a) * unat (a_nalloc a)" by simp
  then show ?thesis using array_half [OF inv] by linarith
qed

text \<open>Growing in place by \<open>n\<close> elements.\<close>

lemma grow_in_place:
  assumes inv: "array_inv h p a rs" and n: "unat n * unat (a_size a) < 2 ^ 64"
    and last: "a_elts a + a_size a * a_nalloc a = d_last p"
    and fit: "unat (d_last p) + unat (n * a_size a) \<le> unat (d_end p)"
  shows "array_inv h (set_d_last p (d_last p + n * a_size a)) (a\<lparr>a_nalloc := a_nalloc a + n\<rparr>) rs"
    and "unat (a_nalloc a + n) = unat (a_nalloc a) + unat n"
proof -
  have ok: "array_ok a" and pinv: "pool_inv h p (arr_region a # rs)" using inv by (simp_all add: array_inv_def)
  note sz = array_size [OF ok]
  have pos: "0 < unat (a_size a)" "0 < unat (a_nalloc a)" using ok by (simp_all add: array_ok_def)
  have un: "unat (n * a_size a) = unat n * unat (a_size a)" using n by (rule unat_times_nowrap)
  have "unat (a_elts a + a_size a * a_nalloc a) = unat (a_elts a) + unat (a_size a * a_nalloc a)"
    using array_end [OF inv] sz by (simp add: unat_plus_nowrap)
  then have dl: "unat (a_elts a) + unat (a_size a * a_nalloc a) = unat (d_last p)" using last by simp
  have total: "unat (a_size a) * (unat (a_nalloc a) + unat n) < 2 ^ 64"
    using dl fit un sz unat_less_64 [of "d_end p"] by (simp add: algebra_simps)
  have "unat (a_nalloc a) + unat n \<le> unat (a_size a) * (unat (a_nalloc a) + unat n)" using pos(1) by simp
  then show nn: "unat (a_nalloc a + n) = unat (a_nalloc a) + unat n"
    using total by (intro unat_plus_nowrap) linarith
  have "pool_inv h (set_d_last p (d_last p + n * a_size a))
      ((a_elts a, a_size a * a_nalloc a + n * a_size a) # rs)"
    using grow_last [OF pinv [unfolded arr_region_def] dl _ fit] pos sz by simp
  then show "array_inv h (set_d_last p (d_last p + n * a_size a)) (a\<lparr>a_nalloc := a_nalloc a + n\<rparr>) rs"
    using ok nn total by (auto simp: array_inv_def array_ok_def arr_region_def algebra_simps)
qed

text \<open>Moving to a fresh region of \<open>nalloc\<close> elements.\<close>

lemma grow_by_move:
  assumes inv: "array_inv h p a rs" and n: "unat nalloc * unat (a_size a) < 2 ^ 64"
    and more: "unat (a_nalloc a) \<le> unat nalloc"
    and al: "cw_palloc h p (nalloc * a_size a) = (h1, p1, new)" and new: "new \<noteq> 0"
    and m: "m \<le> a_size a * a_nalloc a" "unat (a_size a) * unat (a_nelts a) \<le> unat m"
    and h': "h' = h1\<lparr>h_mem := cw_memcpy (h_mem h1) new (a_elts a) m\<rparr>"
    and a': "a' = a\<lparr>a_elts := new, a_nalloc := nalloc\<rparr>"
  shows "array_inv h' p1 a' (arr_region a # rs)"
    and "j < unat (a_nelts a) \<Longrightarrow> elem_bytes h' a' j = elem_bytes h a j"
    and "r \<in> set rs \<Longrightarrow> inside x r \<Longrightarrow> h_mem h' x = h_mem h x"
proof -
  have ok: "array_ok a" and pinv: "pool_inv h p (arr_region a # rs)" using inv by (simp_all add: array_inv_def)
  have un: "unat (nalloc * a_size a) = unat nalloc * unat (a_size a)" using n by (rule unat_times_nowrap)
  have "pool_inv h' p1 ((new, nalloc * a_size a) # arr_region a # rs)"
    using cw_palloc_granted(1) [OF pinv al new] by (simp add: h' pool_inv_mem)
  then show "array_inv h' p1 a' (arr_region a # rs)"
    using ok more n by (auto simp: array_inv_def array_ok_def arr_region_def a' mult.commute)
  have mn: "m \<le> nalloc * a_size a"
    using m(1) un array_size [OF ok] more
    by (auto simp: word_le_nat_alt mult.commute intro: order_trans mult_le_mono1)
  have cap: "unat (a_nelts a) \<le> unat (a_nalloc a)" using ok by (simp add: array_ok_def)
  note me = moved_elems [OF inv al new m(1) mn m(2) cap h']
  show "elem_bytes h' a' j = elem_bytes h a j" if "j < unat (a_nelts a)"
    using me(1) [of a' j] that by (simp add: a')
  show "h_mem h' x = h_mem h x" if "r \<in> set rs" "inside x r"
    using me(2) [of a' r x] that by (simp add: a')
qed

lemma array_inv_weaken: "array_inv h p a (r # rs) \<Longrightarrow> array_inv h p a rs"
  by (auto simp: array_inv_def dest: pool_inv_swap pool_inv_drop)

lemma pushedI:
  assumes inv: "array_inv h' p' b rs'" and sub: "set rs \<subseteq> set rs'"
    and n: "unat (a_nelts b) + unat n \<le> unat (a_nalloc b)"
    and b: "a_size b = a_size a" "a_nelts b = a_nelts a"
    and elems: "\<And>j. j < unat (a_nelts a) \<Longrightarrow> elem_bytes h' b j = elem_bytes h a j"
    and mem: "\<And>r x. r \<in> set rs \<Longrightarrow> inside x r \<Longrightarrow> h_mem h' x = h_mem h x"
  shows "pushed (unat n) h a rs h' p' (b\<lparr>a_nelts := a_nelts b + n\<rparr>) (a_elts b + a_size b * a_nelts b)"
proof -
  note c = count_up [OF inv n]
  have "elem_bytes h' (b\<lparr>a_nelts := k\<rparr>) j = elem_bytes h' b j" for j k
    by (simp add: elem_bytes_def elem_addr_def)
  moreover have "elem_addr (b\<lparr>a_nelts := k\<rparr>) j = elem_addr b j" for j k
    by (simp add: elem_addr_def)
  ultimately show ?thesis
    using c sub elems mem unfolding pushed_def by (auto simp: b)
qed

lemma cw_array_push_cases:
  assumes "cw_array_push h p a = (h', p', a', e)"
  obtains (room) "a_nelts a \<noteq> a_nalloc a" "h' = h" "p' = p"
      "a' = a\<lparr>a_nelts := a_nelts a + 1\<rparr>" "e = a_elts a + a_size a * a_nelts a"
  | (in_place) b where "a_nelts a = a_nalloc a" "a_elts a + a_size a * a_nalloc a = d_last p"
      "d_last p + a_size a \<le> d_end p" "h' = h" "p' = set_d_last p (d_last p + a_size a)"
      "b = a\<lparr>a_nalloc := a_nalloc a + 1\<rparr>" "a' = b\<lparr>a_nelts := a_nelts b + 1\<rparr>"
      "e = a_elts b + a_size b * a_nelts b"
  | (failed) "a_nelts a = a_nalloc a" "cw_palloc h p (2 * (a_size a * a_nalloc a)) = (h', p', 0)"
      "a' = a" "e = 0"
  | (move) h1 new b where "a_nelts a = a_nalloc a"
      "cw_palloc h p (2 * (a_size a * a_nalloc a)) = (h1, p', new)" "new \<noteq> 0"
      "h' = h1\<lparr>h_mem := cw_memcpy (h_mem h1) new (a_elts a) (a_size a * a_nalloc a)\<rparr>"
      "b = a\<lparr>a_elts := new, a_nalloc := a_nalloc a * 2\<rparr>" "a' = b\<lparr>a_nelts := a_nelts b + 1\<rparr>"
      "e = a_elts b + a_size b * a_nelts b"
proof -
  obtain h1 p1 new where al: "cw_palloc h p (2 * (a_size a * a_nalloc a)) = (h1, p1, new)"
    using prod_cases3 by blast
  show thesis
  proof (cases "a_nelts a = a_nalloc a")
    case False
    then show thesis using assms by (intro room) (simp_all add: cw_array_push_def)
  next
    case full: True
    show thesis
    proof (cases "a_elts a + a_size a * a_nalloc a = d_last p \<and> d_last p + a_size a \<le> d_end p")
      case True
      then show thesis using assms full
        by (intro in_place [of "a\<lparr>a_nalloc := a_nalloc a + 1\<rparr>"]) (auto simp: cw_array_push_def Let_def)
    next
      case False
      then show thesis using assms full al failed move [of h1 new]
        by (cases "new = 0") (auto simp: cw_array_push_def Let_def)
    qed
  qed
qed

lemma d_last_below_end:
  assumes "pool_inv h p rs"
  shows "unat (d_last p) \<le> unat (d_end p)"
proof -
  note D = pool_invD [OF assms]
  have "0 < length (p_blocks p)" using chain_okD(1) [OF D(2)] by simp
  from chain_okD(5) [OF D(2) this] show ?thesis by (simp add: block_ok_def d_last_def d_end_def)
qed

text \<open>
  The in-place test adds to the pointer before it compares: as long as the sum does not
  wrap, it says that the bytes fit below the end of the block.
\<close>

lemma fits_below_end:
  assumes "d_last p + k \<le> d_end p" and "unat (d_last p) + unat k < 2 ^ 64"
  shows "unat (d_last p) + unat k \<le> unat (d_end p)"
  using assms by (simp add: word_le_nat_alt unat_plus_nowrap)

lemma d_end_low:
  assumes "pool_inv h p rs"
  shows "unat (d_end p) < 2 ^ 63"
proof -
  note D = pool_invD [OF assms]
  have 0: "0 < length (p_blocks p)" using chain_okD(1) [OF D(2)] by simp
  have "hi (b_addr (p_blocks p ! 0), pool_size p) < 2 ^ 63"
    using block_region_live [OF D(3) 0] D(1) by (simp only: heap_ok_def)
  then show ?thesis using chain_okD(5) [OF D(2) 0] by (simp add: block_ok_def d_end_def)
qed

text \<open>The two ways \<open>cw_array_push\<close> and \<open>cw_array_push_n\<close> make room: in the block, or by moving.\<close>

lemma pushed_in_place:
  assumes inv: "array_inv h p a rs" and last: "a_elts a + a_size a * a_nalloc a = d_last p"
    and fit: "d_last p + n * a_size a \<le> d_end p" and nw: "unat n * unat (a_size a) < 2 ^ 63"
    and b: "b = a\<lparr>a_nalloc := a_nalloc a + n\<rparr>" and p': "p' = set_d_last p (d_last p + n * a_size a)"
  shows "pushed (unat n) h a rs h p' (b\<lparr>a_nelts := a_nelts b + n\<rparr>) (a_elts b + a_size b * a_nelts b)"
proof -
  have pinv: "pool_inv h p (arr_region a # rs)" and pos: "unat (a_nelts a) \<le> unat (a_nalloc a)"
    using inv by (simp_all add: array_inv_def array_ok_def)
  have un: "unat (n * a_size a) = unat n * unat (a_size a)" using nw by (intro unat_times_nowrap) simp
  have "unat (d_last p) + unat (n * a_size a) \<le> unat (d_end p)"
    using fit d_last_below_end [OF pinv] d_end_low [OF pinv] nw un by (intro fits_below_end) simp_all
  from grow_in_place [OF inv _ last this] nw
  have g: "array_inv h p' b rs" "unat (a_nalloc a + n) = unat (a_nalloc a) + unat n"
    by (simp_all add: b p')
  have "unat (a_nelts b) + unat n \<le> unat (a_nalloc b)" using g(2) pos by (simp add: b)
  moreover have "elem_bytes h b j = elem_bytes h a j" for j by (simp add: b elem_bytes_def elem_addr_def)
  ultimately show ?thesis by (intro pushedI [OF g(1) subset_refl]) (simp_all add: b)
qed

lemma pushed_by_move:
  assumes inv: "array_inv h p a rs" and nw: "unat nalloc * unat (a_size a) < 2 ^ 64"
    and room: "unat (a_nelts a) + unat n \<le> unat nalloc" and more: "unat (a_nalloc a) \<le> unat nalloc"
    and al: "cw_palloc h p (nalloc * a_size a) = (h1, p', new)" "new \<noteq> 0"
    and m: "m \<le> a_size a * a_nalloc a" "unat (a_size a) * unat (a_nelts a) \<le> unat m"
    and h': "h' = h1\<lparr>h_mem := cw_memcpy (h_mem h1) new (a_elts a) m\<rparr>"
    and b: "b = a\<lparr>a_elts := new, a_nalloc := nalloc\<rparr>"
  shows "pushed (unat n) h a rs h' p' (b\<lparr>a_nelts := a_nelts b + n\<rparr>) (a_elts b + a_size b * a_nelts b)"
  using grow_by_move [OF inv nw more al m h' b] room
  by (intro pushedI [of h' p' b "arr_region a # rs"]) (auto simp: b)

lemma cw_array_push_result:
  assumes inv: "array_inv h p a rs" and c: "cw_array_push h p a = (h', p', a', e)"
    and go: "\<not> (a' = a \<and> e = 0 \<and> cw_palloc h p (2 * (a_size a * a_nalloc a)) = (h', p', 0))"
  shows "pushed 1 h a rs h' p' a' e"
proof -
  have ok: "array_ok a" using inv by (simp add: array_inv_def)
  have pos: "0 < unat (a_nalloc a)" "unat (a_nelts a) \<le> unat (a_nalloc a)" using ok by (simp_all add: array_ok_def)
  have half: "unat (a_size a) * unat (a_nalloc a) < 2 ^ 63" by (rule array_half [OF inv])
  from c show ?thesis
  proof (cases rule: cw_array_push_cases)
    case room
    then have "unat (a_nelts a) + unat (1 :: u64) \<le> unat (a_nalloc a)"
      using pos(2) by (simp add: word_unat_eq_iff)
    from pushedI [OF inv subset_refl this refl refl] show ?thesis by (simp add: room)
  next
    case (in_place b)
    have "unat (a_size a) \<le> unat (a_size a) * unat (a_nalloc a)" using pos(1) by simp
    from le_less_trans [OF this half] have "unat (1 :: u64) * unat (a_size a) < 2 ^ 63" by simp
    from pushed_in_place [OF inv in_place(2) _ this in_place(6), of p'] show ?thesis
      using in_place(3) by (simp add: in_place(4,5,7,8))
  next
    case failed
    then show ?thesis using go by simp
  next
    case (move h1 new b)
    have n2: "unat (a_nalloc a * 2) = 2 * unat (a_nalloc a)"
      using nalloc_small [OF inv] by (subst unat_times_nowrap) simp_all
    have al: "cw_palloc h p (a_nalloc a * 2 * a_size a) = (h1, p', new)"
      using move(2) by (simp add: mult.commute mult.left_commute)
    have nw: "unat (a_nalloc a * 2) * unat (a_size a) < 2 ^ 64"
      using half unfolding n2 by (simp add: mult.commute)
    have cp: "unat (a_size a) * unat (a_nelts a) \<le> unat (a_size a * a_nalloc a)"
      unfolding array_size [OF ok] using pos(2) by simp
    have "unat (a_nelts a) + unat (1 :: u64) \<le> unat (a_nalloc a * 2)" using n2 pos move(1) by simp
    from pushed_by_move [OF inv nw this _ al move(3) order_refl cp move(4,5)] show ?thesis
      by (simp add: n2 move(6,7))
  qed
qed

lemma cw_array_push_granted:
  assumes "array_inv h p a rs" and "cw_array_push h p a = (h', p', a', e)" and "e \<noteq> 0"
  shows "pushed 1 h a rs h' p' a' e"
  using cw_array_push_result [OF assms(1,2)] assms(3) by blast

lemma cw_array_push_refused:
  assumes inv: "array_inv h p a rs" and c: "cw_array_push h p a = (h', p', a', 0)"
  shows "a' = a" and "p' = p" and "refusal h h'" and "array_inv h' p' a' rs" and "h_mem h' = h_mem h"
proof -
  have pinv: "pool_inv h p (arr_region a # rs)" using inv by (simp add: array_inv_def)
  have f: "a' = a \<and> cw_palloc h p (2 * (a_size a * a_nalloc a)) = (h', p', 0)"
    using cw_array_push_result [OF inv c] by (auto simp: pushed_def)
  note r = cw_palloc_refused [OF pinv f [THEN conjunct2]]
  show "a' = a" and "p' = p" and "refusal h h'" using f r by simp_all
  show "array_inv h' p' a' rs" using f r(3) inv by (simp add: array_inv_def)
  show "h_mem h' = h_mem h" using cw_palloc_frame f by blast
qed

section \<open>\<open>cw_array_push_n\<close>\<close>

lemma cw_array_push_n_cases:
  assumes "cw_array_push_n h p a n = (h', p', a', e)"
  obtains (room) "a_nelts a + n \<le> a_nalloc a" "h' = h" "p' = p"
      "a' = a\<lparr>a_nelts := a_nelts a + n\<rparr>" "e = a_elts a + a_size a * a_nelts a"
  | (in_place) b where "a_elts a + a_size a * a_nalloc a = d_last p"
      "d_last p + n * a_size a \<le> d_end p" "h' = h" "p' = set_d_last p (d_last p + n * a_size a)"
      "b = a\<lparr>a_nalloc := a_nalloc a + n\<rparr>" "a' = b\<lparr>a_nelts := a_nelts b + n\<rparr>"
      "e = a_elts b + a_size b * a_nelts b"
  | (failed) nalloc where "nalloc = 2 * (if n \<ge> a_nalloc a then n else a_nalloc a)"
      "cw_palloc h p (nalloc * a_size a) = (h', p', 0)" "a' = a" "e = 0"
  | (move) h1 new b nalloc where "nalloc = 2 * (if n \<ge> a_nalloc a then n else a_nalloc a)"
      "cw_palloc h p (nalloc * a_size a) = (h1, p', new)" "new \<noteq> 0"
      "h' = h1\<lparr>h_mem := cw_memcpy (h_mem h1) new (a_elts a) (a_nelts a * a_size a)\<rparr>"
      "b = a\<lparr>a_elts := new, a_nalloc := nalloc\<rparr>" "a' = b\<lparr>a_nelts := a_nelts b + n\<rparr>"
      "e = a_elts b + a_size b * a_nelts b"
proof -
  define nalloc where "nalloc = 2 * (if n \<ge> a_nalloc a then n else a_nalloc a)"
  obtain h1 p1 new where al: "cw_palloc h p (nalloc * a_size a) = (h1, p1, new)"
    using prod_cases3 by blast
  note def = cw_array_push_n_def [of h p a n, folded nalloc_def, unfolded Let_def]
  show thesis
  proof (cases "a_nelts a + n > a_nalloc a")
    case False
    then show thesis using assms by (intro room) (simp_all add: cw_array_push_n_def)
  next
    case full: True
    show thesis
    proof (cases "a_elts a + a_size a * a_nalloc a = d_last p \<and> d_last p + n * a_size a \<le> d_end p")
      case True
      then show thesis using assms full
        by (intro in_place [of "a\<lparr>a_nalloc := a_nalloc a + n\<rparr>"]) (auto simp: cw_array_push_n_def Let_def)
    next
      case False
      then show thesis using assms full al failed [OF nalloc_def] move [OF nalloc_def, of h1 new]
        unfolding def by (cases "new = 0") (auto simp: Let_def)
    qed
  qed
qed

text \<open>
  The routine is correct for counts whose doubled capacity in bytes does not wrap, which
  \<open>cw_array_push_n\<close> itself does not check.
\<close>

definition push_n_pre :: "cw_array \<Rightarrow> u64 \<Rightarrow> bool" where
  "push_n_pre a n \<longleftrightarrow> 2 * max (unat n) (unat (a_nalloc a)) * unat (a_size a) < 2 ^ 63"

text \<open>The sums and products the routine computes, where the precondition holds.\<close>

lemma push_n_sizes:
  assumes ok: "array_ok a" and pre: "push_n_pre a n"
  shows "2 * max (unat n) (unat (a_nalloc a)) < 2 ^ 63" "unat n * unat (a_size a) < 2 ^ 63"
    "unat (n * a_size a) = unat n * unat (a_size a)" "unat (a_nelts a + n) = unat (a_nelts a) + unat n"
    "unat (2 * (if n \<ge> a_nalloc a then n else a_nalloc a)) = 2 * max (unat n) (unat (a_nalloc a))"
proof -
  let ?mx = "max (unat n) (unat (a_nalloc a))"
  have pos: "0 < unat (a_size a)" "unat (a_nelts a) \<le> unat (a_nalloc a)" using ok by (simp_all add: array_ok_def)
  have pre': "2 * ?mx * unat (a_size a) < 2 ^ 63" using pre by (simp add: push_n_pre_def)
  have "2 * ?mx * 1 \<le> 2 * ?mx * unat (a_size a)" by (intro mult_le_mono2) (use pos(1) in simp)
  then have "2 * ?mx \<le> 2 * ?mx * unat (a_size a)" by simp
  then show mx: "2 * ?mx < 2 ^ 63" using pre' by (rule le_less_trans)
  have "unat n * unat (a_size a) \<le> 2 * ?mx * unat (a_size a)" by (intro mult_le_mono1) simp
  then show nsz: "unat n * unat (a_size a) < 2 ^ 63" using pre' by (rule le_less_trans)
  show "unat (n * a_size a) = unat n * unat (a_size a)" by (rule unat_times_nowrap) (use nsz in simp)
  show "unat (a_nelts a + n) = unat (a_nelts a) + unat n"
    using pos(2) mx by (subst unat_plus_nowrap) (simp_all add: max_def split: if_splits)
  have "unat (if n \<ge> a_nalloc a then n else a_nalloc a) = ?mx" by (auto simp: word_le_nat_alt max_def)
  then show "unat (2 * (if n \<ge> a_nalloc a then n else a_nalloc a)) = 2 * ?mx"
    using mx by (subst unat_times_nowrap) simp_all
qed

lemma array_used:
  assumes inv: "array_inv h p a rs"
  shows "unat (a_nelts a * a_size a) = unat (a_nelts a) * unat (a_size a)" "a_nelts a * a_size a \<le> a_size a * a_nalloc a"
proof -
  have ok: "array_ok a" using inv by (simp add: array_inv_def)
  have le: "unat (a_nelts a) * unat (a_size a) \<le> unat (a_size a) * unat (a_nalloc a)"
    using ok by (simp add: array_ok_def mult.commute)
  have "unat (a_nelts a) * unat (a_size a) < 2 ^ 64"
    by (rule le_less_trans [OF le]) (use array_half [OF inv] in simp)
  then show um: "unat (a_nelts a * a_size a) = unat (a_nelts a) * unat (a_size a)" by (rule unat_times_nowrap)
  show "a_nelts a * a_size a \<le> a_size a * a_nalloc a"
    using le by (simp add: word_le_nat_alt um array_size [OF ok])
qed

lemma cw_array_push_n_result:
  assumes inv: "array_inv h p a rs" and pre: "push_n_pre a n"
    and c: "cw_array_push_n h p a n = (h', p', a', e)"
    and go: "\<not> (a' = a \<and> e = 0 \<and> (\<exists>k. cw_palloc h p k = (h', p', 0)))"
  shows "pushed (unat n) h a rs h' p' a' e"
proof -
  have ok: "array_ok a" using inv by (simp add: array_inv_def)
  have pos: "unat (a_nelts a) \<le> unat (a_nalloc a)" using ok by (simp add: array_ok_def)
  let ?mx = "max (unat n) (unat (a_nalloc a))"
  note N = push_n_sizes [OF ok pre]
  from c show ?thesis
  proof (cases rule: cw_array_push_n_cases)
    case room
    then have "unat (a_nelts a) + unat n \<le> unat (a_nalloc a)"
      using N(4) by (simp add: word_le_nat_alt)
    from pushedI [OF inv subset_refl this refl refl] show ?thesis by (simp add: room)
  next
    case (in_place b)
    from pushed_in_place [OF inv in_place(1,2) _ in_place(5,4)] N(2,3) show ?thesis
      by (simp add: in_place(3,6,7))
  next
    case failed
    then show ?thesis using go by blast
  next
    case (move h1 new b nalloc)
    have n2: "unat nalloc = 2 * ?mx" unfolding move(1) by (rule N(5))
    have nw: "unat nalloc * unat (a_size a) < 2 ^ 64" using pre unfolding n2 by (simp add: push_n_pre_def)
    note U = array_used [OF inv]
    have cp: "unat (a_size a) * unat (a_nelts a) \<le> unat (a_nelts a * a_size a)" unfolding U(1) by simp
    have "unat (a_nelts a) + unat n \<le> unat nalloc" "unat (a_nalloc a) \<le> unat nalloc"
      using n2 pos by simp_all
    from pushed_by_move [OF inv nw this move(2,3) U(2) cp move(4,5)] show ?thesis by (simp add: move(6,7))
  qed
qed

section \<open>The vector interface\<close>

text \<open>
  What a client of the array relies on: a push that succeeds adds one element and leaves
  the earlier ones as they are; a push that fails leaves all of them.
\<close>

fun vec_pushes :: "('s \<Rightarrow> 's \<times> addr) \<Rightarrow> nat \<Rightarrow> 's \<Rightarrow> 's \<times> nat" where
  "vec_pushes push 0 s = (s, 0)"
| "vec_pushes push (Suc k) s =
     (let (s1, e) = push s; (s2, got) = vec_pushes push k s1 in (s2, if e = 0 then got else Suc got))"

locale vector =
  fixes push :: "'s \<Rightarrow> 's \<times> addr"
    and inv :: "'s \<Rightarrow> bool"
    and count :: "'s \<Rightarrow> nat"
    and elem :: "'s \<Rightarrow> nat \<Rightarrow> u8 list"
  assumes push_adds: "inv s \<Longrightarrow> push s = (s', e) \<Longrightarrow> e \<noteq> 0 \<Longrightarrow> inv s' \<and> count s' = Suc (count s)"
    and push_keeps: "inv s \<Longrightarrow> push s = (s', e) \<Longrightarrow> j < count s \<Longrightarrow> elem s' j = elem s j"
    and push_fails: "inv s \<Longrightarrow> push s = (s', 0) \<Longrightarrow> inv s' \<and> count s' = count s"
begin

lemma pushes:
  assumes "inv s" and "vec_pushes push k s = (s', got)"
  shows "inv s' \<and> got \<le> k \<and> count s' = count s + got \<and> (\<forall>j<count s. elem s' j = elem s j)"
  using assms
proof (induction k arbitrary: s s' got)
  case (Suc k)
  obtain s1 e where p: "push s = (s1, e)" by fastforce
  obtain got1 where r: "vec_pushes push k s1 = (s', got1)" and got: "got = (if e = 0 then got1 else Suc got1)"
    using Suc.prems(2) p by (auto simp: Let_def split: prod.splits)
  have i: "inv s1" and c: "count s1 = (if e = 0 then count s else Suc (count s))"
    using push_adds [OF Suc.prems(1) p] push_fails [OF Suc.prems(1)] p by auto
  from Suc.IH [OF i r] show ?case
    using c got push_keeps [OF Suc.prems(1) p] by auto
qed simp

end

definition push_call :: "heap \<times> cw_pool \<times> cw_array \<Rightarrow> (heap \<times> cw_pool \<times> cw_array) \<times> addr" where
  "push_call s = (case s of (h, p, a) \<Rightarrow> case cw_array_push h p a of (h', p', a', e) \<Rightarrow> ((h', p', a'), e))"

definition vec_inv :: "heap \<times> cw_pool \<times> cw_array \<Rightarrow> bool" where
  "vec_inv s \<longleftrightarrow> (case s of (h, p, a) \<Rightarrow> \<exists>rs. array_inv h p a rs)"

definition vec_count :: "heap \<times> cw_pool \<times> cw_array \<Rightarrow> nat" where
  "vec_count s = (case s of (h, p, a) \<Rightarrow> unat (a_nelts a))"

definition vec_elem :: "heap \<times> cw_pool \<times> cw_array \<Rightarrow> nat \<Rightarrow> u8 list" where
  "vec_elem s j = (case s of (h, p, a) \<Rightarrow> elem_bytes h a j)"

interpretation vec: vector push_call vec_inv vec_count vec_elem
proof unfold_locales
  fix s s' :: "heap \<times> cw_pool \<times> cw_array" and e and j
  obtain h p a where s: "s = (h, p, a)" by (cases s)
  obtain h' p' a' where s': "s' = (h', p', a')" by (cases s')
  assume "vec_inv s"
  then obtain rs where inv: "array_inv h p a rs" by (auto simp: vec_inv_def s)
  have call: "push_call s = (s', e) \<longleftrightarrow> cw_array_push h p a = (h', p', a', e)" for e
    by (auto simp: push_call_def s s' split: prod.splits)
  show "vec_inv s' \<and> vec_count s' = Suc (vec_count s)" if "push_call s = (s', e)" "e \<noteq> 0"
    using cw_array_push_granted [OF inv that(1) [unfolded call] that(2)]
    by (auto simp: pushed_def vec_inv_def vec_count_def s s')
  show "vec_inv s' \<and> vec_count s' = vec_count s" if "push_call s = (s', 0)"
    using cw_array_push_refused [OF inv that [unfolded call]]
    by (auto simp: vec_inv_def vec_count_def s s')
  show "vec_elem s' j = vec_elem s j" if "push_call s = (s', e)" "j < vec_count s"
  proof (cases "e = 0")
    case True
    then have "cw_array_push h p a = (h', p', a', 0)" using that(1) call by simp
    then show ?thesis
      using cw_array_push_refused(1,5) [OF inv] by (simp add: vec_elem_def s s' elem_bytes_def elem_addr_def)
  next
    case False
    from cw_array_push_granted [OF inv that(1) [unfolded call] False] that(2)
    show ?thesis by (auto simp: pushed_def vec_elem_def vec_count_def s s')
  qed
qed

end
