(* ===== verification/Array_Props.thy ===== *)
theory Array_Props
  imports Array
begin

text \<open>
  Creation and destruction of arrays (\<open>cw_array_create\<close>, \<open>cw_array_init\<close>,
  \<open>cw_array_destroy\<close>) and the properties of the array component, with a pool and an array
  to evaluate them on.
\<close>

section \<open>Creation\<close>

lemma cw_array_create_ok:
  assumes inv: "pool_inv h p rs" and c: "cw_array_create h p n sz = (h', p', Some (a, arr))"
    and pos: "0 < unat n" "0 < unat sz" and nw: "unat n * unat sz < 2 ^ 64"
  shows "array_inv h' p' arr ((a, sizeof_cw_array) # rs)"
    and "a_nelts arr = 0" and "a_size arr = sz" and "a_nalloc arr = n"
proof -
  obtain h1 p1 where c1: "cw_palloc h p sizeof_cw_array = (h1, p1, a)" and a: "a \<noteq> 0"
    and arr: "arr = \<lparr>a_elts = a_elts arr, a_nelts = 0, a_size = sz, a_nalloc = n\<rparr>"
    and c2: "cw_palloc h1 p1 (n * sz) = (h', p', a_elts arr)" and e: "a_elts arr \<noteq> 0"
    using c by (auto simp: cw_array_create_def cw_array_init_def Let_def cw_sizes split: prod.splits if_splits)
  have f: "a_nelts arr = 0" "a_size arr = sz" "a_nalloc arr = n" by (subst arr, simp)+
  then show "a_nelts arr = 0" "a_size arr = sz" "a_nalloc arr = n" by simp_all
  have "pool_inv h' p' ((a_elts arr, n * sz) # (a, sizeof_cw_array) # rs)"
    by (rule cw_palloc_granted(1) [OF cw_palloc_granted(1) [OF inv c1 a] c2 e])
  then show "array_inv h' p' arr ((a, sizeof_cw_array) # rs)"
    using pos nw f by (simp add: array_inv_def array_ok_def arr_region_def mult.commute)
qed

section \<open>Destruction\<close>

lemma release_at_last:
  assumes inv: "pool_inv h p ((e, n) # rs)" and pos: "0 < unat n" and ne: "\<forall>r\<in>set rs. snd r \<noteq> 0"
  shows "pool_inv h (if e + n = d_last p then set_d_last p e else p) rs"
proof (cases "e + n = d_last p")
  case True
  have "unat e + unat n < 2 ^ 64" using pool_region_bound [OF inv, of "(e, n)"] by simp
  then have "unat e + unat n = unat (d_last p)" using True by (metis unat_plus_nowrap)
  then show ?thesis using True shrink_last [OF inv _ pos ne] by simp
next
  case False
  then show ?thesis using pool_inv_drop [OF inv] by simp
qed

lemma cw_array_destroy_eq:
  "cw_array_destroy p a arr =
     (let e = a_elts arr; n = a_size arr * a_nalloc arr;
          p1 = (if e + n = d_last p then set_d_last p e else p)
      in if a + sizeof_cw_array = d_last p1 then set_d_last p1 a else p1)"
proof -
  have "a_elts arr + n = d_last p \<Longrightarrow> d_last p - n = a_elts arr" for n by (metis add_diff_cancel)
  then show ?thesis by (simp add: cw_array_destroy_def Let_def)
qed

lemma cw_array_destroy_ok:
  assumes inv: "array_inv h p arr ((a, sizeof_cw_array) # rs)" and ne: "\<forall>r\<in>set rs. snd r \<noteq> 0"
  shows "pool_inv h (cw_array_destroy p a arr) rs"
proof -
  let ?n = "a_size arr * a_nalloc arr"
  have ok: "array_ok arr" and pinv: "pool_inv h p ((a_elts arr, ?n) # (a, sizeof_cw_array) # rs)"
    using inv by (simp_all add: array_inv_def arr_region_def)
  have "0 < unat ?n" using array_size [OF ok] ok by (simp add: array_ok_def)
  moreover have "sizeof_cw_array \<noteq> 0" "0 < unat sizeof_cw_array" by (simp_all add: cw_sizes)
  ultimately show ?thesis
    using release_at_last [OF release_at_last [OF pinv]] ne
    unfolding cw_array_destroy_eq Let_def by auto
qed

text \<open>
  When the structure and the elements were both cut from the head block, one after the
  other, destroying the array takes \<open>last\<close> back to where the structure began.
\<close>

definition head_room :: "cw_pool \<Rightarrow> u64 \<Rightarrow> bool" where
  "head_room p n \<longleftrightarrow> p_blocks p \<noteq> [] \<and> p_current p = 0 \<and> n \<le> p_max p \<and>
     unat (cw_align_ptr (d_last p) CW_ALIGNMENT) + unat n \<le> unat (d_end p)"

lemma palloc_head:
  assumes "head_room p n"
  shows "cw_palloc h p n = (h, set_d_last p (cw_align_ptr (d_last p) CW_ALIGNMENT + n),
           cw_align_ptr (d_last p) CW_ALIGNMENT)"
proof -
  obtain b bs where bs: "p_blocks p = b # bs" using assms by (auto simp: head_room_def neq_Nil_conv)
  let ?m = "cw_align_ptr (b_last b) CW_ALIGNMENT"
  have "n \<le> b_end b - ?m"
    using assms room_iff [of ?m "b_end b" n] by (simp add: head_room_def d_last_def d_end_def bs)
  then show ?thesis
    using assms by (simp add: head_room_def cw_palloc_def cw_palloc_small_def bs Let_def d_last_def
        set_d_last_def cut_def)
qed

lemma set_d_last_simps [simp]:
  "p_blocks p \<noteq> [] \<Longrightarrow> d_last (set_d_last p x) = x"
  "p_blocks p \<noteq> [] \<Longrightarrow> d_end (set_d_last p x) = d_end p"
  "set_d_last (set_d_last p x) y = set_d_last p y"
  "p_current (set_d_last p x) = p_current p" "p_max (set_d_last p x) = p_max p"
  "p_blocks (set_d_last p x) = [] \<longleftrightarrow> p_blocks p = []"
  by (cases "p_blocks p"; simp add: d_last_def d_end_def set_d_last_def cut_def)+

section \<open>Requests to the C library are counted\<close>

lemma palloc_small_counts: "cw_palloc_small h p n al = (h', p', a) \<Longrightarrow> h_refused h \<le> h_refused h'"
  by (auto simp: cw_palloc_small_def cw_palloc_block_def request_defs Let_def dest: libc_request_counts
      split: prod.splits option.splits if_splits)

lemma palloc_large_counts: "cw_palloc_large h p n = (h', p', a) \<Longrightarrow> h_refused h \<le> h_refused h'"
  by (auto simp: cw_palloc_large_def request_defs Let_def cw_free_def dest!: libc_request_counts palloc_small_counts
      split: prod.splits option.splits if_splits)

lemma cw_palloc_counts: "cw_palloc h p n = (h', p', a) \<Longrightarrow> h_refused h \<le> h_refused h'"
  by (auto simp: cw_palloc_def dest: palloc_small_counts palloc_large_counts split: if_splits)

lemma cw_pnalloc_counts: "cw_pnalloc h p n = (h', p', a) \<Longrightarrow> h_refused h \<le> h_refused h'"
  by (auto simp: cw_pnalloc_def dest: palloc_small_counts palloc_large_counts split: if_splits)

lemma cw_array_push_world:
  assumes "cw_array_push h p a = (h', p', a', e)"
  shows "h_libc h' = h_libc h \<and> h_refused h \<le> h_refused h'"
  using assms
  by (cases rule: cw_array_push_cases) (auto dest: cw_palloc_counts cw_palloc_frame)

section \<open>What a push takes from the C library\<close>

lemma set_d_last_addrs [simp]: "p_blocks p \<noteq> [] \<Longrightarrow> pool_addrs (set_d_last p x) = pool_addrs p"
  by (cases "p_blocks p") (simp_all add: pool_addrs_def large_addrs_def set_d_last_def cut_def)

lemma cw_array_push_took:
  assumes inv: "array_inv h p a rs" and c: "cw_array_push h p a = (h', p', a', e)"
  shows "took h p h' p'"
proof -
  have pinv: "pool_inv h p (arr_region a # rs)" using inv by (simp add: array_inv_def)
  have ne: "p_blocks p \<noteq> []" using chain_okD(1) [OF pool_invD(2) [OF pinv]] by auto
  show ?thesis
    using c
  proof (cases rule: cw_array_push_cases)
    case room
    then show ?thesis by (intro tookI_same) simp_all
  next
    case (in_place b)
    then show ?thesis using ne by (intro tookI_same) simp_all
  next
    case failed
    then show ?thesis using cw_palloc_took [OF pinv] by blast
  next
    case (move h1 new b)
    have "took h p h1 p'" using cw_palloc_took [OF pinv] move(2) by blast
    then show ?thesis by (simp add: took_def move(4))
  qed
qed

section \<open>An array to evaluate\<close>

definition demo_array_pool :: cw_pool where
  "demo_array_pool = set_d_last demo_pool (4192 + 40 + 32)"

definition demo_array :: cw_array where
  "demo_array = \<lparr>a_elts = 4232, a_nelts = 0, a_size = 16, a_nalloc = 2\<rparr>"

lemma demo_array_create:
  "cw_array_create demo_heap demo_pool 2 16 = (demo_heap, demo_array_pool, Some (4192, demo_array))"
  by (simp add: cw_array_create_def cw_array_init_def demo_array_pool_def demo_array_def demo_pool_def
      set_d_last_def cut_def sizeof_cw_array_def pool_eval)

lemma demo_array_pool_eq:
  "demo_array_pool = demo_pool\<lparr>p_blocks := [\<lparr>b_addr = 4112, b_last = 4264, b_end = 5136, b_failed = 0\<rparr>]\<rparr>"
  by (simp add: demo_array_pool_def demo_pool_def set_d_last_def cut_def)

lemma demo_array_inv: "array_inv demo_heap demo_array_pool demo_array [(4192, 40)]"
  using cw_array_create_ok(1) [OF demo_inv demo_array_create] by (simp add: cw_sizes)

section \<open>Properties of the array\<close>

text \<open>
  C7: the contract of \<open>cw_array_push\<close>, on every branch (room left, growth in place, move to
  a region twice as large, refusal).  If it returns an element, the array has one more
  element, at that address; every earlier element has the bytes it had, wherever the array
  now lies; no other region of the pool's clients was written; and the invariant holds.  If
  it returns NULL, the C library refused a request and array, pool and memory are unchanged.
\<close>

theorem cw_array_push_contract:
  assumes "array_inv h p a rs" and "cw_array_push h p a = (h', p', a', e)"
  shows "if e \<noteq> 0 then pushed 1 h a rs h' p' a' e
         else a' = a \<and> p' = p \<and> refusal h h' \<and> array_inv h' p' a' rs \<and> h_mem h' = h_mem h"
  using cw_array_push_granted [OF assms] cw_array_push_refused [OF assms(1)] assms(2) by auto

theorem cw_array_push_contract_witness:
  "\<exists>h p a. cw_array_push demo_heap demo_array_pool demo_array = (h, p, a, 4232) \<and>
     pushed 1 demo_heap demo_array [(4192, 40)] h p a 4232"
proof -
  obtain h p a where c: "cw_array_push demo_heap demo_array_pool demo_array = (h, p, a, 4232)"
    by (simp add: cw_array_push_def demo_array_def Let_def)
  from cw_array_push_contract [OF demo_array_inv c] c show ?thesis by auto
qed

text \<open>
  C8: the contract of \<open>cw_array_push_n\<close>, for counts whose doubled capacity in bytes does
  not wrap: the \<open>n\<close> elements start at the address returned, the earlier elements and the
  other regions keep their bytes; NULL leaves the array as it was.
\<close>

theorem cw_array_push_n_contract:
  assumes "array_inv h p a rs" and "push_n_pre a n" and "cw_array_push_n h p a n = (h', p', a', e)"
  shows "if e \<noteq> 0 then pushed (unat n) h a rs h' p' a' e else a' = a \<and> p' = p \<and> refusal h h'"
proof -
  have pinv: "pool_inv h p (arr_region a # rs)" using assms(1) by (simp add: array_inv_def)
  show ?thesis
  proof (cases "a' = a \<and> e = 0 \<and> (\<exists>k. cw_palloc h p k = (h', p', 0))")
    case True
    then show ?thesis using cw_palloc_refused [OF pinv] by auto
  next
    case False
    then have u: "pushed (unat n) h a rs h' p' a' e" by (rule cw_array_push_n_result [OF assms])
    then have "e \<noteq> 0" unfolding pushed_def by blast
    with u show ?thesis by simp
  qed
qed

theorem cw_array_push_n_contract_witness:
  "\<exists>h p a. cw_array_push_n demo_heap demo_array_pool demo_array 5 = (h, p, a, 4232) \<and>
     unat (a_nelts a) = 5 \<and> unat (a_nalloc a) = 7"
proof -
  obtain h p a where c: "cw_array_push_n demo_heap demo_array_pool demo_array 5 = (h, p, a, 4232)"
    and n: "unat (a_nalloc a) = 7"
    by (simp add: cw_array_push_n_def demo_array_def demo_array_pool_def demo_pool_def d_last_def
        d_end_def set_d_last_def cut_def Let_def)
  have "push_n_pre demo_array 5" by (simp add: push_n_pre_def demo_array_def)
  from cw_array_push_n_contract [OF demo_array_inv this c] c n
  show ?thesis by (auto simp: pushed_def demo_array_def)
qed

text \<open>
  C9: after any number of pushes the array holds exactly the elements it held, unchanged and
  at the front, and one more for each push that did not return NULL.
\<close>

theorem cw_array_pushes:
  assumes "array_inv h p a rs" and "vec_pushes push_call k (h, p, a) = ((h', p', a'), got)"
  shows "unat (a_nelts a') = unat (a_nelts a) + got \<and> got \<le> k \<and>
    take (unat (a_nelts a)) (array_elems h' a') = array_elems h a"
proof -
  have "vec_inv (h, p, a)" using assms(1) by (auto simp: vec_inv_def)
  from vec.pushes [OF this assms(2)]
  have c: "unat (a_nelts a') = unat (a_nelts a) + got" "got \<le> k"
    and e: "\<forall>j<unat (a_nelts a). elem_bytes h' a' j = elem_bytes h a j"
    by (simp_all add: vec_count_def vec_elem_def)
  have "take (unat (a_nelts a)) (array_elems h' a') = map (elem_bytes h' a') [0..<unat (a_nelts a)]"
    by (simp add: array_elems_def take_map c)
  also have "\<dots> = array_elems h a" using e by (simp add: array_elems_def)
  finally show ?thesis using c by simp
qed

theorem cw_array_pushes_witness:
  "\<exists>h p a. vec_pushes push_call 5 (demo_heap, demo_array_pool, demo_array) = ((h, p, a), 5) \<and>
     unat (a_nelts a) = 5"
proof -
  have s: "(5 :: nat) = Suc (Suc (Suc (Suc (Suc 0))))" by simp
  obtain h p a where c: "vec_pushes push_call 5 (demo_heap, demo_array_pool, demo_array) = ((h, p, a), 5)"
    unfolding s by (simp add: push_call_def cw_array_push_def demo_array_def demo_array_pool_eq
        demo_pool_def d_last_def d_end_def set_d_last_def cut_def Let_def)
  from cw_array_pushes [OF demo_array_inv c] c show ?thesis by (auto simp: demo_array_def)
qed

text \<open>
  Destroying an array returns its regions to the pool without disturbing any other: the
  pool's invariant holds for the clients' remaining regions, as long as none is empty.
\<close>

theorem cw_array_destroy_releases:
  assumes "array_inv h p arr ((a, sizeof_cw_array) # rs)" and "\<forall>r\<in>set rs. snd r \<noteq> 0"
  shows "pool_inv h (cw_array_destroy p a arr) rs"
  using assms by (rule cw_array_destroy_ok)

theorem cw_array_destroy_releases_witness:
  "pool_inv demo_heap (cw_array_destroy demo_array_pool 4192 demo_array) []"
  by (rule cw_array_destroy_releases) (use demo_array_inv in \<open>simp_all add: cw_sizes\<close>)

text \<open>Creation where the head block has room: the structure, then the elements.\<close>

lemma align_idem:
  assumes "unat x + 7 < 2 ^ 64"
  shows "cw_align_ptr (cw_align_ptr x CW_ALIGNMENT) CW_ALIGNMENT = cw_align_ptr x CW_ALIGNMENT"
proof (rule word_unat_eq_iff [THEN iffD2])
  let ?m = "cw_align_ptr x CW_ALIGNMENT"
  note m = unat_align_8 [OF assms]
  have "unat ?m + 7 < 2 ^ 64" unfolding m using assms by simp presburger
  from unat_align_8 [OF this] show "unat (cw_align_ptr ?m CW_ALIGNMENT) = unat ?m"
    unfolding m by presburger
qed

lemma past_structure:
  assumes inv: "pool_inv h p rs" and r1: "head_room p sizeof_cw_array" and m: "m = cw_align_ptr (d_last p) CW_ALIGNMENT"
  shows "cw_align_ptr (m + sizeof_cw_array) CW_ALIGNMENT = m + sizeof_cw_array"
    and "unat (m + sizeof_cw_array) = unat m + 40" and "unat m + 40 \<le> unat (d_end p)" and "m \<noteq> 0"
proof -
  have low: "unat (d_end p) < 2 ^ 63" by (rule d_end_low [OF inv])
  have dl: "unat (d_last p) + 7 < 2 ^ 64" using d_last_below_end [OF inv] low by simp
  have m8: "unat m mod 8 = 0" unfolding m unat_align_8 [OF dl] by simp
  show fit: "unat m + 40 \<le> unat (d_end p)" using r1 by (simp add: head_room_def cw_sizes m)
  then show u40: "unat (m + sizeof_cw_array) = unat m + 40"
    using low by (subst unat_plus_nowrap) (simp_all add: cw_sizes)
  show "cw_align_ptr (m + sizeof_cw_array) CW_ALIGNMENT = m + sizeof_cw_array"
  proof (rule word_unat_eq_iff [THEN iffD2])
    have b: "unat (m + sizeof_cw_array) + 7 < 2 ^ 64" using u40 fit low by simp
    show "unat (cw_align_ptr (m + sizeof_cw_array) CW_ALIGNMENT) = unat (m + sizeof_cw_array)"
      unfolding unat_align_8 [OF b] u40 using m8 by presburger
  qed
  have "unat (d_last p) \<le> unat m" unfolding m unat_align_8 [OF dl] by presburger
  moreover have "0 < unat (d_last p)"
    using chain_okD(5) [OF pool_invD(2) [OF inv], of 0] r1 by (simp add: head_room_def block_ok_def blk_hdr_def d_last_def)
  ultimately show "m \<noteq> 0" by auto
qed

lemma create_head:
  assumes inv: "pool_inv h p rs" and r1: "head_room p sizeof_cw_array" and m: "m = cw_align_ptr (d_last p) CW_ALIGNMENT"
    and r2: "head_room (set_d_last p (m + sizeof_cw_array)) (n * sz)"
  shows "cw_array_create h p n sz = (h, set_d_last p (m + sizeof_cw_array + n * sz),
      Some (m, \<lparr>a_elts = m + sizeof_cw_array, a_nelts = 0, a_size = sz, a_nalloc = n\<rparr>))"
proof -
  have ne: "p_blocks p \<noteq> []" using r1 by (simp add: head_room_def)
  note M = past_structure [OF inv r1 m]
  have c1: "cw_palloc h p sizeof_cw_array = (h, set_d_last p (m + sizeof_cw_array), m)" unfolding m by (rule palloc_head [OF r1])
  have c2: "cw_palloc h (set_d_last p (m + sizeof_cw_array)) (n * sz) =
      (h, set_d_last p (m + sizeof_cw_array + n * sz), m + sizeof_cw_array)"
    using palloc_head [OF r2] ne M(1) by simp
  have "m + sizeof_cw_array \<noteq> 0" using M(2) by auto
  then show ?thesis using M(4) by (simp add: cw_array_create_def cw_array_init_def Let_def c1 c2)
qed

text \<open>
  C10: an array created where the head block has room, and destroyed at once, gives all its
  bytes back: the pool is the one before, up to the alignment of \<open>last\<close>.
\<close>

theorem cw_array_create_destroy:
  assumes "pool_inv h p rs" and "head_room p sizeof_cw_array"
    and "head_room (set_d_last p (cw_align_ptr (d_last p) CW_ALIGNMENT + sizeof_cw_array)) (n * sz)"
  shows "\<exists>p' a arr. cw_array_create h p n sz = (h, p', Some (a, arr)) \<and>
    cw_array_destroy p' a arr = set_d_last p (cw_align_ptr (d_last p) CW_ALIGNMENT)"
proof -
  have "p_blocks p \<noteq> []" using assms(2) by (simp add: head_room_def)
  then show ?thesis using create_head [OF assms(1,2) refl assms(3)] by (auto simp: cw_array_destroy_eq Let_def mult.commute)
qed

theorem cw_array_create_destroy_witness:
  "\<exists>p' a arr. cw_array_create demo_heap demo_pool 2 16 = (demo_heap, p', Some (a, arr)) \<and>
    cw_array_destroy p' a arr = demo_pool"
proof -
  have r: "head_room demo_pool sizeof_cw_array"
    "head_room (set_d_last demo_pool (cw_align_ptr (d_last demo_pool) CW_ALIGNMENT + sizeof_cw_array)) (2 * 16)"
    by (simp_all add: head_room_def demo_pool_def d_last_def d_end_def set_d_last_def cut_def cw_align_ptr_def cw_sizes)
  have "set_d_last demo_pool (cw_align_ptr (d_last demo_pool) CW_ALIGNMENT) = demo_pool"
    by (simp add: demo_pool_def d_last_def set_d_last_def cut_def cw_align_ptr_def cw_sizes)
  then show ?thesis using cw_array_create_destroy [OF demo_inv r] by simp
qed

text \<open>An empty request in the head block: it moves \<open>last\<close> to the next aligned address and no further.\<close>

lemma head_room_zero: "head_room p n \<Longrightarrow> head_room p 0"
  by (simp add: head_room_def)

lemma palloc_head_again:
  assumes r: "head_room p n" and low: "unat (d_last p) + 7 < 2 ^ 64" and m: "m = cw_align_ptr (d_last p) CW_ALIGNMENT"
  shows "cw_palloc h p 0 = (h, set_d_last p m, m)" and "cw_palloc h (set_d_last p m) n = (h, set_d_last p (m + n), m)"
proof -
  have ne: "p_blocks p \<noteq> []" using r by (simp add: head_room_def)
  show "cw_palloc h p 0 = (h, set_d_last p m, m)" using palloc_head [OF head_room_zero [OF r]] by (simp add: m)
  have al: "cw_align_ptr m CW_ALIGNMENT = m" unfolding m by (rule align_idem [OF low])
  then have "head_room (set_d_last p m) n" using r ne by (simp add: head_room_def flip: m)
  from palloc_head [OF this] show "cw_palloc h (set_d_last p m) n = (h, set_d_last p (m + n), m)"
    using al ne by simp
qed

lemma memcpy_nothing [simp]: "cw_memcpy m d s 0 = m"
  by (simp add: cw_memcpy_def fun_eq_iff)

text \<open>
  C11: an array created with capacity zero is not safe to push to once anything else was taken
  from its pool.  It cannot grow where it is, and twice nothing is nothing: the first push
  asks for zero bytes and returns the address where they would be, and the very next request to
  the pool is given that address.  The array counts one element against a capacity of zero; the
  push after that does not look at the capacity, for the two numbers differ, nor at the pool.
  Had nothing been taken in between, the first push would have grown the array in place.
  All this is for a head block with room for the requests.
\<close>

theorem cw_array_push_zero_capacity:
  assumes "pool_inv h p rs" and "head_room p sizeof_cw_array" and "cw_array_create h p 0 sz = (h1, p1, Some (x, a))"
    and "head_room p1 n" and "n \<noteq> 0" and "cw_palloc h1 p1 n = (h2, p2, b)"
    and "head_room p2 k" and "cw_array_push h2 p2 a = (h3, p3, a1, e)" and "cw_palloc h3 p3 k = (h4, p4, c)"
  shows "c = e \<and> e \<noteq> 0 \<and> a_nelts a1 = 1 \<and> a_nalloc a1 = 0 \<and>
    cw_array_push h4 p4 a1 = (h4, p4, a1\<lparr>a_nelts := 2\<rparr>, e + sz) \<and>
    (d_last p1 + sz \<le> d_end p1 \<longrightarrow>
       cw_array_push h1 p1 a = (h1, set_d_last p1 (d_last p1 + sz), a\<lparr>a_nelts := 1, a_nalloc := 1\<rparr>, a_elts a))"
proof -
  let ?m = "cw_align_ptr (d_last p) CW_ALIGNMENT"
  let ?m1 = "?m + sizeof_cw_array"
  define m2 where "m2 = cw_align_ptr (d_last p2) CW_ALIGNMENT"
  have ne: "p_blocks p \<noteq> []" using assms(2) by (simp add: head_room_def)
  have low: "unat (d_end p) < 2 ^ 63" by (rule d_end_low [OF assms(1)])
  note M = past_structure [OF assms(1,2) refl]
  have al: "cw_align_ptr ?m1 CW_ALIGNMENT = ?m1" by (rule M(1))
  have e1: "unat ?m1 \<le> unat (d_end p)" using M(2,3) by simp
  then have "head_room (set_d_last p ?m1) (0 * sz)" using assms(2) al ne by (simp add: head_room_def)
  from create_head [OF assms(1,2) refl this] have p1: "h1 = h" "p1 = set_d_last p ?m1"
    and a: "a = \<lparr>a_elts = ?m1, a_nelts = 0, a_size = sz, a_nalloc = 0\<rparr>"
    using assms(3) by simp_all
  have p2: "h2 = h" "p2 = set_d_last p (?m1 + n)"
    using palloc_head [OF assms(4), of h1, unfolded assms(6)] ne by (simp_all add: p1 al)
  have fit: "unat ?m1 + unat n \<le> unat (d_end p)" using assms(4) al ne by (simp add: head_room_def p1)
  then have u: "unat (?m1 + n) = unat ?m1 + unat n" using low by (intro unat_plus_nowrap) simp
  then have low2: "unat (d_last p2) + 7 < 2 ^ 64" using low ne fit by (simp add: p2)
  note P = palloc_head_again [OF assms(7) low2 m2_def, of h2]
  have "0 < unat (d_last p2)" using u M(2) ne by (simp add: p2)
  then have "0 < unat m2" unfolding m2_def unat_align_8 [OF low2] by presburger
  then have nz: "m2 \<noteq> 0" by auto
  have far: "a_elts a \<noteq> d_last p2" using assms(5) ne by (simp add: a p2)
  have push: "h3 = h2" "p3 = set_d_last p2 m2" "e = m2" "a1 = a\<lparr>a_elts := m2, a_nelts := 1\<rparr>"
    using far nz assms(8) by (auto simp: cw_array_push_def a P(1))
  have "c = m2" "h4 = h2" using P(2) assms(9) by (simp_all add: push)
  moreover have "cw_array_push h4 p4 a1 = (h4, p4, a1\<lparr>a_nelts := 2\<rparr>, e + sz)"
    by (simp add: cw_array_push_def push a)
  moreover have "cw_array_push h1 p1 a = (h1, set_d_last p1 (d_last p1 + sz), a\<lparr>a_nelts := 1, a_nalloc := 1\<rparr>, a_elts a)"
    if "d_last p1 + sz \<le> d_end p1"
    using that ne by (simp add: cw_array_push_def p1 a)
  ultimately show ?thesis using nz by (simp add: push a)
qed

theorem cw_array_push_zero_capacity_witness:
  "\<exists>p1 a p2 p3 a1 p4. cw_array_create demo_heap demo_pool 0 16 = (demo_heap, p1, Some (4192, a)) \<and>
     cw_palloc demo_heap p1 100 = (demo_heap, p2, 4232) \<and>
     cw_array_push demo_heap p2 a = (demo_heap, p3, a1, 4336) \<and> cw_palloc demo_heap p3 200 = (demo_heap, p4, 4336)"
proof -
  let ?p = "\<lambda>last. demo_pool\<lparr>p_blocks := [\<lparr>b_addr = 4112, b_last = last, b_end = 5136, b_failed = 0\<rparr>]\<rparr>"
  let ?a = "\<lparr>a_elts = 4232, a_nelts = 0, a_size = 16, a_nalloc = 0\<rparr>"
  have c: "cw_array_create demo_heap demo_pool 0 16 = (demo_heap, ?p 4232, Some (4192, ?a))"
    by (simp add: cw_array_create_def cw_array_init_def demo_pool_def cw_sizes pool_eval)
  have n: "cw_palloc demo_heap (?p 4232) 100 = (demo_heap, ?p 4332, 4232)" by (simp add: demo_pool_def pool_eval)
  have e: "cw_array_push demo_heap (?p 4332) ?a = (demo_heap, ?p 4336, ?a\<lparr>a_elts := 4336, a_nelts := 1\<rparr>, 4336)"
    by (simp add: cw_array_push_def demo_pool_def d_last_def pool_eval)
  obtain h4 p4 c where k: "cw_palloc demo_heap (?p 4336) 200 = (h4, p4, c)" using prod_cases3 by blast
  have r: "head_room demo_pool sizeof_cw_array" "head_room (?p 4232) 100" "head_room (?p 4332) 200"
    by (simp_all add: head_room_def demo_pool_def d_last_def d_end_def cw_align_ptr_def cw_sizes)
  have "c = 4336" using cw_array_push_zero_capacity [OF demo_inv r(1) c r(2) _ n r(3) e k] by simp
  moreover have "h4 = demo_heap" using k by (simp add: demo_pool_def pool_eval)
  ultimately show ?thesis using c n e k by blast
qed


end
