(* ===== verification/Cw_String.thy ===== *)
theory Cw_String
  imports Alloc
begin

text \<open>
  \<open>src/core/cw_string.c\<close>: the bounded string copy \<open>cw_cpystrn\<close>, over the byte
  memory of theory \<open>Alloc\<close>, and the number reader \<open>cw_atoi\<close>, over the \<open>n\<close> bytes
  at \<open>line\<close>.  The values of \<open>cw_atoi\<close> stay below \<open>2 ^ 31\<close>, so its
  \<open>cw_int_t\<close> (64 bits) is an integer here.
\<close>

section \<open>\<open>cw_cpystrn\<close>\<close>

text \<open>The loop \<open>while (--n)\<close>: \<open>k\<close> is the number of rounds it has left.\<close>

fun cpystrn_loop :: "(addr \<Rightarrow> u8) \<Rightarrow> addr \<Rightarrow> addr \<Rightarrow> nat \<Rightarrow> (addr \<Rightarrow> u8) \<times> addr" where
  "cpystrn_loop m dst src 0 = (m(dst := 0), dst)"
| "cpystrn_loop m dst src (Suc k) =
     (let m1 = m(dst := m src)
      in if m1 dst = 0 then (m1, dst) else cpystrn_loop m1 (dst + 1) (src + 1) k)"

definition cw_cpystrn :: "(addr \<Rightarrow> u8) \<Rightarrow> addr \<Rightarrow> addr \<Rightarrow> u64 \<Rightarrow> (addr \<Rightarrow> u8) \<times> addr" where
  "cw_cpystrn m dst src n = (if n = 0 then (m, dst) else cpystrn_loop m dst src (unat n - 1))"

text \<open>The memory holds the C string \<open>s\<close> at \<open>a\<close>: its bytes, none of them NUL, and a NUL.\<close>

definition bytes_at :: "(addr \<Rightarrow> u8) \<Rightarrow> addr \<Rightarrow> u8 list \<Rightarrow> bool" where
  "bytes_at m a bs \<longleftrightarrow> (\<forall>i<length bs. m (a + of_nat i) = bs ! i)"

definition cstring_at :: "(addr \<Rightarrow> u8) \<Rightarrow> addr \<Rightarrow> u8 list \<Rightarrow> bool" where
  "cstring_at m a s \<longleftrightarrow> 0 \<notin> set s \<and> bytes_at m a (s @ [0])"

lemma bytes_at_Nil [simp]: "bytes_at m a []"
  by (simp add: bytes_at_def)

lemma bytes_at_Cons [simp]: "bytes_at m a (b # bs) \<longleftrightarrow> m a = b \<and> bytes_at m (a + 1) bs"
proof -
  have "bytes_at m a (b # bs) \<longleftrightarrow> (\<forall>i<Suc (length bs). m (a + of_nat i) = (b # bs) ! i)"
    by (simp add: bytes_at_def)
  also have "\<dots> \<longleftrightarrow> m a = b \<and> (\<forall>i<length bs. m (a + 1 + of_nat i) = bs ! i)"
    unfolding All_less_Suc2 by (simp add: add.assoc)
  finally show ?thesis by (simp add: bytes_at_def)
qed

lemma bytes_at_cong:
  assumes "bytes_at m a bs" and "\<forall>i<length bs. m' (a + of_nat i) = m (a + of_nat i)"
  shows "bytes_at m' a bs"
  using assms by (simp add: bytes_at_def)

lemma inside_offset:
  assumes "unat (a :: addr) + n < 2 ^ 64" and "i < n"
  shows "unat (a + of_nat i) = unat a + i"
  using assms by (subst unat_plus_nowrap) (simp_all add: unat_of_nat_64)

lemma cstring_at_upd:
  assumes "cstring_at m src s" and "\<And>j. j \<le> length s \<Longrightarrow> dst \<noteq> src + of_nat j"
  shows "cstring_at (m(dst := c)) src s"
proof -
  have "(m(dst := c)) (src + of_nat i) = m (src + of_nat i)" if "i < length (s @ [0])" for i
    using assms(2) [of i] that by simp
  then have "bytes_at (m(dst := c)) src (s @ [0])"
    using assms(1) unfolding cstring_at_def by (blast intro: bytes_at_cong)
  then show ?thesis using assms(1) by (simp add: cstring_at_def)
qed

text \<open>What the copy of the rest leaves alone, with the first byte.\<close>

lemma outside_rest:
  assumes "\<forall>x. (\<forall>i\<le>n. x \<noteq> dst + 1 + of_nat i) \<longrightarrow> m' x = (m(dst := c)) x"
    and x: "\<forall>i\<le>Suc n. x \<noteq> dst + of_nat i"
  shows "m' x = m x"
proof -
  have "x \<noteq> dst" using x [rule_format, of 0] by simp
  moreover have "x \<noteq> dst + 1 + of_nat i" if "i \<le> n" for i
    using x [rule_format, of "Suc i"] that by (simp add: add.assoc)
  ultimately show ?thesis using assms(1) by simp
qed

lemma offset_not_self:
  assumes "unat (a :: addr) + Suc k < 2 ^ 64" and "i < k"
  shows "a \<noteq> a + 1 + of_nat i"
proof
  assume "a = a + 1 + of_nat i"
  then have "unat (a + of_nat (Suc i)) = unat a" by (simp add: add.assoc)
  then show False using inside_offset [of a "Suc k" "Suc i"] assms by simp
qed

text \<open>
  What a copy loop does: it writes only the \<open>Suc k\<close> bytes at \<open>dst\<close>, it leaves the
  longest prefix that fits and a NUL there, and it returns the address of the NUL.
\<close>

lemma cpystrn_loop_copies:
  assumes "cstring_at m src s" and "unat dst + Suc k < 2 ^ 64" and "unat src + Suc (length s) < 2 ^ 64"
    and "\<forall>i\<le>k. \<forall>j\<le>length s. dst + of_nat i \<noteq> src + of_nat j"
    and "cpystrn_loop m dst src k = (m', e)"
  shows "bytes_at m' dst (take k s @ [0]) \<and> e = dst + of_nat (min k (length s)) \<and>
     (\<forall>x. (\<forall>i\<le>min k (length s). x \<noteq> dst + of_nat i) \<longrightarrow> m' x = m x)"
  using assms
proof (induction k arbitrary: m dst src s)
  case 0
  then have "m' = m(dst := 0)" "e = dst" by auto
  then show ?case by simp
next
  case (Suc k)
  have far: "dst + of_nat i \<noteq> src + of_nat j" if "i \<le> Suc k" "j \<le> length s" for i j
    using Suc.prems(4) that by blast
  show ?case
  proof (cases s)
    case Nil
    then have "m src = 0" using Suc.prems(1) by (simp add: cstring_at_def)
    then have "m' = m(dst := 0)" "e = dst" using Suc.prems(5) by (auto simp: Let_def)
    then show ?thesis using Nil by simp
  next
    case (Cons c cs)
    then have c: "m src = c" "c \<noteq> 0" "cstring_at m (src + 1) cs"
      using Suc.prems(1) by (auto simp: cstring_at_def)
    have call: "cpystrn_loop (m(dst := c)) (dst + 1) (src + 1) k = (m', e)"
      using Suc.prems(5) c by (simp add: Let_def)
    have far1: "dst + of_nat i \<noteq> src + 1 + of_nat j" if "i \<le> Suc k" "j \<le> length cs" for i j
      using far [of i "Suc j"] that by (simp add: Cons add.assoc)
    have 1: "cstring_at (m(dst := c)) (src + 1) cs"
      using cstring_at_upd [OF c(3)] far1 [of 0] by simp
    have 2: "unat (dst + 1) + Suc k < 2 ^ 64" "unat (src + 1) + Suc (length cs) < 2 ^ 64"
      using Suc.prems(2,3) by (simp_all add: Cons unat_plus_nowrap)
    have 3: "\<forall>i\<le>k. \<forall>j\<le>length cs. dst + 1 + of_nat i \<noteq> src + 1 + of_nat j"
      using far1 [of "Suc _"] by (simp add: add.assoc)
    from Suc.IH [OF 1 2 3 call]
    have ih: "bytes_at m' (dst + 1) (take k cs @ [0])" "e = dst + 1 + of_nat (min k (length cs))"
      "\<forall>x. (\<forall>i\<le>min k (length cs). x \<noteq> dst + 1 + of_nat i) \<longrightarrow> m' x = (m(dst := c)) x"
      by blast+
    have "m' dst = c" using ih(3) offset_not_self [OF Suc.prems(2)] by simp
    then show ?thesis using ih(1,2) outside_rest [OF ih(3)] by (simp add: Cons add.assoc)
  qed
qed

section \<open>\<open>cw_atoi\<close>\<close>

definition CW_MAX_INT_T_VALUE :: int where [cw_sizes]: "CW_MAX_INT_T_VALUE = 2147483647"

fun atoi_loop :: "int \<Rightarrow> u8 list \<Rightarrow> int" where
  "atoi_loop value [] = value"
| "atoi_loop value (c # line) =
     (let cutoff = CW_MAX_INT_T_VALUE div 10; cutlim = CW_MAX_INT_T_VALUE mod 10
      in if c < 48 \<or> c > 57 then CW_ERROR
         else if value \<ge> cutoff \<and> (value > cutoff \<or> uint c - 48 > cutlim) then CW_ERROR
         else atoi_loop (value * 10 + (uint c - 48)) line)"

definition cw_atoi :: "u8 list \<Rightarrow> int" where
  "cw_atoi line = (if length line = 0 then CW_ERROR else atoi_loop 0 line)"

text \<open>The specification: the decimal value of a string of digits, as an unbounded integer.\<close>

definition is_digit :: "u8 \<Rightarrow> bool" where
  "is_digit c \<longleftrightarrow> 48 \<le> c \<and> c \<le> 57"

definition dec_from :: "int \<Rightarrow> u8 list \<Rightarrow> int" where
  "dec_from v line = foldl (\<lambda>v c. v * 10 + (uint c - 48)) v line"

definition dec_value :: "u8 list \<Rightarrow> int" where
  "dec_value line = dec_from 0 line"

lemma dec_from_simps [simp]:
  "dec_from v [] = v" "dec_from v (c # line) = dec_from (v * 10 + (uint c - 48)) line"
  by (simp_all add: dec_from_def)

lemma digit_bounds: "is_digit c \<Longrightarrow> 0 \<le> uint c - 48 \<and> uint c - 48 \<le> 9"
  by (simp add: is_digit_def word_le_def)

lemma not_digit: "(c < 48 \<or> c > 57) \<longleftrightarrow> \<not> is_digit (c :: u8)"
  by (auto simp: is_digit_def word_less_def word_le_def)

lemma dec_from_mono:
  "\<forall>c\<in>set line. is_digit c \<Longrightarrow> 0 \<le> v \<Longrightarrow> v \<le> dec_from v line"
proof (induction line arbitrary: v)
  case (Cons c line)
  have "v \<le> v * 10 + (uint c - 48)" "0 \<le> v * 10 + (uint c - 48)"
    using digit_bounds [of c] Cons.prems by simp_all
  moreover have "v * 10 + (uint c - 48) \<le> dec_from (v * 10 + (uint c - 48)) line"
    using Cons.IH [OF _ calculation(2)] Cons.prems(1) by simp
  then show ?case unfolding dec_from_simps
    using \<open>v \<le> v * 10 + (uint c - 48)\<close> by (rule order_trans [rotated])
qed simp

lemma atoi_loop_value:
  "0 \<le> v \<Longrightarrow> v \<le> 2147483647 \<Longrightarrow>
     atoi_loop v line =
       (if (\<forall>c\<in>set line. is_digit c) \<and> dec_from v line \<le> 2147483647 then dec_from v line else -1)"
proof (induction line arbitrary: v)
  case (Cons c line)
  show ?case
  proof (cases "is_digit c")
    case False
    then show ?thesis using not_digit [of c] by (simp add: cw_sizes)
  next
    case True
    note d = digit_bounds [OF True]
    let ?v = "v * 10 + (uint c - 48)"
    have cut: "(214748364 \<le> v \<and> (214748364 < v \<or> 7 < uint c - 48)) \<longleftrightarrow> 2147483647 < ?v"
      using d Cons.prems(1) by presburger
    have step: "atoi_loop v (c # line) = (if 2147483647 < ?v then -1 else atoi_loop ?v line)"
      using not_digit [of c] True cut by (simp add: cw_sizes Let_def)
    have v0: "0 \<le> ?v" using d Cons.prems(1) by simp
    show ?thesis
    proof (cases "2147483647 < ?v")
      case big: True
      then have "2147483647 < dec_from ?v line" if "\<forall>c\<in>set line. is_digit c"
        using dec_from_mono [OF that v0] by (rule less_le_trans)
      then show ?thesis using big True unfolding step by auto
    next
      case False
      then show ?thesis unfolding step using Cons.IH [OF v0] True by simp
    qed
  qed
qed simp

text \<open>The decimal notation of a number, to state the round trip.\<close>

fun show_dec :: "nat \<Rightarrow> u8 list" where
  "show_dec n = (if n < 10 then [of_nat (48 + n)] else show_dec (n div 10) @ [of_nat (48 + n mod 10)])"

declare show_dec.simps [simp del]

lemma digit_byte: "n < 10 \<Longrightarrow> is_digit (of_nat (48 + n)) \<and> uint (of_nat (48 + n) :: u8) = 48 + int n"
  by (simp add: is_digit_def word_le_def unsigned_of_nat take_bit_nat_eq_self uint_word_of_int_eq
      flip: of_nat_add)

lemma show_dec_value: "show_dec n \<noteq> [] \<and> (\<forall>c\<in>set (show_dec n). is_digit c) \<and> dec_value (show_dec n) = int n"
proof (induction n rule: show_dec.induct)
  case (1 n)
  show ?case
  proof (cases "n < 10")
    case True
    then show ?thesis using digit_byte [of n] by (simp add: show_dec.simps [of n] dec_value_def)
  next
    case False
    then show ?thesis
      using 1 digit_byte [of "n mod 10"] zdiv_int [of n 10] zmod_int [of n 10]
      by (auto simp: show_dec.simps [of n] dec_value_def dec_from_def)
  qed
qed

section \<open>Properties of the strings\<close>

text \<open>
  C12: \<open>cw_atoi\<close> is exact: a non-empty string of digits whose value is at most
  \<open>CW_MAX_INT_T_VALUE\<close> is read as its value, and every other string gives \<open>CW_ERROR\<close>.
\<close>

theorem cw_atoi_spec:
  "cw_atoi line = (if line \<noteq> [] \<and> list_all is_digit line \<and> dec_value line \<le> CW_MAX_INT_T_VALUE
                   then dec_value line else CW_ERROR)"
  by (auto simp: cw_atoi_def atoi_loop_value dec_value_def cw_sizes list_all_iff)

text \<open>The decimal notation of a number that fits is read back as that number.\<close>

theorem cw_atoi_show:
  "cw_atoi (show_dec n) = (if int n \<le> CW_MAX_INT_T_VALUE then int n else CW_ERROR)"
  using show_dec_value [of n]
  by (auto simp: cw_atoi_def atoi_loop_value dec_value_def cw_sizes)

lemma cpystrn_result:
  assumes "cstring_at m src s" and "n \<noteq> 0"
    and "unat dst + unat n < 2 ^ 64" and "unat src + Suc (length s) < 2 ^ 64"
    and "rdisj (dst, n) (src, of_nat (Suc (length s)))"
    and "cw_cpystrn m dst src n = (m', e)"
  shows "cstring_at m' dst (take (unat n - 1) s) \<and>
     e = dst + of_nat (min (unat n - 1) (length s)) \<and>
     (\<forall>x. \<not> inside x (dst, n) \<longrightarrow> m' x = m x)"
proof -
  have n: "0 < unat n" using assms(2) by (simp add: unat_gt_0)
  have c: "cpystrn_loop m dst src (unat n - 1) = (m', e)" using assms(2,6) by (simp add: cw_cpystrn_def)
  have "dst + of_nat i \<noteq> src + of_nat j" if "i < unat n" "j < Suc (length s)" for i j
  proof -
    have len: "unat (of_nat (Suc (length s)) :: u64) = Suc (length s)"
      using assms(4) by (intro unat_of_nat_64) simp
    then have "(of_nat (Suc (length s)) :: u64) \<noteq> 0" by auto
    then show ?thesis
      using assms(2,5) inside_offset [OF assms(3) that(1)] inside_offset [OF assms(4) that(2)] that
      by (auto simp: rdisj_def len simp del: of_nat_Suc)
  qed
  then have far: "\<forall>i\<le>unat n - 1. \<forall>j\<le>length s. dst + of_nat i \<noteq> src + of_nat j"
    using n by (auto simp: less_Suc_eq_le)
  have r: "bytes_at m' dst (take (unat n - 1) s @ [0])" "e = dst + of_nat (min (unat n - 1) (length s))"
    "\<forall>x. (\<forall>i\<le>min (unat n - 1) (length s). x \<noteq> dst + of_nat i) \<longrightarrow> m' x = m x"
    using cpystrn_loop_copies [OF assms(1) _ assms(4) far c] assms(3) n by auto
  have "m' x = m x" if "\<not> inside x (dst, n)" for x
  proof -
    have "x \<noteq> dst + of_nat i" if "i \<le> unat n - 1" for i
    proof -
      have i: "i < unat n" using that n by simp
      then show ?thesis
        using inside_offset [OF assms(3) i] \<open>\<not> inside x (dst, n)\<close> by (auto simp: inside_def)
    qed
    then show ?thesis using r(3) by simp
  qed
  moreover have "0 \<notin> set (take (unat n - 1) s)"
    using assms(1) set_take_subset [of "unat n - 1" s] by (auto simp: cstring_at_def)
  ultimately show ?thesis using r(1,2) by (simp add: cstring_at_def)
qed

text \<open>
  C13: \<open>cw_cpystrn\<close> writes at most \<open>n\<close> bytes, all of them at \<open>dst\<close>; what it
  leaves there is the longest prefix of the source that fits, ended by a NUL, and the address
  it returns is the one of that NUL.
\<close>

theorem cw_cpystrn_spec:
  assumes "cstring_at m src s" and "n \<noteq> 0"
    and "unat dst + unat n < 2 ^ 64" and "unat src + Suc (length s) < 2 ^ 64"
    and "rdisj (dst, n) (src, of_nat (Suc (length s)))"
    and "cw_cpystrn m dst src n = (m', e)"
  shows "cstring_at m' dst (take (unat n - 1) s) \<and>
     e = dst + of_nat (min (unat n - 1) (length s)) \<and>
     (\<forall>x. \<not> inside x (dst, n) \<longrightarrow> m' x = m x)"
  using assms by (rule cpystrn_result)

theorem cw_cpystrn_spec_witness:
  "\<exists>m' e. cw_cpystrn ((\<lambda>x. 0)(100 := 97, 101 := 98, 102 := 99)) 200 100 3 = (m', e) \<and>
     e = 202 \<and> cstring_at m' 200 [97, 98]"
proof -
  let ?m = "(\<lambda>x. 0)(100 := 97, 101 := 98, 102 := 99) :: addr \<Rightarrow> u8"
  obtain m' e where c: "cw_cpystrn ?m 200 100 3 = (m', e)" by (cases "cw_cpystrn ?m 200 100 3")
  have s: "cstring_at ?m 100 [97, 98, 99]" by (simp add: cstring_at_def)
  from cw_cpystrn_spec [OF s _ _ _ _ c] show ?thesis using c by (simp add: rdisj_def)
qed

end
