(* ===== verification/Files.thy ===== *)
theory Files
  imports Prelude
begin

text \<open>
  \<open>src/os/unix/cw_files.[ch]\<close> and \<open>src/core/cw_file.h\<close>: files read through the
  operating system.  The system calls are not part of the sources: \<open>sys\<close> holds what each
  of them answers (as a function of the time of the call and its arguments) and the state of
  the system the code can see, the descriptors that are open and their read positions.
\<close>

section \<open>The operating system\<close>

record sys =
  sy_open :: "nat \<Rightarrow> u8 list \<Rightarrow> int"
  sy_fstat :: "nat \<Rightarrow> int \<Rightarrow> int option"
  sy_pread :: "nat \<Rightarrow> int \<Rightarrow> nat \<Rightarrow> int \<Rightarrow> u8 list option"
  sy_lseek :: "nat \<Rightarrow> int \<Rightarrow> int \<Rightarrow> int"
  sy_close :: "nat \<Rightarrow> int \<Rightarrow> int"
  sy_time :: nat
  sy_fds :: "int list"
  sy_pos :: "int \<Rightarrow> int"

definition tick :: "sys \<Rightarrow> sys" where
  "tick s = s\<lparr>sy_time := Suc (sy_time s)\<rparr>"

definition CW_INVALID_FILE :: int where [cw_sizes]: "CW_INVALID_FILE = -1"
definition CW_FILE_ERROR :: int where [cw_sizes]: "CW_FILE_ERROR = -1"

text \<open>\<open>cw_open_file\<close> is \<open>open\<close> for reading: a new descriptor at position 0, or -1.\<close>

definition cw_open_file :: "sys \<Rightarrow> u8 list \<Rightarrow> sys \<times> int" where
  "cw_open_file s name =
     (let fd = sy_open s (sy_time s) name; s1 = tick s
      in if fd = CW_INVALID_FILE then (s1, fd)
         else (s1\<lparr>sy_fds := fd # sy_fds s1, sy_pos := (sy_pos s1)(fd := 0)\<rparr>, fd))"

text \<open>\<open>cw_close_file\<close> is \<open>close\<close>: the descriptor is gone also when an error is reported.\<close>

definition cw_close_file :: "sys \<Rightarrow> int \<Rightarrow> sys \<times> int" where
  "cw_close_file s fd =
     (let s1 = tick s in (s1\<lparr>sy_fds := remove1 fd (sy_fds s1)\<rparr>, sy_close s (sy_time s) fd))"

text \<open>\<open>cw_fd_info\<close> is \<open>fstat\<close>; of the answer the code uses only the size of the file.\<close>

definition cw_fd_info :: "sys \<Rightarrow> int \<Rightarrow> sys \<times> int option" where
  "cw_fd_info s fd = (tick s, sy_fstat s (sy_time s) fd)"

section \<open>Files\<close>

record cw_file =
  f_fd :: int
  f_name :: "u8 list"
  f_size :: int
  f_offset :: int
  f_sys_offset :: int

text \<open>
  \<open>cw_read_file\<close> where the configuration found \<open>pread\<close> (\<open>CW_HAVE_PREAD\<close>).
  \<open>None\<close> stands for \<open>CW_ERROR\<close>; otherwise the bytes put into the buffer, whose
  number is the value returned.
\<close>

definition cw_read_file :: "sys \<Rightarrow> cw_file \<Rightarrow> nat \<Rightarrow> int \<Rightarrow> sys \<times> cw_file \<times> u8 list option" where
  "cw_read_file s file n offset =
     (case sy_pread s (sy_time s) (f_fd file) n offset of
        None \<Rightarrow> (tick s, file, None)
      | Some bs \<Rightarrow> (tick s, file\<lparr>f_offset := f_offset file + int (length bs)\<rparr>, Some bs))"

text \<open>
  \<open>cw_read_file\<close> without \<open>pread\<close>: \<open>lseek\<close> when the position the code remembers is
  not the one wanted, then \<open>read\<close>, which answers as \<open>pread\<close> does at the position of
  the descriptor and moves it.
\<close>

definition cw_read_file_seek :: "sys \<Rightarrow> cw_file \<Rightarrow> nat \<Rightarrow> int \<Rightarrow> sys \<times> cw_file \<times> u8 list option" where
  "cw_read_file_seek s file n offset =
     (let fd = f_fd file;
          rd = (\<lambda>s file.
            case sy_pread s (sy_time s) fd n (sy_pos s fd) of
              None \<Rightarrow> (tick s, file, None)
            | Some bs \<Rightarrow>
                ((tick s)\<lparr>sy_pos := (sy_pos s)(fd := sy_pos s fd + int (length bs))\<rparr>,
                 file\<lparr>f_sys_offset := f_sys_offset file + int (length bs),
                      f_offset := f_offset file + int (length bs)\<rparr>, Some bs))
      in if f_sys_offset file \<noteq> offset
         then if sy_lseek s (sy_time s) fd offset = -1 then (tick s, file, None)
              else rd ((tick s)\<lparr>sy_pos := (sy_pos s)(fd := offset)\<rparr>) (file\<lparr>f_sys_offset := offset\<rparr>)
         else rd s file)"

lemma tick_simps [simp]:
  "sy_time (tick s) = Suc (sy_time s)" "sy_fds (tick s) = sy_fds s" "sy_pos (tick s) = sy_pos s"
  "sy_open (tick s) = sy_open s" "sy_fstat (tick s) = sy_fstat s" "sy_pread (tick s) = sy_pread s"
  "sy_close (tick s) = sy_close s" "sy_lseek (tick s) = sy_lseek s"
  by (simp_all add: tick_def)

lemma cw_read_file_frame [cw_frame]:
  assumes "cw_read_file s f n off = (s', f', r)"
  shows "sy_fds s' = sy_fds s" and "f_fd f' = f_fd f" and "f_size f' = f_size f" and "f_name f' = f_name f"
    and "sy_pread s' = sy_pread s" and "sy_close s' = sy_close s"
    and "f_offset f' = f_offset f + (case r of None \<Rightarrow> 0 | Some bs \<Rightarrow> int (length bs))"
  using assms by (auto simp: cw_read_file_def split: option.splits)

text \<open>
  The remembered position is right: it is the position of the descriptor.  A fresh
  \<open>cw_file_t\<close> whose remembered position is garbage is right too, as long as it differs from
  the offset asked for.
\<close>

definition seek_ok :: "sys \<Rightarrow> cw_file \<Rightarrow> int \<Rightarrow> bool" where
  "seek_ok s f offset \<longleftrightarrow> f_sys_offset f = offset \<longrightarrow> sy_pos s (f_fd f) = offset"

definition pread_steady :: "sys \<Rightarrow> int \<Rightarrow> bool" where
  "pread_steady s fd \<longleftrightarrow>
     (\<forall>t t' n off. sy_pread s t fd n off = sy_pread s t' fd n off) \<and> (\<forall>t off. 0 \<le> off \<longrightarrow> sy_lseek s t fd off \<noteq> -1)"

definition demo_sys :: "u8 list \<Rightarrow> sys" where
  "demo_sys txt =
     \<lparr>sy_open = (\<lambda>t name. 3), sy_fstat = (\<lambda>t fd. Some (int (length txt))),
      sy_pread = (\<lambda>t fd n off. Some (take n (drop (nat off) txt))),
      sy_lseek = (\<lambda>t fd off. off), sy_close = (\<lambda>t fd. 0), sy_time = 0, sy_fds = [],
      sy_pos = (\<lambda>fd. 0)\<rparr>"

section \<open>Property\<close>

text \<open>
  C14: the two builds of \<open>cw_read_file\<close> agree: on a file whose contents do not change and
  whose descriptor can seek, reading with \<open>lseek\<close> and \<open>read\<close> gives the same bytes
  and the same next offset as \<open>pread\<close>, and the remembered position is right afterwards.
\<close>

theorem cw_read_file_variants_agree:
  assumes "pread_steady s (f_fd f)" and "seek_ok s f off" and "0 \<le> off"
    and "cw_read_file s f n off = (s1, f1, r1)" and "cw_read_file_seek s f n off = (s2, f2, r2)"
  shows "r2 = r1 \<and> f_offset f2 = f_offset f1 \<and>
    (r2 \<noteq> None \<longrightarrow> f_sys_offset f2 = sy_pos s2 (f_fd f2) \<and> f_sys_offset f2 = off + int (length (the r2)))"
proof -
  have same: "sy_pread s t (f_fd f) n off = sy_pread s (sy_time s) (f_fd f) n off" for t
    using assms(1) by (simp add: pread_steady_def)
  have seek: "sy_lseek s (sy_time s) (f_fd f) off \<noteq> -1" using assms(1,3) by (simp add: pread_steady_def)
  show ?thesis
  proof (cases "f_sys_offset f = off")
    case True
    then have "sy_pos s (f_fd f) = off" using assms(2) by (simp add: seek_ok_def)
    then show ?thesis using assms(4,5) True
      by (auto simp: cw_read_file_def cw_read_file_seek_def Let_def split: option.splits)
  next
    case False
    then show ?thesis using assms(4,5) seek same [of "Suc (sy_time s)"]
      by (auto simp: cw_read_file_def cw_read_file_seek_def Let_def split: option.splits)
  qed
qed

theorem cw_read_file_variants_agree_witness:
  "snd (snd (cw_read_file_seek (demo_sys [97, 98, 99, 100]) \<lparr>f_fd = 3, f_name = [], f_size = 4,
     f_offset = 1, f_sys_offset = 0\<rparr> 2 1)) = Some [98, 99]"
proof -
  let ?s = "demo_sys [97, 98, 99, 100]"
  let ?f = "\<lparr>f_fd = 3, f_name = [], f_size = 4, f_offset = 1, f_sys_offset = 0\<rparr>"
  obtain s2 f2 r2 where c: "cw_read_file_seek ?s ?f 2 1 = (s2, f2, r2)" using prod_cases3 by blast
  have r: "cw_read_file ?s ?f 2 1 = (tick ?s, ?f\<lparr>f_offset := 3\<rparr>, Some [98, 99])"
    by (simp add: cw_read_file_def demo_sys_def tick_def numeral_2_eq_2)
  have "pread_steady ?s (f_fd ?f)" "seek_ok ?s ?f 1"
    by (auto simp: pread_steady_def seek_ok_def demo_sys_def)
  from cw_read_file_variants_agree [OF this _ r c] c show ?thesis by simp
qed

end
