(* ===== verification/Conf_Data.thy ===== *)
theory Conf_Data
  imports Array Memory Cw_String Files
begin

text \<open>
  The data of the configuration reader: \<open>src/core/cw_conf_file.h\<close>,
  \<open>src/core/cw_buf.h\<close>, and the configuration of the core module,
  \<open>cw_core_conf_t\<close> of \<open>src/core/cw_cycle.h\<close>.

  The bytes of the read buffer and of each parsed word are objects of their own (a function
  from offsets, a list); the addresses they have in the heap or in the pool are kept beside
  them, because the code tests and frees them.  Pointer cells of the configuration contexts
  (\<open>void **\<close>) and core configurations are stores indexed by address.
\<close>

section \<open>Constants\<close>

definition CW_CONF_BUFFER :: nat where [cw_sizes]: "CW_CONF_BUFFER = 4096"

definition CW_CONF_BLOCK_START :: int where [cw_sizes]: "CW_CONF_BLOCK_START = 1"
definition CW_CONF_BLOCK_DONE :: int where [cw_sizes]: "CW_CONF_BLOCK_DONE = 2"
definition CW_CONF_FILE_DONE :: int where [cw_sizes]: "CW_CONF_FILE_DONE = 3"

definition CW_CONF_NOARGS :: u64 where "CW_CONF_NOARGS = 0x00000001"
definition CW_CONF_TAKE1 :: u64 where "CW_CONF_TAKE1 = 0x00000002"
definition CW_CONF_TAKE2 :: u64 where "CW_CONF_TAKE2 = 0x00000004"
definition CW_CONF_TAKE3 :: u64 where "CW_CONF_TAKE3 = 0x00000008"
definition CW_CONF_TAKE4 :: u64 where "CW_CONF_TAKE4 = 0x00000010"
definition CW_CONF_TAKE5 :: u64 where "CW_CONF_TAKE5 = 0x00000020"
definition CW_CONF_TAKE6 :: u64 where "CW_CONF_TAKE6 = 0x00000040"
definition CW_CONF_TAKE7 :: u64 where "CW_CONF_TAKE7 = 0x00000080"
definition CW_CONF_MAX_ARGS :: u64 where "CW_CONF_MAX_ARGS = 8"
definition CW_CONF_BLOCK :: u64 where "CW_CONF_BLOCK = 0x00000100"
definition CW_CONF_FLAG :: u64 where "CW_CONF_FLAG = 0x00000200"
definition CW_CONF_ANY :: u64 where "CW_CONF_ANY = 0x00000400"
definition CW_CONF_1MORE :: u64 where "CW_CONF_1MORE = 0x00000800"
definition CW_CONF_2MORE :: u64 where "CW_CONF_2MORE = 0x00001000"
definition CW_DIRECT_CONF :: u64 where "CW_DIRECT_CONF = 0x00010000"
definition CW_MAIN_CONF :: u64 where "CW_MAIN_CONF = 0x01000000"
definition CW_CORE_MODULE :: u64 where "CW_CORE_MODULE = 0x45524F43"
definition CW_CONF_MODULE :: u64 where "CW_CONF_MODULE = 0x464E4F43"

lemmas conf_bits = CW_CONF_NOARGS_def CW_CONF_TAKE1_def CW_CONF_TAKE2_def CW_CONF_TAKE3_def
  CW_CONF_TAKE4_def CW_CONF_TAKE5_def CW_CONF_TAKE6_def CW_CONF_TAKE7_def CW_CONF_MAX_ARGS_def
  CW_CONF_BLOCK_def CW_CONF_FLAG_def CW_CONF_ANY_def CW_CONF_1MORE_def CW_CONF_2MORE_def
  CW_DIRECT_CONF_def CW_MAIN_CONF_def CW_CORE_MODULE_def CW_CONF_MODULE_def

text \<open>\<open>argument_number\<close>, the bit of each number of arguments after the name.\<close>

definition argument_number :: "u64 list" where
  "argument_number = [CW_CONF_NOARGS, CW_CONF_TAKE1, CW_CONF_TAKE2, CW_CONF_TAKE3,
     CW_CONF_TAKE4, CW_CONF_TAKE5, CW_CONF_TAKE6, CW_CONF_TAKE7]"

text \<open>What a directive returns: \<open>CW_CONF_OK\<close>, \<open>CW_CONF_ERROR\<close> or a message.\<close>

datatype conf_rv = ConfOk | ConfError | ConfMsg string

section \<open>Messages\<close>

datatype conf_msg =
    UnexpectedEndOfParam
  | UnexpectedEndOfFile
  | TooLongParam nat
  | MissingTerminator u8
  | ReadFailed
  | ShortRead int int
  | UnexpectedChar u8
  | UnexpectedEndOfBlock
  | BlockInParam
  | HandlerMsg string
  | OpenFailed "u8 list"
  | InfoFailed "u8 list"
  | CloseFailed "u8 list"
  | NotTerminated "u8 list"
  | NoOpening "u8 list"
  | InvalidArgs "u8 list"
  | NotAllowed "u8 list"
  | UnknownDirective "u8 list"
  | DirectiveMsg "u8 list" string

section \<open>Strings, buffers and files\<close>

text \<open>A \<open>cw_str_t\<close> of the argument array: the address of its data and its bytes.\<close>

record cw_str =
  s_data :: addr
  s_bytes :: "u8 list"

definition sizeof_cw_str :: u64 where [cw_sizes]: "sizeof_cw_str = 16"

text \<open>
  The two fields in memory: \<open>len\<close> at the address of the structure, \<open>data\<close> behind it.
  \<open>args_of\<close> reads an array of them, which is what \<open>cf->args->elts\<close> holds.
\<close>

definition set_data :: "addr \<Rightarrow> addr \<Rightarrow> heap \<Rightarrow> heap" where
  "set_data e data h = h\<lparr>h_mem := store_word (h_mem h) (e + 8) data\<rparr>"

definition set_len :: "addr \<Rightarrow> u64 \<Rightarrow> heap \<Rightarrow> heap" where
  "set_len e len h = h\<lparr>h_mem := store_word (h_mem h) e len\<rparr>"

definition write_bytes :: "addr \<Rightarrow> u8 list \<Rightarrow> heap \<Rightarrow> heap" where
  "write_bytes a bs h = h\<lparr>h_mem := store_bytes (h_mem h) a bs\<rparr>"

definition str_at :: "(addr \<Rightarrow> u8) \<Rightarrow> addr \<Rightarrow> cw_str" where
  "str_at m e = \<lparr>s_data = load_word m (e + 8), s_bytes = mem_bytes m (load_word m (e + 8)) (unat (load_word m e))\<rparr>"

lemma str_store_simps [simp]:
  "h_live (set_data e d h) = h_live h" "h_libc (set_data e d h) = h_libc h" "h_refused (set_data e d h) = h_refused h"
  "h_fault (set_data e d h) = h_fault h" "pool_inv (set_data e d h) p rs = pool_inv h p rs"
  "h_live (set_len e n h) = h_live h" "h_libc (set_len e n h) = h_libc h" "h_refused (set_len e n h) = h_refused h"
  "h_fault (set_len e n h) = h_fault h" "pool_inv (set_len e n h) p rs = pool_inv h p rs"
  "h_live (write_bytes d bs h) = h_live h" "h_libc (write_bytes d bs h) = h_libc h"
  "h_refused (write_bytes d bs h) = h_refused h" "h_fault (write_bytes d bs h) = h_fault h"
  "pool_inv (write_bytes d bs h) p rs = pool_inv h p rs"
  by (simp_all add: set_data_def set_len_def write_bytes_def pool_inv_mem)

lemma str_store_others [simp]:
  "others (set_data e d h) p = others h p" "others (set_len e n h) p = others h p"
  "others (write_bytes d bs h) p = others h p"
  by (simp_all add: others_def)

definition args_of :: "heap \<Rightarrow> cw_array \<Rightarrow> cw_str list" where
  "args_of h a = map (\<lambda>j. str_at (h_mem h) (elem_addr a j)) [0..<unat (a_nelts a)]"

record cw_buf =
  bf_start :: addr
  bf_mem :: "nat \<Rightarrow> u8"
  bf_pos :: nat
  bf_last :: nat
  bf_end :: nat

record cw_conf_file =
  cf_file :: cw_file
  cf_buffer :: cw_buf
  cf_dump :: addr
  cf_line :: u64

section \<open>The core configuration\<close>

record cw_core_conf =
  cc_daemon :: int
  cc_master :: int
  cc_timer_resolution :: u64
  cc_shutdown_timeout :: u64
  cc_worker_processes :: int
  cc_debug_points :: int
  cc_rlimit_nofile :: int
  cc_rlimit_core :: int
  cc_priority :: int
  cc_env :: cw_array

section \<open>\<open>cw_conf_t\<close>\<close>

text \<open>
  \<open>c_heap\<close>, \<open>c_sys\<close>, \<open>c_log\<close>, \<open>c_ptrs\<close> and \<open>c_core\<close> are the world the parser
  acts on; the other fields are those of \<open>cw_conf_t\<close>.  \<open>c_words\<close> are the contents of
  the array \<open>c_args\<close>.
\<close>

record cw_conf =
  c_heap :: heap
  c_sys :: sys
  c_log :: "conf_msg list"
  c_ptrs :: "addr \<Rightarrow> addr"
  c_core :: "addr \<Rightarrow> cw_core_conf option"
  c_args :: cw_array
  c_words :: "cw_str list"
  c_param :: cw_str
  c_pool :: cw_pool
  c_file :: "cw_conf_file option"
  c_ctx :: addr
  c_module_type :: u64
  c_cmd_type :: u64

definition logged :: "conf_msg \<Rightarrow> cw_conf \<Rightarrow> cw_conf" where
  "logged m cf = cf\<lparr>c_log := c_log cf @ [m]\<rparr>"

definition faulty :: "cw_conf \<Rightarrow> cw_conf" where
  "faulty cf = cf\<lparr>c_heap := (c_heap cf)\<lparr>h_fault := True\<rparr>\<rparr>"

lemma logged_simps [simp]:
  "c_heap (logged m cf) = c_heap cf" "c_sys (logged m cf) = c_sys cf" "c_args (logged m cf) = c_args cf"
  "c_words (logged m cf) = c_words cf" "c_pool (logged m cf) = c_pool cf" "c_file (logged m cf) = c_file cf"
  "c_log (logged m cf) = c_log cf @ [m]" "c_ptrs (logged m cf) = c_ptrs cf" "c_core (logged m cf) = c_core cf"
  "c_ctx (logged m cf) = c_ctx cf" "c_param (logged m cf) = c_param cf"
  "c_module_type (logged m cf) = c_module_type cf" "c_cmd_type (logged m cf) = c_cmd_type cf"
  by (simp_all add: logged_def)

lemma faulty_simps [simp]:
  "c_sys (faulty cf) = c_sys cf" "c_args (faulty cf) = c_args cf"
  "c_words (faulty cf) = c_words cf" "c_pool (faulty cf) = c_pool cf" "c_file (faulty cf) = c_file cf"
  "c_log (faulty cf) = c_log cf" "h_fault (c_heap (faulty cf))"
  by (simp_all add: faulty_def)

end
