(* ===== verification/Conf_Lex.thy ===== *)
theory Conf_Lex
  imports Conf_Data
begin

text \<open>
  \<open>cw_conf_read_token\<close> of \<open>src/core/cw_conf_file.c\<close>: the scanner of configuration
  files.  One round of its endless loop is \<open>lex_step\<close> (refill the buffer, take a
  character, act on it); the loop itself is a partial function, and that it ends is a theorem
  of \<open>Conf_Lex_Inv\<close>.  The local variables of the C function are the fields of
  \<open>lexer\<close>; \<open>found\<close> is local to a round, since each round leaves it 0.
\<close>

section \<open>The local variables\<close>

record lexer =
  x_file :: cw_conf_file
  x_start :: nat
  x_start_line :: u64
  x_need_space :: bool
  x_last_space :: bool
  x_sharp_comment :: bool
  x_variable :: bool
  x_quoted :: bool
  x_s_quoted :: bool
  x_d_quoted :: bool

datatype lex_result = Return int cw_conf lexer | Next cw_conf lexer

abbreviation x_buf :: "lexer \<Rightarrow> cw_buf" where
  "x_buf lx \<equiv> cf_buffer (x_file lx)"

definition set_buf :: "cw_buf \<Rightarrow> lexer \<Rightarrow> lexer" where
  "set_buf b lx = lx\<lparr>x_file := (x_file lx)\<lparr>cf_buffer := b\<rparr>\<rparr>"

definition LF :: u8 where [cw_sizes]: "LF = 10"
definition CR :: u8 where [cw_sizes]: "CR = 13"

definition is_space :: "u8 \<Rightarrow> bool" where
  "is_space ch \<longleftrightarrow> ch = 32 \<or> ch = 9 \<or> ch = CR \<or> ch = LF"

section \<open>Refilling the buffer\<close>

definition buf_move :: "(nat \<Rightarrow> u8) \<Rightarrow> nat \<Rightarrow> nat \<Rightarrow> (nat \<Rightarrow> u8)" where
  "buf_move m start len = (\<lambda>i. if i < len then m (start + i) else m i)"

definition buf_put :: "(nat \<Rightarrow> u8) \<Rightarrow> nat \<Rightarrow> u8 list \<Rightarrow> (nat \<Rightarrow> u8)" where
  "buf_put m at bs = (\<lambda>i. if at \<le> i \<and> i < at + length bs then bs ! (i - at) else m i)"

text \<open>The end of the input, and a token that fills the whole buffer.\<close>

definition lex_eof :: "cw_conf \<Rightarrow> lexer \<Rightarrow> lex_result" where
  "lex_eof cf lx =
     (if a_nelts (c_args cf) > 0 \<or> \<not> x_last_space lx
      then if f_fd (cf_file (x_file lx)) = CW_INVALID_FILE
           then Return CW_ERROR (logged UnexpectedEndOfParam cf) lx
           else Return CW_ERROR (logged UnexpectedEndOfFile cf) lx
      else Return CW_CONF_FILE_DONE cf lx)"

definition lex_too_long :: "cw_conf \<Rightarrow> lexer \<Rightarrow> lex_result" where
  "lex_too_long cf lx =
     (let lx1 = lx\<lparr>x_file := (x_file lx)\<lparr>cf_line := x_start_line lx\<rparr>\<rparr>
      in if x_d_quoted lx then Return CW_ERROR (logged (MissingTerminator 34) cf) lx1
         else if x_s_quoted lx then Return CW_ERROR (logged (MissingTerminator 39) cf) lx1
         else Return CW_ERROR (logged (TooLongParam (x_start lx)) cf) lx1)"

text \<open>
  The read: the token begun is moved to the start of the buffer and the rest is filled from
  the file.  A dump buffer (\<open>dump\<close> not NULL) would receive a copy; no code creates one,
  so the pointer can only be an uninitialised one and using it is a fault.
\<close>

definition read_size :: "lexer \<Rightarrow> nat \<Rightarrow> int" where
  "read_size lx len =
     (let sz = f_size (cf_file (x_file lx)) - f_offset (cf_file (x_file lx));
          room = int (bf_end (x_buf lx)) - int len
      in if sz > room then room else sz)"

definition moved_mem :: "lexer \<Rightarrow> nat \<Rightarrow> (nat \<Rightarrow> u8)" where
  "moved_mem lx len =
     (if len > 0 then buf_move (bf_mem (x_buf lx)) (x_start lx) len else bf_mem (x_buf lx))"

definition lex_read :: "cw_conf \<Rightarrow> lexer \<Rightarrow> lex_result" where
  "lex_read cf lx =
     (let b = x_buf lx; file = cf_file (x_file lx);
          len = bf_pos b - x_start lx;
          sz = read_size lx len;
          b1 = b\<lparr>bf_mem := moved_mem lx len\<rparr>
      in case cw_read_file (c_sys cf) file (nat sz) (f_offset file) of
           (s1, file1, None) \<Rightarrow> Return CW_ERROR (logged ReadFailed (cf\<lparr>c_sys := s1\<rparr>)) (set_buf b1 lx)
         | (s1, file1, Some bs) \<Rightarrow>
             let n = int (length bs);
                 cf1 = cf\<lparr>c_sys := s1\<rparr>;
                 lx1 = lx\<lparr>x_file := (x_file lx)\<lparr>cf_file := file1\<rparr>\<rparr>;
                 b2 = b1\<lparr>bf_mem := buf_put (bf_mem b1) len bs\<rparr>
             in if n \<noteq> sz then Return CW_ERROR (logged (ShortRead n sz) cf1) (set_buf b2 lx1)
                else Next (if cf_dump (x_file lx) \<noteq> 0 then faulty cf1 else cf1)
                       ((set_buf (b2\<lparr>bf_pos := len, bf_last := len + length bs\<rparr>) lx1)\<lparr>x_start := 0\<rparr>))"

definition lex_refill :: "cw_conf \<Rightarrow> lexer \<Rightarrow> lex_result" where
  "lex_refill cf lx =
     (if bf_pos (x_buf lx) < bf_last (x_buf lx) then Next cf lx
      else if f_offset (cf_file (x_file lx)) \<ge> f_size (cf_file (x_file lx)) then lex_eof cf lx
      else if bf_pos (x_buf lx) - x_start lx = CW_CONF_BUFFER then lex_too_long cf lx
      else lex_read cf lx)"

section \<open>Words\<close>

text \<open>
  The copy loop: \<open>s\<close> are the bytes from \<open>src\<close> to the end of the token, \<open>t\<close> is the
  byte after them, which \<open>src[1]\<close> reads for the last one.
\<close>

fun unescape :: "u8 list \<Rightarrow> u8 \<Rightarrow> u8 list" where
  "unescape [] t = []"
| "unescape (c # s) t =
     (if c = 92
      then let d = (case s of [] \<Rightarrow> t | e # _ \<Rightarrow> e)
           in if d = 34 \<or> d = 39 \<or> d = 92 then d # unescape (drop 1 s) t
              else if d = 116 then 9 # unescape (drop 1 s) t
              else if d = 114 then CR # unescape (drop 1 s) t
              else if d = 110 then LF # unescape (drop 1 s) t
              else c # unescape s t
      else c # unescape s t)"

definition token_bytes :: "lexer \<Rightarrow> u8 list" where
  "token_bytes lx = map (bf_mem (x_buf lx)) [x_start lx..<bf_pos (x_buf lx) - 1]"

text \<open>
  The block under \<open>if (found)\<close>.  The word is written into the memory of the array and of
  the pool, and kept in \<open>c_words\<close>; that the two agree is a theorem (theory \<open>Conf_Words\<close>).
\<close>

definition lex_found :: "u8 \<Rightarrow> cw_conf \<Rightarrow> lexer \<Rightarrow> lex_result" where
  "lex_found ch cf lx =
     (let (h1, p1, a1, word) = cw_array_push (c_heap cf) (c_pool cf) (c_args cf);
          cf1 = cf\<lparr>c_heap := h1, c_pool := p1, c_args := a1\<rparr>
      in if word = 0 then Return CW_ERROR cf1 lx
         else let (h2, p2, data) = cw_pnalloc h1 p1 (of_nat (bf_pos (x_buf lx) - 1 - x_start lx + 1));
                  h3 = set_data word data h2;
                  cf2 = cf1\<lparr>c_heap := h3, c_pool := p2\<rparr>
              in if data = 0 then Return CW_ERROR cf2 lx
                 else let bs = unescape (token_bytes lx) ch;
                          h4 = write_bytes data (bs @ [0]) h3;
                          h5 = set_len word (of_nat (length bs)) h4;
                          cf3 = cf2\<lparr>c_heap := h5, c_words := c_words cf2 @ [\<lparr>s_data = data, s_bytes = bs\<rparr>]\<rparr>
                      in if ch = 59 then Return CW_OK cf3 lx
                         else if ch = 123 then Return CW_CONF_BLOCK_START cf3 lx
                         else Next cf3 lx)"

section \<open>One character\<close>

definition lex_first :: "u8 \<Rightarrow> cw_conf \<Rightarrow> lexer \<Rightarrow> lex_result" where
  "lex_first ch cf lx =
     (if is_space ch then Next cf lx
      else let lx1 = lx\<lparr>x_start := bf_pos (x_buf lx) - 1, x_start_line := cf_line (x_file lx)\<rparr>
      in if ch = 59 \<or> ch = 123
         then if a_nelts (c_args cf) = 0 then Return CW_ERROR (logged (UnexpectedChar ch) cf) lx1
              else if ch = 123 then Return CW_CONF_BLOCK_START cf lx1
              else Return CW_OK cf lx1
         else if ch = 125
         then if a_nelts (c_args cf) \<noteq> 0 then Return CW_ERROR (logged (UnexpectedChar 125) cf) lx1
              else Return CW_CONF_BLOCK_DONE cf lx1
         else if ch = 35 then Next cf (lx1\<lparr>x_sharp_comment := True\<rparr>)
         else if ch = 92 then Next cf (lx1\<lparr>x_quoted := True, x_last_space := False\<rparr>)
         else if ch = 34
         then Next cf (lx1\<lparr>x_start := x_start lx1 + 1, x_d_quoted := True, x_last_space := False\<rparr>)
         else if ch = 39
         then Next cf (lx1\<lparr>x_start := x_start lx1 + 1, x_s_quoted := True, x_last_space := False\<rparr>)
         else Next cf (lx1\<lparr>x_last_space := False\<rparr>))"

definition lex_inner :: "u8 \<Rightarrow> cw_conf \<Rightarrow> lexer \<Rightarrow> lex_result" where
  "lex_inner ch cf lx =
     (if ch = 123 \<and> x_variable lx then Next cf lx
      else let lx1 = lx\<lparr>x_variable := False\<rparr>
      in if ch = 92 then Next cf (lx1\<lparr>x_quoted := True\<rparr>)
         else if ch = 36 then Next cf (lx1\<lparr>x_variable := True\<rparr>)
         else if x_d_quoted lx1
         then if ch = 34 then lex_found ch cf (lx1\<lparr>x_d_quoted := False, x_need_space := True\<rparr>)
              else Next cf lx1
         else if x_s_quoted lx1
         then if ch = 39 then lex_found ch cf (lx1\<lparr>x_s_quoted := False, x_need_space := True\<rparr>)
              else Next cf lx1
         else if is_space ch \<or> ch = 59 \<or> ch = 123
         then lex_found ch cf (lx1\<lparr>x_last_space := True\<rparr>)
         else Next cf lx1)"

definition lex_char :: "u8 \<Rightarrow> cw_conf \<Rightarrow> lexer \<Rightarrow> lex_result" where
  "lex_char ch cf lx = (if x_last_space lx then lex_first ch cf lx else lex_inner ch cf lx)"

definition lex_act :: "u8 \<Rightarrow> cw_conf \<Rightarrow> lexer \<Rightarrow> lex_result" where
  "lex_act ch cf lx =
     (if x_sharp_comment lx then Next cf lx
      else if x_quoted lx then Next cf (lx\<lparr>x_quoted := False\<rparr>)
      else if x_need_space lx
      then let lx1 = lx\<lparr>x_last_space := True, x_need_space := False\<rparr>
           in if is_space ch then Next cf lx1
              else if ch = 59 then Return CW_OK cf lx
              else if ch = 123 then Return CW_CONF_BLOCK_START cf lx
              else if ch = 41 then lex_char ch cf lx1
              else Return CW_ERROR (logged (UnexpectedChar ch) cf) lx
      else lex_char ch cf lx)"

text \<open>\<open>ch = *b->pos++\<close>, with the count of lines and the end of a comment.\<close>

definition lex_take :: "lexer \<Rightarrow> u8 \<times> lexer" where
  "lex_take lx =
     (let b = x_buf lx; ch = bf_mem b (bf_pos b);
          lx1 = set_buf (b\<lparr>bf_pos := bf_pos b + 1\<rparr>) lx
      in if ch = LF
         then (ch, lx1\<lparr>x_file := (x_file lx1)\<lparr>cf_line := cf_line (x_file lx1) + 1\<rparr>, x_sharp_comment := False\<rparr>)
         else (ch, lx1))"

definition lex_step :: "cw_conf \<Rightarrow> lexer \<Rightarrow> lex_result" where
  "lex_step cf lx =
     (case lex_refill cf lx of
        Return rc cf1 lx1 \<Rightarrow> Return rc cf1 lx1
      | Next cf1 lx1 \<Rightarrow> (let (ch, lx2) = lex_take lx1 in lex_act ch cf1 lx2))"

section \<open>The loop\<close>

partial_function (option) lex_loop :: "cw_conf \<Rightarrow> lexer \<Rightarrow> (int \<times> cw_conf \<times> lexer) option" where
  "lex_loop cf lx =
     (case lex_step cf lx of
        Return rc cf1 lx1 \<Rightarrow> Some (rc, cf1, lx1)
      | Next cf1 lx1 \<Rightarrow> lex_loop cf1 lx1)"

definition lex_init :: "cw_conf_file \<Rightarrow> lexer" where
  "lex_init f =
     \<lparr>x_file = f, x_start = bf_pos (cf_buffer f), x_start_line = cf_line f, x_need_space = False,
      x_last_space = True, x_sharp_comment = False, x_variable = False, x_quoted = False,
      x_s_quoted = False, x_d_quoted = False\<rparr>"

definition cw_conf_read_token :: "cw_conf \<Rightarrow> (int \<times> cw_conf) option" where
  "cw_conf_read_token cf =
     map_option (\<lambda>(rc, cf1, lx1). (rc, cf1\<lparr>c_file := Some (x_file lx1)\<rparr>))
       (lex_loop (cf\<lparr>c_args := (c_args cf)\<lparr>a_nelts := 0\<rparr>, c_words := []\<rparr>) (lex_init (the (c_file cf))))"

end
