(* ===== verification/Conf_Lex_Inv.thy ===== *)
theory Conf_Lex_Inv
  imports Conf_Lex Array_Props
begin

text \<open>
  Invariants of the scanner: its positions stay inside the buffer, its flags stay consistent,
  the argument array and the pool keep their invariants with the words as regions of their
  own, and every round brings the end of the input nearer.
\<close>

section \<open>Positions\<close>

definition file_ok :: "cw_conf_file \<Rightarrow> bool" where
  "file_ok f \<longleftrightarrow>
     bf_pos (cf_buffer f) \<le> bf_last (cf_buffer f) \<and> bf_last (cf_buffer f) \<le> bf_end (cf_buffer f) \<and>
     bf_end (cf_buffer f) < 2 ^ 63 \<and>
     (bf_end (cf_buffer f) = CW_CONF_BUFFER \<or> f_size (cf_file f) \<le> f_offset (cf_file f))"

definition buf_ok :: "lexer \<Rightarrow> bool" where
  "buf_ok lx \<longleftrightarrow> file_ok (x_file lx) \<and> x_start lx \<le> bf_pos (x_buf lx)"

text \<open>The bytes not yet taken: the measure of the loop.\<close>

definition left_in :: "cw_conf_file \<Rightarrow> nat" where
  "left_in f = (bf_last (cf_buffer f) - bf_pos (cf_buffer f)) + nat (f_size (cf_file f) - f_offset (cf_file f))"

lemma set_buf_simps [simp]:
  "x_buf (set_buf b lx) = b" "cf_file (x_file (set_buf b lx)) = cf_file (x_file lx)"
  "cf_dump (x_file (set_buf b lx)) = cf_dump (x_file lx)" "cf_line (x_file (set_buf b lx)) = cf_line (x_file lx)"
  "x_start (set_buf b lx) = x_start lx" "x_start_line (set_buf b lx) = x_start_line lx"
  "x_need_space (set_buf b lx) = x_need_space lx" "x_last_space (set_buf b lx) = x_last_space lx"
  "x_sharp_comment (set_buf b lx) = x_sharp_comment lx" "x_variable (set_buf b lx) = x_variable lx"
  "x_quoted (set_buf b lx) = x_quoted lx" "x_s_quoted (set_buf b lx) = x_s_quoted lx"
  "x_d_quoted (set_buf b lx) = x_d_quoted lx"
  by (simp_all add: set_buf_def)

text \<open>What a refill leaves as it was: the flags, the words, the pool and the heap.\<close>

definition same_flags :: "lexer \<Rightarrow> lexer \<Rightarrow> bool" where
  "same_flags lx lx1 \<longleftrightarrow>
     x_need_space lx1 = x_need_space lx \<and> x_last_space lx1 = x_last_space lx \<and>
     x_sharp_comment lx1 = x_sharp_comment lx \<and> x_variable lx1 = x_variable lx \<and>
     x_quoted lx1 = x_quoted lx \<and> x_s_quoted lx1 = x_s_quoted lx \<and> x_d_quoted lx1 = x_d_quoted lx"

definition same_args :: "cw_conf \<Rightarrow> cw_conf \<Rightarrow> bool" where
  "same_args cf cf1 \<longleftrightarrow>
     c_heap cf1 = c_heap cf \<and> c_pool cf1 = c_pool cf \<and> c_args cf1 = c_args cf \<and> c_words cf1 = c_words cf"

lemma same_flags_refl [simp]: "same_flags lx lx"
  by (simp add: same_flags_def)

lemma same_args_refl [simp]: "same_args cf cf" "same_args cf (logged m cf)"
  by (simp_all add: same_args_def)

text \<open>A read that goes on: what it asked the file for and what it put where.\<close>

lemma lex_read_next:
  assumes ok: "buf_ok lx" and full: "bf_last (x_buf lx) \<le> bf_pos (x_buf lx)"
    and more: "f_offset (cf_file (x_file lx)) < f_size (cf_file (x_file lx))"
    and short: "bf_pos (x_buf lx) - x_start lx \<noteq> CW_CONF_BUFFER"
    and c: "lex_read cf lx = Next cf1 lx1"
  obtains s1 file1 bs n len where
    "len = bf_pos (x_buf lx) - x_start lx" "len < CW_CONF_BUFFER"
    "n = min (nat (f_size (cf_file (x_file lx)) - f_offset (cf_file (x_file lx)))) (CW_CONF_BUFFER - len)"
    "cw_read_file (c_sys cf) (cf_file (x_file lx)) n (f_offset (cf_file (x_file lx))) = (s1, file1, Some bs)"
    "length bs = n" "0 < n" "same_flags lx lx1"
    "cf1 = (if cf_dump (x_file lx) \<noteq> 0 then faulty (cf\<lparr>c_sys := s1\<rparr>) else cf\<lparr>c_sys := s1\<rparr>)"
    "cf_file (x_file lx1) = file1" "cf_dump (x_file lx1) = cf_dump (x_file lx)"
    "cf_line (x_file lx1) = cf_line (x_file lx)" "x_start lx1 = 0" "bf_pos (x_buf lx1) = len"
    "bf_last (x_buf lx1) = len + n" "bf_end (x_buf lx1) = CW_CONF_BUFFER" "bf_start (x_buf lx1) = bf_start (x_buf lx)"
    "\<And>i. i < len \<Longrightarrow> bf_mem (x_buf lx1) i = bf_mem (x_buf lx) (x_start lx + i)"
    "\<And>i. i < n \<Longrightarrow> bf_mem (x_buf lx1) (len + i) = bs ! i"
proof -
  let ?b = "x_buf lx" and ?f = "cf_file (x_file lx)"
  let ?len = "bf_pos ?b - x_start lx"
  have e: "bf_end ?b = CW_CONF_BUFFER" and le: "bf_pos ?b \<le> CW_CONF_BUFFER" "x_start lx \<le> bf_pos ?b"
    using ok more by (auto simp: buf_ok_def file_ok_def)
  then have len: "?len < CW_CONF_BUFFER" using short by simp
  let ?sz = "read_size lx ?len"
  have n: "nat ?sz = min (nat (f_size ?f - f_offset ?f)) (CW_CONF_BUFFER - ?len)" "0 < ?sz"
    using len more by (auto simp: read_size_def Let_def e)
  obtain s1 file1 bs where r: "cw_read_file (c_sys cf) ?f (nat ?sz) (f_offset ?f) = (s1, file1, Some bs)"
    and lb: "int (length bs) = ?sz"
    using c by (auto simp: lex_read_def Let_def split: prod.splits option.splits if_splits)
  have res: "cf1 = (if cf_dump (x_file lx) \<noteq> 0 then faulty (cf\<lparr>c_sys := s1\<rparr>) else cf\<lparr>c_sys := s1\<rparr>)"
    "lx1 = (set_buf (?b\<lparr>bf_mem := buf_put (moved_mem lx ?len) ?len bs, bf_pos := ?len, bf_last := ?len + length bs\<rparr>)
        (lx\<lparr>x_file := (x_file lx)\<lparr>cf_file := file1\<rparr>\<rparr>))\<lparr>x_start := 0\<rparr>"
    using c r lb by (auto simp: lex_read_def Let_def)
  have m: "buf_put (moved_mem lx ?len) ?len bs i = bf_mem ?b (x_start lx + i)" if "i < ?len" for i
    using that by (auto simp: buf_put_def moved_mem_def buf_move_def)
  show thesis
  proof (rule that [of ?len "nat ?sz" s1 file1 bs])
    show len_bs: "length bs = nat ?sz" using lb by simp
    show "bf_mem (x_buf lx1) (?len + i) = bs ! i" if "i < nat ?sz" for i
      using that unfolding len_bs [symmetric] by (simp add: res buf_put_def)
    show "cf1 = (if cf_dump (x_file lx) \<noteq> 0 then faulty (cf\<lparr>c_sys := s1\<rparr>) else cf\<lparr>c_sys := s1\<rparr>)"
      by (rule res(1))
    show "nat ?sz = min (nat (f_size ?f - f_offset ?f)) (CW_CONF_BUFFER - ?len)" by (rule n(1))
    show "bf_last (x_buf lx1) = ?len + nat ?sz" using lb by (simp add: res)
    show "?len < CW_CONF_BUFFER" by (rule len)
    show "bf_end (x_buf lx1) = CW_CONF_BUFFER" by (simp add: res e)
    show "cw_read_file (c_sys cf) ?f (nat ?sz) (f_offset ?f) = (s1, file1, Some bs)" by (rule r)
    show "same_flags lx lx1" by (simp add: res same_flags_def)
  qed (use n(2) m in \<open>simp_all add: res\<close>)
qed

lemma lex_eof_returns: "lex_eof cf lx = Next cf1 lx1 \<longleftrightarrow> False"
  by (simp add: lex_eof_def)

lemma lex_too_long_returns: "lex_too_long cf lx = Next cf1 lx1 \<longleftrightarrow> False"
  by (simp add: lex_too_long_def Let_def)

lemma lex_refill_next:
  assumes ok: "buf_ok lx" and c: "lex_refill cf lx = Next cf1 lx1"
  shows "buf_ok lx1" and "bf_pos (x_buf lx1) < bf_last (x_buf lx1)" and "left_in (x_file lx1) = left_in (x_file lx)"
    and "same_flags lx lx1" and "cf_dump (x_file lx1) = cf_dump (x_file lx)"
    and "cf_dump (x_file lx) = 0 \<Longrightarrow> same_args cf cf1"
proof -
  let ?P = "buf_ok lx1 \<and> bf_pos (x_buf lx1) < bf_last (x_buf lx1) \<and> left_in (x_file lx1) = left_in (x_file lx) \<and>
    same_flags lx lx1 \<and> cf_dump (x_file lx1) = cf_dump (x_file lx) \<and>
    (cf_dump (x_file lx) = 0 \<longrightarrow> same_args cf cf1)"
  have ?P
  proof (cases "bf_pos (x_buf lx) < bf_last (x_buf lx)")
    case True
    then show ?thesis using ok c by (simp add: lex_refill_def)
  next
    case False
    then have more: "f_offset (cf_file (x_file lx)) < f_size (cf_file (x_file lx))"
      and short: "bf_pos (x_buf lx) - x_start lx \<noteq> CW_CONF_BUFFER" and rd: "lex_read cf lx = Next cf1 lx1"
      using c by (auto simp: lex_refill_def lex_eof_returns lex_too_long_returns split: if_splits)
    have full: "bf_last (x_buf lx) \<le> bf_pos (x_buf lx)" using False by simp
    show ?thesis
    proof (rule lex_read_next [OF ok full more short rd])
      fix s1 file1 bs n len
      assume a: "len = bf_pos (x_buf lx) - x_start lx" "len < CW_CONF_BUFFER"
        "n = min (nat (f_size (cf_file (x_file lx)) - f_offset (cf_file (x_file lx)))) (CW_CONF_BUFFER - len)"
        "cw_read_file (c_sys cf) (cf_file (x_file lx)) n (f_offset (cf_file (x_file lx))) = (s1, file1, Some bs)"
        "length bs = n" "0 < n" "same_flags lx lx1"
        "cf1 = (if cf_dump (x_file lx) \<noteq> 0 then faulty (cf\<lparr>c_sys := s1\<rparr>) else cf\<lparr>c_sys := s1\<rparr>)"
        "cf_file (x_file lx1) = file1" "cf_dump (x_file lx1) = cf_dump (x_file lx)"
        "x_start lx1 = 0" "bf_pos (x_buf lx1) = len" "bf_last (x_buf lx1) = len + n"
        "bf_end (x_buf lx1) = CW_CONF_BUFFER"
      have f: "f_offset file1 = f_offset (cf_file (x_file lx)) + int n" "f_size file1 = f_size (cf_file (x_file lx))"
        using cw_read_file_frame [OF a(4)] a(5) by simp_all
      have "buf_ok lx1" using a(2,3) by (simp add: buf_ok_def file_ok_def a(9-14) CW_CONF_BUFFER_def)
      moreover have "left_in (x_file lx1) = left_in (x_file lx)"
      proof -
        have "n \<le> nat (f_size (cf_file (x_file lx)) - f_offset (cf_file (x_file lx)))" by (simp add: a(3))
        then show ?thesis using full more by (simp add: left_in_def a(9-14) f)
      qed
      ultimately show ?thesis using a(6,7) by (simp add: a(8,10,12,13) same_args_def)
    qed
  qed
  then show "buf_ok lx1" and "bf_pos (x_buf lx1) < bf_last (x_buf lx1)" and "left_in (x_file lx1) = left_in (x_file lx)"
    and "same_flags lx lx1" and "cf_dump (x_file lx1) = cf_dump (x_file lx)"
    and "cf_dump (x_file lx) = 0 \<Longrightarrow> same_args cf cf1" by blast+
qed

lemma lex_take_ok:
  assumes "buf_ok lx" and "bf_pos (x_buf lx) < bf_last (x_buf lx)" and "lex_take lx = (ch, lx1)"
  shows "buf_ok lx1" and "x_start lx1 < bf_pos (x_buf lx1)" and "left_in (x_file lx1) < left_in (x_file lx)"
    and "ch = bf_mem (x_buf lx) (bf_pos (x_buf lx))" and "x_buf lx1 = (x_buf lx)\<lparr>bf_pos := bf_pos (x_buf lx) + 1\<rparr>"
    and "same_flags (lx\<lparr>x_sharp_comment := x_sharp_comment lx \<and> ch \<noteq> LF\<rparr>) lx1"
    and "x_start lx1 = x_start lx" and "cf_file (x_file lx1) = cf_file (x_file lx)"
    and "cf_dump (x_file lx1) = cf_dump (x_file lx)"
  using assms
  by (auto simp: lex_take_def Let_def buf_ok_def file_ok_def left_in_def same_flags_def split: if_splits)

section \<open>What a character can do\<close>

text \<open>
  Apart from \<open>lex_found\<close>, acting on a character changes only the flags, the start of the
  token and the messages.
\<close>

lemma lex_found_file:
  "lex_found ch cf lx = Return rc cf1 lx1 \<Longrightarrow> lx1 = lx"
  "lex_found ch cf lx = Next cf1 lx1 \<Longrightarrow> lx1 = lx"
  by (auto simp: lex_found_def Let_def split: prod.splits if_splits)

lemma lex_first_next:
  assumes "lex_first ch cf lx = Next cf1 lx1"
  shows "cf1 = cf" and "x_file lx1 = x_file lx"
    and "x_start lx1 = x_start lx \<or> x_start lx1 = bf_pos (x_buf lx) - 1 \<or> x_start lx1 = bf_pos (x_buf lx) - 1 + 1"
  using assms by (auto simp: lex_first_def Let_def split: if_splits)

lemma lex_inner_next:
  assumes "lex_inner ch cf lx = Next cf1 lx1"
  shows "x_file lx1 = x_file lx" and "x_start lx1 = x_start lx"
  using assms by (auto simp: lex_inner_def Let_def dest!: lex_found_file(2) split: if_splits)

lemma lex_act_next:
  assumes "lex_act ch cf lx = Next cf1 lx1"
  shows "x_file lx1 = x_file lx"
    and "x_start lx1 = x_start lx \<or> x_start lx1 = bf_pos (x_buf lx) - 1 \<or> x_start lx1 = bf_pos (x_buf lx) - 1 + 1"
  using assms by (auto simp: lex_act_def lex_char_def Let_def split: if_splits dest: lex_first_next lex_inner_next)

lemma lex_step_next:
  assumes ok: "buf_ok lx" and c: "lex_step cf lx = Next cf1 lx1"
  shows "buf_ok lx1" and "left_in (x_file lx1) < left_in (x_file lx)"
proof -
  obtain cf2 lx2 where r: "lex_refill cf lx = Next cf2 lx2"
    using c by (auto simp: lex_step_def split: lex_result.splits)
  note R = lex_refill_next [OF ok r]
  obtain ch lx3 where t: "lex_take lx2 = (ch, lx3)" by fastforce
  note T = lex_take_ok [OF R(1,2) t]
  have a: "lex_act ch cf2 lx3 = Next cf1 lx1" using c r t by (simp add: lex_step_def)
  show "left_in (x_file lx1) < left_in (x_file lx)" using T(3) R(3) lex_act_next(1) [OF a] by simp
  show "buf_ok lx1" using T(1,2) lex_act_next [OF a] by (auto simp: buf_ok_def)
qed

lemma lex_loop_ends:
  "buf_ok lx \<Longrightarrow> \<exists>r. lex_loop cf lx = Some r"
proof (induction "left_in (x_file lx)" arbitrary: cf lx rule: less_induct)
  case less
  show ?case
  proof (cases "lex_step cf lx")
    case (Return rc cf1 lx1)
    then show ?thesis by (subst lex_loop.simps) simp
  next
    case (Next cf1 lx1)
    then show ?thesis
      using less.hyps [OF lex_step_next(2) [OF less.prems Next] lex_step_next(1) [OF less.prems Next]]
      by (subst lex_loop.simps) simp
  qed
qed

text \<open>
  The rule for properties of the loop: an invariant that every round keeps, and what it
  gives when a round returns.
\<close>

lemma lex_loop_rule:
  assumes "lex_loop cf lx = Some (rc, cf', lx')" and "I cf lx"
    and ok: "\<And>cf lx. I cf lx \<Longrightarrow> buf_ok lx"
    and nxt: "\<And>cf lx cf1 lx1. I cf lx \<Longrightarrow> lex_step cf lx = Next cf1 lx1 \<Longrightarrow> I cf1 lx1"
    and ret: "\<And>cf lx rc cf1 lx1. I cf lx \<Longrightarrow> lex_step cf lx = Return rc cf1 lx1 \<Longrightarrow> Q rc cf1 lx1"
  shows "Q rc cf' lx'"
  using assms(1,2)
proof (induction "left_in (x_file lx)" arbitrary: cf lx rule: less_induct)
  case less
  show ?case
  proof (cases "lex_step cf lx")
    case (Return rc1 cf1 lx1)
    then have "rc1 = rc" "cf1 = cf'" "lx1 = lx'" using less.prems(1) by (subst (asm) lex_loop.simps, simp)+
    then show ?thesis using ret [OF less.prems(2) Return] by simp
  next
    case (Next cf1 lx1)
    then have "lex_loop cf1 lx1 = Some (rc, cf', lx')" using less.prems(1) by (subst (asm) lex_loop.simps) simp
    then show ?thesis
      using less.hyps lex_step_next(2) [OF ok [OF less.prems(2)] Next] nxt [OF less.prems(2) Next] by blast
  qed
qed

end
