(* ===== verification/Conf_Lex_Safe.thy ===== *)
theory Conf_Lex_Safe
  imports Conf_Lex_Inv
begin

text \<open>
  The scanner and its memory: the words it returns lie in regions of their own, cut from the
  pool and large enough for the bytes written there; the argument array counts them; and a
  token that is returned has at least one word.
\<close>

section \<open>The copy of a word stays inside its allocation\<close>

lemma unescape_length: "length (unescape s t) \<le> length s"
proof (induction s t rule: unescape.induct)
  case (2 c s t)
  define d where "d = (case s of [] \<Rightarrow> t | e # _ \<Rightarrow> e)"
  have drop: "length (unescape (drop 1 s) t) \<le> length s" if "length (unescape (drop 1 s) t) \<le> length (drop 1 s)"
    using that by simp
  show ?case
    using 2 unfolding unescape.simps Let_def d_def [symmetric] by (auto dest: drop simp del: drop_Suc)
qed simp

section \<open>The arguments\<close>

definition word_in :: "region list \<Rightarrow> cw_str \<Rightarrow> bool" where
  "word_in rs w \<longleftrightarrow> (\<exists>n. (s_data w, n) \<in> set rs \<and> length (s_bytes w) < unat n)"

definition args_ok :: "region list \<Rightarrow> cw_conf \<Rightarrow> bool" where
  "args_ok rs cf \<longleftrightarrow> a_size (c_args cf) = sizeof_cw_str \<and>
     (\<exists>rs'. array_inv (c_heap cf) (c_pool cf) (c_args cf) rs' \<and> set rs \<subseteq> set rs' \<and>
        (\<forall>w\<in>set (c_words cf). word_in rs' w))"

definition counted :: "cw_conf \<Rightarrow> bool" where
  "counted cf \<longleftrightarrow> unat (a_nelts (c_args cf)) = length (c_words cf)"

lemma word_in_mono: "word_in rs w \<Longrightarrow> set rs \<subseteq> set rs' \<Longrightarrow> word_in rs' w"
  unfolding word_in_def by blast

lemma args_ok_logged [simp]: "args_ok rs (logged m cf) = args_ok rs cf" "counted (logged m cf) = counted cf"
  by (simp_all add: args_ok_def counted_def)

lemma args_ok_same: "same_args cf cf1 \<Longrightarrow> args_ok rs cf1 = args_ok rs cf"
  and counted_same: "same_args cf cf1 \<Longrightarrow> counted cf1 = counted cf"
  and words_same: "same_args cf cf1 \<Longrightarrow> c_words cf1 = c_words cf"
  by (simp_all add: args_ok_def counted_def same_args_def)

text \<open>
  What the two requests of the block under \<open>found\<close> leave: \<open>word\<close> has been pushed, and
  the bytes of the word were granted or refused.
\<close>

lemma found_no_data:
  assumes inv: "array_inv h1 p1 a1 rs1" and sz: "a_size a1 = sizeof_cw_str" and sub: "set rs \<subseteq> set rs1" and ws: "\<forall>w\<in>set (c_words cf). word_in rs1 w"
    and q: "cw_pnalloc h1 p1 n = (h2, p2, 0)"
  shows "args_ok rs (cf\<lparr>c_heap := set_data word 0 h2, c_pool := p2, c_args := a1\<rparr>)" "refusal h1 h2"
proof -
  have ok1: "array_ok a1" and pinv: "pool_inv h1 p1 (arr_region a1 # rs1)" using inv by (simp_all add: array_inv_def)
  note r = cw_pnalloc_refused [OF pinv q]
  have "array_inv (set_data word 0 h2) p2 a1 rs1" using r(3) ok1 by (simp add: array_inv_def)
  then show "args_ok rs (cf\<lparr>c_heap := set_data word 0 h2, c_pool := p2, c_args := a1\<rparr>)"
    unfolding args_ok_def using sub ws sz by (intro conjI exI [of _ rs1]) simp_all
  show "refusal h1 h2" by (rule r(4))
qed

lemma found_data:
  assumes inv: "array_inv h1 p1 a1 rs1" and sz: "a_size a1 = sizeof_cw_str" and sub: "set rs \<subseteq> set rs1" and ws: "\<forall>w\<in>set (c_words cf). word_in rs1 w"
    and q: "cw_pnalloc h1 p1 n = (h2, p2, data)" "data \<noteq> 0" and len: "length bs < unat n"
  shows "args_ok rs (cf\<lparr>c_heap := set_len word k (write_bytes data xs (set_data word data h2)), c_pool := p2,
    c_args := a1, c_words := c_words cf @ [\<lparr>s_data = data, s_bytes = bs\<rparr>]\<rparr>)"
proof -
  have ok1: "array_ok a1" and pinv: "pool_inv h1 p1 (arr_region a1 # rs1)" using inv by (simp_all add: array_inv_def)
  let ?rs = "(data, n) # rs1"
  have "pool_inv h2 p2 ((data, n) # arr_region a1 # rs1)" by (rule cw_pnalloc_granted [OF pinv q])
  then have "pool_inv h2 p2 (arr_region a1 # ?rs)" by (rule pool_inv_swap)
  moreover have "word_in ?rs \<lparr>s_data = data, s_bytes = bs\<rparr>"
    unfolding word_in_def using len by (intro exI [of _ n]) simp
  moreover have "word_in ?rs w" if "w \<in> set (c_words cf)" for w
    by (rule word_in_mono [of rs1]) (use ws that in auto)
  ultimately show ?thesis
    unfolding args_ok_def using sub ok1 sz by (intro conjI exI [of _ ?rs]) (auto simp: array_inv_def)
qed

text \<open>A word pushed keeps the arguments well formed and counts one more.\<close>

lemma found_pushed:
  assumes ok: "args_ok rs cf" and p: "cw_array_push (c_heap cf) (c_pool cf) (c_args cf) = (h1, p1, a1, word)" "word \<noteq> 0"
  obtains rs1 where "array_inv h1 p1 a1 rs1" "a_size a1 = sizeof_cw_str" "set rs \<subseteq> set rs1"
    "\<forall>w\<in>set (c_words cf). word_in rs1 w" "unat (a_nelts a1) = unat (a_nelts (c_args cf)) + 1"
proof -
  obtain rs' where inv: "array_inv (c_heap cf) (c_pool cf) (c_args cf) rs'" and sub: "set rs \<subseteq> set rs'"
    and ws: "\<forall>w\<in>set (c_words cf). word_in rs' w" and sz: "a_size (c_args cf) = sizeof_cw_str"
    using ok by (auto simp: args_ok_def)
  from cw_array_push_granted [OF inv p] obtain rs1 where
    "array_inv h1 p1 a1 rs1" "set rs' \<subseteq> set rs1"
    "unat (a_nelts a1) = unat (a_nelts (c_args cf)) + 1" "a_size a1 = sizeof_cw_str"
    using sz by (auto simp: pushed_def)
  then show thesis using that [of rs1] sub ws word_in_mono by blast
qed

lemma found_refused:
  assumes ok: "args_ok rs cf" and p: "cw_array_push (c_heap cf) (c_pool cf) (c_args cf) = (h1, p1, a1, 0)"
  shows "args_ok rs (cf\<lparr>c_heap := h1, c_pool := p1, c_args := a1\<rparr>)" "refusal (c_heap cf) h1"
proof -
  obtain rs' where inv: "array_inv (c_heap cf) (c_pool cf) (c_args cf) rs'" and sub: "set rs \<subseteq> set rs'"
    and ws: "\<forall>w\<in>set (c_words cf). word_in rs' w" and sz: "a_size (c_args cf) = sizeof_cw_str"
    using ok by (auto simp: args_ok_def)
  note r = cw_array_push_refused [OF inv p]
  show "args_ok rs (cf\<lparr>c_heap := h1, c_pool := p1, c_args := a1\<rparr>)" using r sub ws sz by (auto simp: args_ok_def)
  show "refusal (c_heap cf) h1" by (rule r(3))
qed

text \<open>The block under \<open>found\<close>: a new word, or a request refused.\<close>

lemma lex_found_cases:
  assumes ok: "args_ok rs cf" and cnt: "counted cf" and pos: "x_start lx < bf_pos (x_buf lx)"
    and low: "bf_pos (x_buf lx) < 2 ^ 63"
  obtains (refused) cf1 where "lex_found ch cf lx = Return CW_ERROR cf1 lx" "args_ok rs cf1"
      "refusal (c_heap cf) (c_heap cf1)" "c_sys cf1 = c_sys cf" "c_log cf1 = c_log cf" "c_words cf1 = c_words cf"
  | (word) cf1 data where
      "lex_found ch cf lx = (if ch = 59 then Return CW_OK cf1 lx
         else if ch = 123 then Return CW_CONF_BLOCK_START cf1 lx else Next cf1 lx)"
      "args_ok rs cf1" "counted cf1" "c_sys cf1 = c_sys cf" "c_log cf1 = c_log cf"
      "h_libc (c_heap cf1) = h_libc (c_heap cf)" "h_refused (c_heap cf) \<le> h_refused (c_heap cf1)"
      "c_words cf1 = c_words cf @ [\<lparr>s_data = data, s_bytes = unescape (token_bytes lx) ch\<rparr>]"
proof -
  let ?n = "of_nat (bf_pos (x_buf lx) - 1 - x_start lx + 1) :: u64"
  have n: "unat ?n = bf_pos (x_buf lx) - x_start lx"
    using pos low by (subst unat_of_nat_64) simp_all
  obtain h1 p1 a1 word where p: "cw_array_push (c_heap cf) (c_pool cf) (c_args cf) = (h1, p1, a1, word)"
    using prod_cases4 by blast
  have libc: "h_libc h1 = h_libc (c_heap cf)" "h_refused (c_heap cf) \<le> h_refused h1"
    using cw_array_push_world [OF p] by simp_all
  show thesis
  proof (cases "word = 0")
    case True
    note r = found_refused [OF ok p [unfolded True]]
    show thesis
      by (rule refused [of "cf\<lparr>c_heap := h1, c_pool := p1, c_args := a1\<rparr>"])
        (use True p r in \<open>simp_all add: lex_found_def Let_def\<close>)
  next
    case False
    obtain rs1 where F: "array_inv h1 p1 a1 rs1" "a_size a1 = sizeof_cw_str" "set rs \<subseteq> set rs1"
        "\<forall>w\<in>set (c_words cf). word_in rs1 w" and cnt1: "unat (a_nelts a1) = unat (a_nelts (c_args cf)) + 1"
      by (rule found_pushed [OF ok p False])
    obtain h2 p2 data where q: "cw_pnalloc h1 p1 ?n = (h2, p2, data)" using prod_cases3 by blast
    show thesis
    proof (cases "data = 0")
      case True
      note d = found_no_data [OF F q [unfolded True]]
      have "refusal (c_heap cf) h2" by (rule refusal_later [OF d(2)]) (use libc in simp_all)
      then have "refusal (c_heap cf) (set_data word 0 h2)" by (simp add: refusal_def)
      then show thesis
        using False True p q d(1) [of word]
        by (intro refused [of "cf\<lparr>c_heap := set_data word 0 h2, c_pool := p2, c_args := a1\<rparr>"])
          (simp_all add: lex_found_def Let_def)
    next
      case data: False
      define bs where "bs = unescape (token_bytes lx) ch"
      define h5 where "h5 = set_len word (of_nat (length bs)) (write_bytes data (bs @ [0]) (set_data word data h2))"
      define cf1 where "cf1 = cf\<lparr>c_heap := h5, c_pool := p2, c_args := a1, c_words := c_words cf @
        [\<lparr>s_data = data, s_bytes = bs\<rparr>]\<rparr>"
      have "length bs < unat ?n"
        using unescape_length [of "token_bytes lx" ch] pos unfolding n bs_def by (simp add: token_bytes_def)
      then have "args_ok rs cf1" unfolding cf1_def h5_def by (rule found_data [OF F q data])
      moreover have "counted cf1" using cnt cnt1 by (simp add: counted_def cf1_def)
      ultimately show thesis
        using False data p q libc cw_pnalloc_frame [OF q] cw_pnalloc_counts [OF q]
        by (intro word [of cf1 data]) (simp_all add: lex_found_def Let_def cf1_def h5_def bs_def)
    qed
  qed
qed

section \<open>The invariant of the scanner\<close>

text \<open>
  \<open>lex_safe\<close> holds at the top of the loop: positions in range, arguments and pool well
  formed, the words counted, and a closing quote seen only after a word.
\<close>

definition lex_safe :: "region list \<Rightarrow> cw_conf \<Rightarrow> lexer \<Rightarrow> bool" where
  "lex_safe rs cf lx \<longleftrightarrow>
     buf_ok lx \<and> cf_dump (x_file lx) = 0 \<and> args_ok rs cf \<and> counted cf \<and>
     (x_need_space lx \<longrightarrow> c_words cf \<noteq> [])"

text \<open>What every return code says of the arguments.\<close>

definition token_codes :: "int list" where
  "token_codes = [CW_ERROR, CW_OK, CW_CONF_BLOCK_START, CW_CONF_BLOCK_DONE, CW_CONF_FILE_DONE]"

definition token_result :: "int \<Rightarrow> cw_conf \<Rightarrow> bool" where
  "token_result rc cf \<longleftrightarrow>
     rc \<in> set token_codes \<and>
     (rc \<noteq> CW_ERROR \<longrightarrow> counted cf \<and>
        (c_words cf = [] \<longleftrightarrow> rc = CW_CONF_BLOCK_DONE \<or> rc = CW_CONF_FILE_DONE))"

definition lex_done :: "region list \<Rightarrow> int \<Rightarrow> cw_conf \<Rightarrow> lexer \<Rightarrow> bool" where
  "lex_done rs rc cf lx \<longleftrightarrow>
     file_ok (x_file lx) \<and> cf_dump (x_file lx) = 0 \<and> args_ok rs cf \<and> token_result rc cf"

lemmas conf_codes = CW_OK_def CW_ERROR_def CW_CONF_BLOCK_START_def CW_CONF_BLOCK_DONE_def CW_CONF_FILE_DONE_def

lemma token_error [simp]: "token_result CW_ERROR cf"
  by (simp add: token_result_def token_codes_def)

lemma token_words [simp]:
  "counted cf \<Longrightarrow> c_words cf \<noteq> [] \<Longrightarrow> token_result CW_OK cf"
  "counted cf \<Longrightarrow> c_words cf \<noteq> [] \<Longrightarrow> token_result CW_CONF_BLOCK_START cf"
  "counted cf \<Longrightarrow> c_words cf = [] \<Longrightarrow> token_result CW_CONF_BLOCK_DONE cf"
  "counted cf \<Longrightarrow> c_words cf = [] \<Longrightarrow> token_result CW_CONF_FILE_DONE cf"
  by (simp_all add: token_result_def token_codes_def conf_codes)

text \<open>The two outcomes of a round, as one predicate.\<close>

definition lex_good :: "region list \<Rightarrow> lex_result \<Rightarrow> bool" where
  "lex_good rs r = (case r of Return rc cf lx \<Rightarrow> lex_done rs rc cf lx | Next cf lx \<Rightarrow> lex_safe rs cf lx)"

lemma lex_good_simps [simp]:
  "lex_good rs (Return rc cf lx) = lex_done rs rc cf lx"
  "lex_good rs (Next cf lx) = lex_safe rs cf lx"
  by (simp_all add: lex_good_def)

lemma counted_empty: "counted cf \<Longrightarrow> a_nelts (c_args cf) = 0 \<longleftrightarrow> c_words cf = []"
  by (auto simp: counted_def unat_eq_zero)

text \<open>State in which a character has just been taken.\<close>

definition lex_taken :: "region list \<Rightarrow> cw_conf \<Rightarrow> lexer \<Rightarrow> bool" where
  "lex_taken rs cf lx \<longleftrightarrow> lex_safe rs cf lx \<and> x_start lx < bf_pos (x_buf lx)"

lemma lex_found_good:
  assumes ok: "buf_ok lx" "cf_dump (x_file lx) = 0" "args_ok rs cf" "counted cf" "x_start lx < bf_pos (x_buf lx)"
  shows "lex_good rs (lex_found ch cf lx)"
proof -
  have "bf_pos (x_buf lx) < 2 ^ 63" using ok(1) by (simp add: buf_ok_def file_ok_def)
  from ok(3-5) this show ?thesis
    by (cases rule: lex_found_cases [of rs cf lx ch])
      (use ok in \<open>simp_all add: lex_done_def lex_safe_def buf_ok_def\<close>)
qed

lemma lex_first_good:
  assumes "lex_taken rs cf lx"
  shows "lex_good rs (lex_first ch cf lx)"
  using assms counted_empty [of cf]
  by (auto simp: lex_first_def lex_taken_def Let_def lex_safe_def lex_done_def buf_ok_def)

lemma lex_inner_good:
  assumes "lex_taken rs cf lx"
  shows "lex_good rs (lex_inner ch cf lx)"
proof -
  have s: "buf_ok lx" "cf_dump (x_file lx) = 0" "args_ok rs cf" "counted cf" "x_start lx < bf_pos (x_buf lx)"
    "x_need_space lx \<longrightarrow> c_words cf \<noteq> []"
    using assms by (simp_all add: lex_taken_def lex_safe_def)
  then have f: "lex_good rs (lex_found ch cf (lx\<lparr>x_variable := v, x_d_quoted := d, x_need_space := n\<rparr>))"
    "lex_good rs (lex_found ch cf (lx\<lparr>x_variable := v, x_s_quoted := d, x_need_space := n\<rparr>))"
    "lex_good rs (lex_found ch cf (lx\<lparr>x_variable := v, x_last_space := d\<rparr>))" for v d n
    by (auto intro!: lex_found_good simp: buf_ok_def)
  show ?thesis
    using s f by (auto simp: lex_inner_def Let_def lex_safe_def buf_ok_def)
qed

lemma lex_act_good:
  assumes "lex_taken rs cf lx"
  shows "lex_good rs (lex_act ch cf lx)"
proof -
  have t: "lex_taken rs cf (lx\<lparr>x_last_space := True, x_need_space := False\<rparr>)"
    using assms by (simp add: lex_taken_def lex_safe_def buf_ok_def)
  show ?thesis
    using assms lex_first_good [OF assms] lex_inner_good [OF assms] lex_first_good [OF t]
    by (auto simp: lex_act_def lex_char_def Let_def lex_taken_def lex_safe_def lex_done_def buf_ok_def)
qed

lemma lex_refill_good:
  assumes "lex_safe rs cf lx"
  shows "lex_good rs (lex_refill cf lx)"
proof (cases "lex_refill cf lx")
  case (Next cf1 lx1)
  have ok: "buf_ok lx" "cf_dump (x_file lx) = 0" using assms by (simp_all add: lex_safe_def)
  note R = lex_refill_next [OF ok(1) Next]
  show ?thesis
    using assms R args_ok_same counted_same words_same unfolding Next
    by (simp add: lex_safe_def same_flags_def)
next
  case (Return rc cf1 lx1)
  have s: "buf_ok lx" "cf_dump (x_file lx) = 0" "args_ok rs cf" "counted cf" using assms by (simp_all add: lex_safe_def)
  have eof: "lex_good rs (lex_eof cf lx)"
    using s counted_empty [OF s(4)] word_gt_0 [of "a_nelts (c_args cf)"]
    by (auto simp: lex_eof_def lex_done_def buf_ok_def)
  have long: "lex_good rs (lex_too_long cf lx)"
    using s by (simp add: lex_too_long_def Let_def lex_done_def buf_ok_def file_ok_def)
  have rd: "lex_done rs rc cf1 lx1" if "lex_read cf lx = Return rc cf1 lx1"
  proof -
    have "args_ok rs (cf\<lparr>c_sys := s1\<rparr>)" for s1 using s(3) by (simp add: args_ok_def)
    then show ?thesis
      using that s
      by (auto simp: lex_read_def Let_def lex_done_def buf_ok_def file_ok_def cw_read_file_def
          split: prod.splits option.splits if_splits)
  qed
  show ?thesis
    using Return eof long rd unfolding lex_refill_def by (auto split: if_splits)
qed

lemma lex_step_good:
  assumes "lex_safe rs cf lx"
  shows "lex_good rs (lex_step cf lx)"
proof (cases "lex_refill cf lx")
  case (Return rc cf1 lx1)
  then show ?thesis using lex_refill_good [OF assms] by (simp add: lex_step_def)
next
  case (Next cf1 lx1)
  have ok: "buf_ok lx" using assms by (simp add: lex_safe_def)
  note R = lex_refill_next [OF ok Next]
  have s: "lex_safe rs cf1 lx1" using lex_refill_good [OF assms] Next by simp
  obtain ch lx2 where t: "lex_take lx1 = (ch, lx2)" by fastforce
  note T = lex_take_ok [OF R(1,2) t]
  have "lex_taken rs cf1 lx2"
    using s T(1,2,6,9) by (simp add: lex_taken_def lex_safe_def same_flags_def)
  then show ?thesis using Next t by (simp add: lex_step_def lex_act_good)
qed

section \<open>The scanner as a whole\<close>

definition conf_file_ok :: "cw_conf \<Rightarrow> bool" where
  "conf_file_ok cf \<longleftrightarrow> (\<exists>f. c_file cf = Some f \<and> file_ok f \<and> cf_dump f = 0)"

lemma args_ok_reset:
  assumes "args_ok rs cf"
  shows "args_ok rs (cf\<lparr>c_args := (c_args cf)\<lparr>a_nelts := 0\<rparr>, c_words := []\<rparr>)"
  using assms by (auto simp: args_ok_def array_inv_def array_ok_def arr_region_def)

lemma lex_init_safe:
  assumes "args_ok rs cf" and "file_ok f" and "cf_dump f = 0"
  shows "lex_safe rs (cf\<lparr>c_args := (c_args cf)\<lparr>a_nelts := 0\<rparr>, c_words := []\<rparr>) (lex_init f)"
  using args_ok_reset [OF assms(1)] assms(2,3)
  by (simp add: lex_safe_def lex_init_def buf_ok_def counted_def)

lemma read_token_result:
  assumes "args_ok rs cf" and "conf_file_ok cf" and "cw_conf_read_token cf = Some (rc, cf')"
  shows "args_ok rs cf' \<and> conf_file_ok cf' \<and> token_result rc cf'"
proof -
  obtain f where f: "c_file cf = Some f" "file_ok f" "cf_dump f = 0" using assms(2) by (auto simp: conf_file_ok_def)
  obtain cf1 lx1 where l: "lex_loop (cf\<lparr>c_args := (c_args cf)\<lparr>a_nelts := 0\<rparr>, c_words := []\<rparr>) (lex_init f) = Some (rc, cf1, lx1)"
    and cf': "cf' = cf1\<lparr>c_file := Some (x_file lx1)\<rparr>"
    using assms(3) f by (auto simp: cw_conf_read_token_def)
  have "lex_done rs rc cf1 lx1"
    by (rule lex_loop_rule [OF l, where I = "lex_safe rs"])
      (use lex_init_safe [OF assms(1) f(2,3)] lex_step_good in \<open>force simp: lex_safe_def\<close>)+
  then show ?thesis
    by (simp add: cf' lex_done_def conf_file_ok_def args_ok_def token_result_def counted_def)
qed

lemma read_token_ends:
  assumes "conf_file_ok cf"
  shows "\<exists>rc cf'. cw_conf_read_token cf = Some (rc, cf')"
proof -
  obtain f where f: "c_file cf = Some f" "file_ok f" using assms by (auto simp: conf_file_ok_def)
  then have "buf_ok (lex_init f)" by (simp add: buf_ok_def lex_init_def)
  from lex_loop_ends [OF this] f show ?thesis
    by (auto simp: cw_conf_read_token_def)
qed

end
