(* ===== verification/Conf_Spec.thy ===== *)
theory Conf_Spec
  imports Conf_Lex_Safe
begin

text \<open>
  The language of configuration files, as a scanner over the whole input: no buffer, no
  memory, no flags that do not belong together.  \<open>Conf_Refine\<close> shows that
  \<open>cw_conf_read_token\<close> implements it; here are the definition and the facts about the
  language itself: what quoting a word does, and that the backslashes the scanner pairs are
  the ones the copy loop pairs.
\<close>

section \<open>The scanner\<close>

datatype inner = Normal | Escaped | Dollar

datatype scan_mode = Gap | Comment | AfterQuote | Plain inner | Quoted u8 inner

datatype scan_result = Tokens int "u8 list list" "u8 list" | Broken

text \<open>The characters inside a token that never end it.\<close>

fun absorb :: "inner \<Rightarrow> u8 \<Rightarrow> inner option" where
  "absorb Escaped ch = Some Normal"
| "absorb i ch =
     (if ch = 123 \<and> i = Dollar then Some Dollar
      else if ch = 92 then Some Escaped
      else if ch = 36 then Some Dollar
      else None)"

definition end_code :: "u8 \<Rightarrow> int" where
  "end_code ch = (if ch = 59 then CW_OK else CW_CONF_BLOCK_START)"

text \<open>\<open>acc\<close> is the token begun, \<open>ws\<close> are the words complete.\<close>

fun scan :: "scan_mode \<Rightarrow> u8 list \<Rightarrow> u8 list list \<Rightarrow> u8 list \<Rightarrow> scan_result" where
  "scan m acc ws [] = (if ws = [] \<and> (m = Gap \<or> m = Comment) then Tokens CW_CONF_FILE_DONE [] [] else Broken)"
| "scan Gap acc ws (ch # s) =
     (if is_space ch then scan Gap [] ws s
      else if ch = 59 \<or> ch = 123 then (if ws = [] then Broken else Tokens (end_code ch) ws s)
      else if ch = 125 then (if ws = [] then Tokens CW_CONF_BLOCK_DONE [] s else Broken)
      else if ch = 35 then scan Comment [] ws s
      else if ch = 92 then scan (Plain Escaped) [ch] ws s
      else if ch = 34 \<or> ch = 39 then scan (Quoted ch Normal) [] ws s
      else scan (Plain Normal) [ch] ws s)"
| "scan Comment acc ws (ch # s) = (if ch = LF then scan Gap [] ws s else scan Comment [] ws s)"
| "scan AfterQuote acc ws (ch # s) =
     (if is_space ch then scan Gap [] ws s
      else if ch = 59 \<or> ch = 123 then Tokens (end_code ch) ws s
      else if ch = 41 then scan (Plain Normal) [ch] ws s
      else Broken)"
| "scan (Plain i) acc ws (ch # s) =
     (case absorb i ch of
        Some j \<Rightarrow> scan (Plain j) (acc @ [ch]) ws s
      | None \<Rightarrow>
          if is_space ch then scan Gap [] (ws @ [unescape acc ch]) s
          else if ch = 59 \<or> ch = 123 then Tokens (end_code ch) (ws @ [unescape acc ch]) s
          else scan (Plain Normal) (acc @ [ch]) ws s)"
| "scan (Quoted q i) acc ws (ch # s) =
     (case absorb i ch of
        Some j \<Rightarrow> scan (Quoted q j) (acc @ [ch]) ws s
      | None \<Rightarrow>
          if ch = q then scan AfterQuote [] (ws @ [unescape acc ch]) s
          else scan (Quoted q Normal) (acc @ [ch]) ws s)"

section \<open>Pairs of backslashes\<close>

text \<open>
  The scanner pairs a backslash with the character after it; so does the copy.  A token
  that is complete has no unpaired backslash at its end, so the copy never looks at the
  character that ended the token.
\<close>

fun open_escape :: "bool \<Rightarrow> u8 list \<Rightarrow> bool" where
  "open_escape e [] = e"
| "open_escape e (c # s) = open_escape (\<not> e \<and> c = 92) s"

lemma open_escape_append: "open_escape e (s @ s') = open_escape (open_escape e s) s'"
  by (induction s arbitrary: e) simp_all

lemma unescape_closed:
  "\<not> open_escape False s \<Longrightarrow> unescape s t = unescape s t'"
proof (induction s t rule: unescape.induct)
  case (2 c s t)
  show ?case
  proof (cases "c = 92")
    case False
    then show ?thesis using 2 by simp
  next
    case True
    then obtain e s' where s: "s = e # s'" using "2.prems" by (cases s) simp_all
    have closed: "\<not> open_escape False s'" using "2.prems" True s by simp
    have other: "\<not> open_escape False s" if "e \<noteq> 92" using closed that by (simp add: s)
    show ?thesis
      using 2 True closed other unfolding s by (simp add: Let_def)
  qed
qed simp

text \<open>What the accumulated token looks like in each state of the scanner.\<close>

lemma absorb_escape:
  "absorb i ch = Some j \<Longrightarrow> open_escape (i = Escaped) [ch] = (j = Escaped)"
  "absorb i ch = None \<Longrightarrow> i \<noteq> Escaped \<and> ch \<noteq> 92"
  by (cases i; auto split: if_splits)+

section \<open>Quoting\<close>

text \<open>A word in double quotes, with the characters that need it escaped.\<close>

fun escape :: "u8 list \<Rightarrow> u8 list" where
  "escape [] = []"
| "escape (c # s) = (if c = 34 \<or> c = 92 then 92 # c # escape s else c # escape s)"

definition quote :: "u8 list \<Rightarrow> u8 list" where
  "quote w = 34 # escape w @ [34]"

text \<open>
  One corner of the language: a dollar sign makes the scanner absorb a brace, and nothing
  else, so quoting is transparent.
\<close>

lemma absorb_normal: "i \<noteq> Escaped \<Longrightarrow> absorb i 92 = Some Escaped"
  by (cases i) simp_all

lemma scan_escaped:
  "i \<noteq> Escaped \<Longrightarrow> \<exists>j. j \<noteq> Escaped \<and>
     scan (Quoted 34 i) acc ws (escape w @ s) = scan (Quoted 34 j) (acc @ escape w) ws s"
proof (induction w arbitrary: i acc)
  case (Cons c w)
  have step: "\<exists>j. j \<noteq> Escaped \<and> scan (Quoted 34 i) acc ws (c # t) = scan (Quoted 34 j) (acc @ [c]) ws t"
    if "c \<noteq> 34" "c \<noteq> 92" for t
    using that Cons.prems by (cases i) auto
  show ?case
  proof (cases "c = 34 \<or> c = 92")
    case True
    then have "scan (Quoted 34 i) acc ws (escape (c # w) @ s) =
      scan (Quoted 34 Normal) (acc @ [92, c]) ws (escape w @ s)"
      using absorb_normal [OF Cons.prems] by auto
    then show ?thesis using Cons.IH [of Normal "acc @ [92, c]"] True by auto
  next
    case False
    then obtain j where j: "j \<noteq> Escaped"
      and eq: "scan (Quoted 34 i) acc ws (c # escape w @ s) = scan (Quoted 34 j) (acc @ [c]) ws (escape w @ s)"
      using step by blast
    then show ?thesis using Cons.IH [OF j, of "acc @ [c]"] False by auto
  qed
qed auto

lemma unescape_escape: "unescape (escape w) t = w"
proof (induction w)
  case (Cons c w)
  then show ?case by (auto simp: Let_def)
qed simp

lemma scan_quote:
  "scan Gap [] ws (quote w @ s) = scan AfterQuote [] (ws @ [w]) s"
proof -
  obtain j where j: "j \<noteq> Escaped"
    and eq: "scan (Quoted 34 Normal) [] ws (escape w @ 34 # s) = scan (Quoted 34 j) (escape w) ws (34 # s)"
    using scan_escaped [of Normal "[]" ws w "34 # s"] by auto
  have "scan Gap [] ws (quote w @ s) = scan (Quoted 34 Normal) [] ws (escape w @ 34 # s)"
    by (simp add: quote_def is_space_def cw_sizes)
  also have "\<dots> = scan AfterQuote [] (ws @ [w]) s"
    unfolding eq using j by (cases j) (simp_all add: unescape_escape)
  finally show ?thesis .
qed

text \<open>A directive: its words quoted, separated by blanks, and the character that ends it.\<close>

fun directive :: "u8 list list \<Rightarrow> u8 \<Rightarrow> u8 list" where
  "directive [] t = [t]"
| "directive (w # ws) t = 32 # quote w @ directive ws t"

lemma scan_directive:
  "ws0 @ ws \<noteq> [] \<Longrightarrow> t = 59 \<or> t = 123 \<Longrightarrow>
     scan Gap [] ws0 (directive ws t @ s) = Tokens (end_code t) (ws0 @ ws) s \<and>
     (ws0 \<noteq> [] \<longrightarrow> scan AfterQuote [] ws0 (directive ws t @ s) = Tokens (end_code t) (ws0 @ ws) s)"
proof (induction ws arbitrary: ws0)
  case Nil
  then show ?case by (auto simp: is_space_def cw_sizes)
next
  case (Cons w ws)
  have sp: "is_space 32" by (simp add: is_space_def)
  have "scan Gap [] ws0 (directive (w # ws) t @ s) = scan AfterQuote [] (ws0 @ [w]) (directive ws t @ s)"
    using scan_quote [of ws0 w "directive ws t @ s"] by (simp add: sp)
  moreover have "scan AfterQuote [] ws0 (directive (w # ws) t @ s) = scan AfterQuote [] (ws0 @ [w]) (directive ws t @ s)"
    using scan_quote [of ws0 w "directive ws t @ s"] by (simp add: sp)
  ultimately show ?case using Cons.IH [of "ws0 @ [w]"] Cons.prems by simp
qed

section \<open>The result of the scanner\<close>

lemma scan_tokens:
  assumes "scan m acc ws s = Tokens rc ws' rest" and "m = AfterQuote \<longrightarrow> ws \<noteq> []"
  shows "(rc = CW_OK \<or> rc = CW_CONF_BLOCK_START) \<and> ws' \<noteq> [] \<or>
    (rc = CW_CONF_BLOCK_DONE \<or> rc = CW_CONF_FILE_DONE) \<and> ws' = []"
  using assms
  by (induction m acc ws s rule: scan.induct)
    (auto simp: end_code_def split: if_splits option.splits)

lemma scan_shorter: "scan m acc ws s = Tokens rc ws' rest \<Longrightarrow> rc \<noteq> CW_CONF_FILE_DONE \<Longrightarrow> length rest < length s"
  by (induction m acc ws s rule: scan.induct) (auto split: if_splits option.splits dest: less_SucI)

lemma scan_suffix:
  assumes "scan m acc ws s = Tokens rc ws' rest"
  shows "\<exists>t. s = t @ rest"
  using assms
proof (induction m acc ws s rule: scan.induct)
  case (1 m acc ws)
  then show ?case by (auto split: if_splits)
qed (force split: if_splits option.splits)+

end
