(* ===== verification/Conf_Refine.thy ===== *)
theory Conf_Refine
  imports Conf_Spec
begin

text \<open>
  \<open>cw_conf_read_token\<close> implements the scanner of \<open>Conf_Spec\<close>: whatever the file, the
  size of the buffer never shows, except that a token (or a run of blanks or a comment) of
  4096 bytes is refused, and that the C library or the system may refuse a request.
\<close>

section \<open>The input that is left\<close>

text \<open>
  \<open>reads content f s\<close>: the file \<open>f\<close> holds \<open>content\<close>, its size is known, and
  \<open>pread\<close> answers with bytes of it (possibly fewer than asked for) or an error.
\<close>

definition reads :: "u8 list \<Rightarrow> cw_file \<Rightarrow> sys \<Rightarrow> bool" where
  "reads content f s \<longleftrightarrow>
     f_size f = int (length content) \<and> 0 \<le> f_offset f \<and>
     (\<forall>t n off bs. 0 \<le> off \<longrightarrow> sy_pread s t (f_fd f) n off = Some bs \<longrightarrow>
        (\<exists>k\<le>n. bs = take k (drop (nat off) content)))"

definition buffered :: "cw_buf \<Rightarrow> u8 list" where
  "buffered b = map (bf_mem b) [bf_pos b..<bf_last b]"

definition input_of :: "u8 list \<Rightarrow> cw_conf_file \<Rightarrow> u8 list" where
  "input_of content f = buffered (cf_buffer f) @ drop (nat (f_offset (cf_file f))) content"

text \<open>The bytes of the token begun.\<close>

definition begun :: "lexer \<Rightarrow> u8 list" where
  "begun lx = map (bf_mem (x_buf lx)) [x_start lx..<bf_pos (x_buf lx)]"

lemma map_upt_shift:
  assumes "\<And>i. i < n \<Longrightarrow> f (a + i) = g (b + i)"
  shows "map f [a..<a + n] = map g [b..<b + n]"
  using assms by (intro nth_equalityI) auto

lemma upt_split: "a \<le> b \<Longrightarrow> b \<le> c \<Longrightarrow> [a..<c] = [a..<b] @ [b..<c]"
  using upt_add_eq_append [of a b "c - b"] by simp

text \<open>A read at the file's offset gives the next bytes of its content.\<close>

lemma read_file_next:
  assumes r: "reads content file s" and rf: "cw_read_file s file n (f_offset file) = (s1, file1, Some bs)"
    and bs: "length bs = n"
  shows "bs = take n (drop (nat (f_offset file)) content)" "nat (f_offset file1) = nat (f_offset file) + n"
    "reads content file1 s1"
proof -
  note F = cw_read_file_frame [OF rf]
  have off: "0 \<le> f_offset file" using r by (simp add: reads_def)
  have pr: "sy_pread s (sy_time s) (f_fd file) n (f_offset file) = Some bs"
    using rf by (auto simp: cw_read_file_def split: option.splits)
  then obtain k where "k \<le> n" and k: "bs = take k (drop (nat (f_offset file)) content)"
    using r off unfolding reads_def by blast
  show "bs = take n (drop (nat (f_offset file)) content)"
    using k bs \<open>k \<le> n\<close> by (metis length_take min.cobounded2 min_def nat_le_linear order_antisym take_all_iff)
  show "nat (f_offset file1) = nat (f_offset file) + n" using F(7) bs off by simp
  show "reads content file1 s1" using r F off by (simp add: reads_def)
qed

text \<open>A refill changes neither the input that is left nor the token begun.\<close>

lemma lex_refill_input:
  assumes ok: "buf_ok lx" and c: "lex_refill cf lx = Next cf1 lx1" and r: "reads content (cf_file (x_file lx)) (c_sys cf)"
  shows "input_of content (x_file lx1) = input_of content (x_file lx)" and "begun lx1 = begun lx"
    and "reads content (cf_file (x_file lx1)) (c_sys cf1)" and "c_log cf1 = c_log cf"
proof -
  let ?P = "input_of content (x_file lx1) = input_of content (x_file lx) \<and> begun lx1 = begun lx \<and>
    reads content (cf_file (x_file lx1)) (c_sys cf1) \<and> c_log cf1 = c_log cf"
  have ?P
  proof (cases "bf_pos (x_buf lx) < bf_last (x_buf lx)")
    case True
    then show ?thesis using c r by (simp add: lex_refill_def)
  next
    case False
    then have more: "f_offset (cf_file (x_file lx)) < f_size (cf_file (x_file lx))"
      and short: "bf_pos (x_buf lx) - x_start lx \<noteq> CW_CONF_BUFFER" and rd: "lex_read cf lx = Next cf1 lx1"
      using c by (auto simp: lex_refill_def lex_eof_returns lex_too_long_returns split: if_splits)
    have full: "bf_last (x_buf lx) \<le> bf_pos (x_buf lx)" using False by simp
    show ?thesis
    proof (rule lex_read_next [OF ok full more short rd])
      fix s1 file1 bs n len
      let ?off = "f_offset (cf_file (x_file lx))"
      assume len: "len = bf_pos (x_buf lx) - x_start lx"
        and n: "n = min (nat (f_size (cf_file (x_file lx)) - ?off)) (CW_CONF_BUFFER - len)"
        and rf: "cw_read_file (c_sys cf) (cf_file (x_file lx)) n ?off = (s1, file1, Some bs)"
        and bs: "length bs = n"
        and cf1: "cf1 = (if cf_dump (x_file lx) \<noteq> 0 then faulty (cf\<lparr>c_sys := s1\<rparr>) else cf\<lparr>c_sys := s1\<rparr>)"
        and lx1: "cf_file (x_file lx1) = file1" "x_start lx1 = 0" "bf_pos (x_buf lx1) = len"
          "bf_last (x_buf lx1) = len + n"
        and old: "\<And>i. i < len \<Longrightarrow> bf_mem (x_buf lx1) i = bf_mem (x_buf lx) (x_start lx + i)"
        and new: "\<And>i. i < n \<Longrightarrow> bf_mem (x_buf lx1) (len + i) = bs ! i"
      note R = read_file_next [OF r rf bs]
      have "map (bf_mem (x_buf lx1)) [len..<len + n] = bs"
        using new bs by (intro nth_equalityI) simp_all
      then have "input_of content (x_file lx1) = drop (nat ?off) content"
        by (simp add: input_of_def buffered_def lx1 R(1,2) add.commute flip: drop_drop)
      moreover have "input_of content (x_file lx) = drop (nat ?off) content"
        using full by (simp add: input_of_def buffered_def)
      moreover have "begun lx1 = begun lx"
      proof -
        have "x_start lx \<le> bf_pos (x_buf lx)" using ok by (simp add: buf_ok_def)
        then show ?thesis
          using map_upt_shift [of len "bf_mem (x_buf lx1)" 0 "bf_mem (x_buf lx)" "x_start lx"] old len
          by (simp add: begun_def lx1)
      qed
      ultimately show ?thesis using R(3) by (simp add: cf1 lx1)
    qed
  qed
  then show "input_of content (x_file lx1) = input_of content (x_file lx)" and "begun lx1 = begun lx"
    and "reads content (cf_file (x_file lx1)) (c_sys cf1)" and "c_log cf1 = c_log cf" by blast+
qed

text \<open>Taking a character takes it off the input and adds it to the token begun.\<close>

lemma lex_take_input:
  assumes "buf_ok lx" and "bf_pos (x_buf lx) < bf_last (x_buf lx)" and "lex_take lx = (ch, lx1)"
  shows "input_of content (x_file lx) = ch # input_of content (x_file lx1)" and "begun lx1 = begun lx @ [ch]"
    and "token_bytes lx1 = begun lx"
proof -
  note T = lex_take_ok [OF assms]
  let ?b = "x_buf lx"
  have "[bf_pos ?b..<bf_last ?b] = bf_pos ?b # [bf_pos ?b + 1..<bf_last ?b]"
    using assms(2) by (simp add: upt_conv_Cons)
  then show "input_of content (x_file lx) = ch # input_of content (x_file lx1)"
    by (simp add: input_of_def buffered_def T)
  show "begun lx1 = begun lx @ [ch]" using assms(1) by (simp add: begun_def T buf_ok_def)
  show "token_bytes lx1 = begun lx" by (simp add: begun_def token_bytes_def T)
qed

section \<open>The states of the two scanners\<close>

definition flags_of :: "lexer \<Rightarrow> bool \<times> bool \<times> bool \<times> bool \<times> bool \<times> bool \<times> bool" where
  "flags_of lx = (x_last_space lx, x_sharp_comment lx, x_need_space lx, x_quoted lx, x_variable lx,
     x_s_quoted lx, x_d_quoted lx)"

fun mode_flags :: "scan_mode \<Rightarrow> bool \<times> bool \<times> bool \<times> bool \<times> bool \<times> bool \<times> bool" where
  "mode_flags Gap = (True, False, False, False, False, False, False)"
| "mode_flags Comment = (True, True, False, False, False, False, False)"
| "mode_flags AfterQuote = (False, False, True, False, False, False, False)"
| "mode_flags (Plain i) = (False, False, False, i = Escaped, i = Dollar, False, False)"
| "mode_flags (Quoted q i) = (False, False, False, i = Escaped, i = Dollar, q = 39, q = 34)"

fun good_mode :: "scan_mode \<Rightarrow> bool" where
  "good_mode (Quoted q i) \<longleftrightarrow> q = 34 \<or> q = 39"
| "good_mode m \<longleftrightarrow> True"

fun in_token :: "scan_mode \<Rightarrow> bool" where
  "in_token (Plain i) = True"
| "in_token (Quoted q i) = True"
| "in_token m = False"

definition words_of :: "cw_conf \<Rightarrow> u8 list list" where
  "words_of cf = map s_bytes (c_words cf)"

text \<open>Why a call may fail although its input is well formed.\<close>

definition trouble :: "cw_conf \<Rightarrow> cw_conf \<Rightarrow> bool" where
  "trouble cf0 cf \<longleftrightarrow>
     refusal (c_heap cf0) (c_heap cf) \<or> c_log cf = c_log cf0 @ [ReadFailed] \<or>
     (\<exists>n k. c_log cf = c_log cf0 @ [ShortRead n k]) \<or> (\<exists>k. c_log cf = c_log cf0 @ [TooLongParam k]) \<or>
     (\<exists>q. c_log cf = c_log cf0 @ [MissingTerminator q])"

definition later :: "cw_conf \<Rightarrow> cw_conf \<Rightarrow> bool" where
  "later cf0 cf \<longleftrightarrow> h_libc (c_heap cf) = h_libc (c_heap cf0) \<and> h_refused (c_heap cf0) \<le> h_refused (c_heap cf) \<and>
     c_log cf = c_log cf0"

text \<open>
  The simulation: \<open>sim res\<close> relates a state of the loop to what the scanner makes of the
  token, the words and the input it stands for; \<open>sim_done res\<close> relates a result.
\<close>

definition sim :: "cw_conf \<Rightarrow> u8 list \<Rightarrow> scan_result \<Rightarrow> cw_conf \<Rightarrow> lexer \<Rightarrow> bool" where
  "sim cf0 content res cf lx \<longleftrightarrow>
     later cf0 cf \<and> reads content (cf_file (x_file lx)) (c_sys cf) \<and>
     (\<exists>m acc. good_mode m \<and> flags_of lx = mode_flags m \<and> (in_token m \<longrightarrow> acc = begun lx) \<and>
        scan m acc (words_of cf) (input_of content (x_file lx)) = res)"

definition sim_done :: "cw_conf \<Rightarrow> u8 list \<Rightarrow> scan_result \<Rightarrow> int \<Rightarrow> cw_conf \<Rightarrow> lexer \<Rightarrow> bool" where
  "sim_done cf0 content res rc cf lx \<longleftrightarrow>
     (case res of
        Tokens rc0 ws rest \<Rightarrow>
          (rc = rc0 \<and> words_of cf = ws \<and> input_of content (x_file lx) = rest \<and> later cf0 cf \<and>
            reads content (cf_file (x_file lx)) (c_sys cf)) \<or>
          (rc = CW_ERROR \<and> trouble cf0 cf)
      | Broken \<Rightarrow> rc = CW_ERROR)"

definition sim_result :: "cw_conf \<Rightarrow> u8 list \<Rightarrow> scan_result \<Rightarrow> lex_result \<Rightarrow> bool" where
  "sim_result cf0 content res r =
     (case r of Return rc cf lx \<Rightarrow> sim_done cf0 content res rc cf lx | Next cf lx \<Rightarrow> sim cf0 content res cf lx)"

lemma sim_result_simps [simp]:
  "sim_result cf0 content res (Return rc cf lx) = sim_done cf0 content res rc cf lx"
  "sim_result cf0 content res (Next cf lx) = sim cf0 content res cf lx"
  by (simp_all add: sim_result_def)

lemma sim_done_trouble: "trouble cf0 cf \<Longrightarrow> sim_done cf0 content res CW_ERROR cf lx"
  by (simp add: sim_done_def split: scan_result.splits)

lemma sim_done_broken [simp]: "sim_done cf0 content Broken CW_ERROR cf lx"
  by (simp add: sim_done_def)

section \<open>One character\<close>

text \<open>
  In all that follows a character \<open>ch\<close> has just been taken, \<open>begun\<close> ends with it,
  and \<open>input_of\<close> is what comes after it.
\<close>

lemma flags_simps [simp]:
  "flags_of (lx\<lparr>x_start := k\<rparr>) = flags_of lx" "flags_of (lx\<lparr>x_start_line := l\<rparr>) = flags_of lx"
  by (simp_all add: flags_of_def)

lemma lex_found_sim:
  assumes ok: "buf_ok lx" "args_ok rs cf" "counted cf" "x_start lx < bf_pos (x_buf lx)"
    and st: "later cf0 cf" "reads content (cf_file (x_file lx)) (c_sys cf)"
    and m: "flags_of lx = mode_flags m" "good_mode m" "\<not> in_token m"
    and res: "res = (if ch = 59 \<or> ch = 123
      then Tokens (end_code ch) (words_of cf @ [unescape (token_bytes lx) ch]) (input_of content (x_file lx))
      else scan m [] (words_of cf @ [unescape (token_bytes lx) ch]) (input_of content (x_file lx)))"
  shows "sim_result cf0 content res (lex_found ch cf lx)"
proof -
  have "bf_pos (x_buf lx) < 2 ^ 63" using ok(1) by (simp add: buf_ok_def file_ok_def)
  from ok(2-4) this show ?thesis
  proof (cases rule: lex_found_cases [of rs cf lx ch])
    case (refused cf1)
    have "refusal (c_heap cf0) (c_heap cf1)"
      using refused(3) st(1) unfolding later_def by (intro refusal_later [OF refused(3)]) simp_all
    then show ?thesis unfolding refused(1) by (simp add: sim_done_trouble trouble_def)
  next
    case (word cf1 data)
    have l: "later cf0 cf1" using st(1) word(5-7) by (simp add: later_def)
    have w: "words_of cf1 = words_of cf @ [unescape (token_bytes lx) ch]"
      by (simp add: words_of_def word(8))
    show ?thesis
    proof (cases "ch = 59 \<or> ch = 123")
      case True
      then show ?thesis unfolding word(1) res
        using l st(2) word(4) by (auto simp: sim_done_def w end_code_def)
    next
      case False
      then have "sim cf0 content res cf1 lx"
        using l st(2) word(4) m unfolding sim_def res by (intro conjI exI [of _ m] exI [of _ "[]"]) (auto simp: w)
      then show ?thesis unfolding word(1) using False by simp
    qed
  qed
qed

lemma simI:
  assumes "later cf0 cf" and "reads content (cf_file (x_file lx)) (c_sys cf)" and "good_mode m"
    and "flags_of lx = mode_flags m" and "in_token m \<longrightarrow> acc = begun lx"
    and "res = scan m acc (words_of cf) (input_of content (x_file lx))"
  shows "sim cf0 content res cf lx"
  using assms unfolding sim_def by blast

lemma words_of_empty: "counted cf \<Longrightarrow> a_nelts (c_args cf) = 0 \<longleftrightarrow> words_of cf = []"
  by (simp add: counted_empty words_of_def)

lemma begun_from:
  "x_start lx < bf_pos (x_buf lx) \<Longrightarrow> begun (lx\<lparr>x_start := bf_pos (x_buf lx) - 1, x_start_line := l\<rparr>) =
     [bf_mem (x_buf lx) (bf_pos (x_buf lx) - 1)]"
  by (simp add: begun_def upt_conv_Cons)

lemma begun_after:
  "begun (lx\<lparr>x_start := bf_pos (x_buf lx)\<rparr>) = []"
  by (simp add: begun_def)

text \<open>Between tokens.\<close>

lemma lex_first_sim:
  assumes ok: "counted cf" "x_start lx < bf_pos (x_buf lx)"
    and st: "later cf0 cf" "reads content (cf_file (x_file lx)) (c_sys cf)"
    and m: "flags_of lx = mode_flags Gap" and ch: "ch = bf_mem (x_buf lx) (bf_pos (x_buf lx) - 1)"
  shows "sim_result cf0 content (scan Gap acc (words_of cf) (ch # input_of content (x_file lx))) (lex_first ch cf lx)"
proof -
  have p: "Suc (bf_pos (x_buf lx) - 1) = bf_pos (x_buf lx)" using ok(2) by simp
  have b: "begun (lx\<lparr>x_start := bf_pos (x_buf lx) - 1, x_start_line := l, x_quoted := q, x_last_space := s\<rparr>) = [ch]"
    "begun (lx\<lparr>x_start := bf_pos (x_buf lx) - 1, x_start_line := l, x_last_space := s\<rparr>) = [ch]"
 for l q s
    using ok(2) by (simp_all add: begun_def upt_conv_Cons ch)
  consider "is_space ch" | "\<not> is_space ch" "ch = 59 \<or> ch = 123" | "ch = 125" | "ch = 35" | "ch = 92" | "ch = 34"
    | "ch = 39" | "\<not> is_space ch" "ch \<notin> {59, 123, 125, 35, 92, 34, 39}"
    by blast
  then show ?thesis
  proof cases
    case 1
    then show ?thesis using st m
      by (simp add: lex_first_def) (rule simI [where m = Gap and acc = "[]"]; simp)
  next
    case 2
    then show ?thesis using words_of_empty [OF ok(1)] st
      by (auto simp: lex_first_def Let_def sim_done_def end_code_def)
  next
    case 3
    then show ?thesis using words_of_empty [OF ok(1)] st
      by (auto simp: lex_first_def Let_def sim_done_def is_space_def cw_sizes)
  next
    case 4
    then show ?thesis using st m
      by (simp add: lex_first_def Let_def is_space_def cw_sizes)
        (rule simI [where m = Comment and acc = "[]"]; simp add: flags_of_def)
  next
    case 5
    then show ?thesis using st m b
      by (simp add: lex_first_def Let_def is_space_def cw_sizes)
        (rule simI [where m = "Plain Escaped" and acc = "[92]"]; simp add: flags_of_def)
  next
    case 6
    then show ?thesis using st m b p
      by (simp add: lex_first_def Let_def is_space_def cw_sizes)
        (rule simI [where m = "Quoted 34 Normal" and acc = "[]"]; simp add: flags_of_def begun_def)
  next
    case 7
    then show ?thesis using st m b p
      by (simp add: lex_first_def Let_def is_space_def cw_sizes)
        (rule simI [where m = "Quoted 39 Normal" and acc = "[]"]; simp add: flags_of_def begun_def)
  next
    case 8
    then show ?thesis using st m b
      by (simp add: lex_first_def Let_def)
        (rule simI [where m = "Plain Normal" and acc = "[ch]"]; simp add: flags_of_def)
  qed
qed

text \<open>Inside a token.  \<open>m\<close> is \<open>Plain\<close> or \<open>Quoted\<close>, not escaped.\<close>

lemma absorb_open:
  "i \<noteq> Escaped \<Longrightarrow> absorb i ch =
     (if ch = 123 \<and> i = Dollar then Some Dollar else if ch = 92 then Some Escaped
      else if ch = 36 then Some Dollar else None)"
  by (cases i) simp_all

lemma begun_flags [simp]:
  "begun (lx\<lparr>x_variable := v\<rparr>) = begun lx" "begun (lx\<lparr>x_quoted := v\<rparr>) = begun lx"
  by (simp_all add: begun_def)

definition mid_token :: "region list \<Rightarrow> cw_conf \<Rightarrow> u8 list \<Rightarrow> cw_conf \<Rightarrow> lexer \<Rightarrow> scan_mode \<Rightarrow> inner \<Rightarrow> u8 list \<Rightarrow> u8 \<Rightarrow> bool" where
  "mid_token rs cf0 content cf lx m i acc ch \<longleftrightarrow>
     buf_ok lx \<and> args_ok rs cf \<and> counted cf \<and> x_start lx < bf_pos (x_buf lx) \<and>
     later cf0 cf \<and> reads content (cf_file (x_file lx)) (c_sys cf) \<and>
     flags_of lx = mode_flags m \<and> good_mode m \<and> i \<noteq> Escaped \<and> begun lx = acc @ [ch] \<and> token_bytes lx = acc"

lemma mid_tokenD:
  assumes "mid_token rs cf0 content cf lx m i acc ch"
  shows "buf_ok lx" "args_ok rs cf" "counted cf" "x_start lx < bf_pos (x_buf lx)" "later cf0 cf"
    "reads content (cf_file (x_file lx)) (c_sys cf)" "flags_of lx = mode_flags m" "good_mode m" "i \<noteq> Escaped"
    "begun lx = acc @ [ch]" "token_bytes lx = acc"
  using assms by (simp_all add: mid_token_def)

lemma mid_flags:
  assumes "mid_token rs cf0 content cf lx m i acc ch" and "m = Plain i \<or> m = Quoted q i"
  shows "x_variable lx = (i = Dollar)" "\<not> x_last_space lx" "\<not> x_sharp_comment lx" "\<not> x_need_space lx" "\<not> x_quoted lx"
  using mid_tokenD(7-9) [OF assms(1)] assms(2) by (auto simp: flags_of_def)

text \<open>The token goes on.\<close>

lemma mid_stays:
  assumes "mid_token rs cf0 content cf lx m i acc ch" and "flags_of lx1 = mode_flags m1" and "good_mode m1"
    and "begun lx1 = acc @ [ch]" and "x_file lx1 = x_file lx"
  shows "sim cf0 content (scan m1 (acc @ [ch]) (words_of cf) (input_of content (x_file lx))) cf lx1"
  using assms mid_tokenD(5,6) [OF assms(1)] by (intro simI [where m = m1 and acc = "acc @ [ch]"]) simp_all

text \<open>The token ends.\<close>

lemma mid_ends:
  assumes mid: "mid_token rs cf0 content cf lx m i acc ch"
    and l1: "x_file lx1 = x_file lx" "x_start lx1 = x_start lx" "flags_of lx1 = mode_flags m1" "good_mode m1" "\<not> in_token m1"
    and res: "res = (if ch = 59 \<or> ch = 123
      then Tokens (end_code ch) (words_of cf @ [unescape acc ch]) (input_of content (x_file lx))
      else scan m1 [] (words_of cf @ [unescape acc ch]) (input_of content (x_file lx)))"
  shows "sim_result cf0 content res (lex_found ch cf lx1)"
proof (rule lex_found_sim [of lx1 rs])
  have "token_bytes lx1 = acc" using mid_tokenD(11) [OF mid] l1(1,2) by (simp add: token_bytes_def)
  then show "res = (if ch = 59 \<or> ch = 123
     then Tokens (end_code ch) (words_of cf @ [unescape (token_bytes lx1) ch]) (input_of content (x_file lx1))
     else scan m1 [] (words_of cf @ [unescape (token_bytes lx1) ch]) (input_of content (x_file lx1)))"
    unfolding res by (simp add: l1(1))
qed (use l1 mid_tokenD(1-6) [OF mid] in \<open>simp_all add: buf_ok_def\<close>)

text \<open>A backslash, a dollar, or the brace after one.\<close>

lemma inner_absorb_sim:
  assumes mid: "mid_token rs cf0 content cf lx m i acc ch" and i: "m = Plain i \<or> m = Quoted q i"
    and a: "absorb i ch = Some j"
  shows "sim_result cf0 content (scan m acc (words_of cf) (ch # input_of content (x_file lx))) (lex_inner ch cf lx)"
proof -
  note fl = mid_flags [OF mid i] and M = mid_tokenD [OF mid]
  define mj where "mj = (case m of Plain i \<Rightarrow> Plain j | Quoted q i \<Rightarrow> Quoted q j | _ \<Rightarrow> m)"
  have s: "scan m acc (words_of cf) (ch # input_of content (x_file lx)) =
      scan mj (acc @ [ch]) (words_of cf) (input_of content (x_file lx))"
    using i a by (auto simp: mj_def)
  have gm: "good_mode mj" using i M(8) by (auto simp: mj_def)
  have mf: "mode_flags mj = (False, False, False, j = Escaped, j = Dollar, x_s_quoted lx, x_d_quoted lx)"
    using i M(7) by (auto simp: mj_def flags_of_def)
  consider "ch = 123" "i = Dollar" "j = Dollar" | "ch = 92" "j = Escaped" | "ch = 36" "j = Dollar"
    using a unfolding absorb_open [OF M(9), of ch] by (auto split: if_splits)
  then obtain lx1 where l1: "lex_inner ch cf lx = Next cf lx1" "flags_of lx1 = mode_flags mj" "begun lx1 = begun lx"
    "x_file lx1 = x_file lx"
  proof cases
    case 1
    then show ?thesis using that [of lx] fl by (simp add: lex_inner_def mf flags_of_def)
  next
    case 2
    then show ?thesis using that [of "lx\<lparr>x_variable := False, x_quoted := True\<rparr>"] fl
      by (simp add: lex_inner_def mf flags_of_def)
  next
    case 3
    then show ?thesis using that [of "lx\<lparr>x_variable := True\<rparr>"] fl by (simp add: lex_inner_def mf flags_of_def)
  qed
  then show ?thesis unfolding s l1(1) using mid_stays [OF mid l1(2) gm _ l1(4)] M(10) by simp
qed

lemma inner_plain_sim:
  assumes mid: "mid_token rs cf0 content cf lx (Plain i) i acc ch" and none: "absorb i ch = None"
  shows "sim_result cf0 content (scan (Plain i) acc (words_of cf) (ch # input_of content (x_file lx))) (lex_inner ch cf lx)"
proof -
  note fl = mid_flags [OF mid disjI1 [OF refl]] and M = mid_tokenD [OF mid]
  have ch: "\<not> (ch = 123 \<and> i = Dollar)" "ch \<noteq> 92" "ch \<noteq> 36"
    using none absorb_open [OF M(9), of ch] by (auto split: if_splits)
  let ?lx = "lx\<lparr>x_variable := False\<rparr>"
  have q: "\<not> x_d_quoted lx" "\<not> x_s_quoted lx" using M(7) by (simp_all add: flags_of_def)
  have inner: "lex_inner ch cf lx = (if is_space ch \<or> ch = 59 \<or> ch = 123
      then lex_found ch cf (?lx\<lparr>x_last_space := True\<rparr>) else Next cf ?lx)"
    using ch fl(1) q by (auto simp: lex_inner_def Let_def)
  show ?thesis
  proof (cases "is_space ch \<or> ch = 59 \<or> ch = 123")
    case True
    have "\<not> is_space 59" "\<not> is_space 123" by (simp_all add: is_space_def cw_sizes)
    have "sim_result cf0 content (scan (Plain i) acc (words_of cf) (ch # input_of content (x_file lx)))
        (lex_found ch cf (?lx\<lparr>x_last_space := True\<rparr>))"
      by (rule mid_ends [OF mid, of _ Gap]) (use True fl q none \<open>\<not> is_space 59\<close> \<open>\<not> is_space 123\<close> in \<open>auto simp: flags_of_def\<close>)
    then show ?thesis unfolding inner using True by simp
  next
    case False
    then show ?thesis unfolding inner using fl q none M(10)
      by simp (intro mid_stays [OF mid]; simp add: flags_of_def)
  qed
qed

lemma inner_quoted_sim:
  assumes mid: "mid_token rs cf0 content cf lx (Quoted q i) i acc ch" and none: "absorb i ch = None"
  shows "sim_result cf0 content (scan (Quoted q i) acc (words_of cf) (ch # input_of content (x_file lx))) (lex_inner ch cf lx)"
proof -
  note fl = mid_flags [OF mid disjI2 [OF refl]] and M = mid_tokenD [OF mid]
  have ch: "\<not> (ch = 123 \<and> x_variable lx)" "ch \<noteq> 92" "ch \<noteq> 36"
    using none absorb_open [OF M(9), of ch] fl(1) by (auto split: if_splits)
  let ?lx = "lx\<lparr>x_variable := False\<rparr>"
  have d: "x_d_quoted lx = (q = 34)" "x_s_quoted lx = (q = 39)" "q = 34 \<or> q = 39"
    using M(7,8) by (simp_all add: flags_of_def)
  define lx1 where "lx1 = (if q = 34 then ?lx\<lparr>x_d_quoted := False, x_need_space := True\<rparr>
    else ?lx\<lparr>x_s_quoted := False, x_need_space := True\<rparr>)"
  have l1: "x_file lx1 = x_file lx" "x_start lx1 = x_start lx" "flags_of lx1 = mode_flags AfterQuote"
    using d fl by (auto simp: lx1_def flags_of_def)
  have dq: "x_d_quoted ?lx = (q = 34)" "x_s_quoted ?lx = (q = 39)" using d by simp_all
  have inner: "lex_inner ch cf lx = (if ch = q then lex_found ch cf lx1 else Next cf ?lx)"
    using ch d(3) unfolding lex_inner_def Let_def dq
    by (elim disjE) (simp_all only: if_False if_True refl lx1_def simp_thms, simp_all)
  show ?thesis
  proof (cases "ch = q")
    case True
    then have "ch \<noteq> 59" "ch \<noteq> 123" using d(3) by auto
    have "sim_result cf0 content (scan (Quoted q i) acc (words_of cf) (ch # input_of content (x_file lx))) (lex_found ch cf lx1)"
      by (rule mid_ends [OF mid l1]) (use True none \<open>ch \<noteq> 59\<close> \<open>ch \<noteq> 123\<close> in simp_all)
    then show ?thesis unfolding inner using True by simp
  next
    case False
    then show ?thesis unfolding inner using fl d none M(10)
      by simp (intro mid_stays [OF mid]; simp add: flags_of_def)
  qed
qed

lemma lex_inner_sim:
  assumes mid: "mid_token rs cf0 content cf lx m i acc ch" and i: "m = Plain i \<or> m = Quoted q i"
  shows "sim_result cf0 content (scan m acc (words_of cf) (ch # input_of content (x_file lx))) (lex_inner ch cf lx)"
proof (cases "absorb i ch")
  case None
  then show ?thesis using i mid inner_plain_sim inner_quoted_sim by blast
next
  case (Some j)
  then show ?thesis by (rule inner_absorb_sim [OF mid i])
qed

text \<open>
  Any character.  A line feed has already ended a comment when the character is looked at.
\<close>

definition taken_char :: "region list \<Rightarrow> cw_conf \<Rightarrow> u8 list \<Rightarrow> cw_conf \<Rightarrow> lexer \<Rightarrow> u8 \<Rightarrow> bool" where
  "taken_char rs cf0 content cf lx ch \<longleftrightarrow>
     lex_taken rs cf lx \<and> later cf0 cf \<and> reads content (cf_file (x_file lx)) (c_sys cf) \<and>
     ch = bf_mem (x_buf lx) (bf_pos (x_buf lx) - 1)"

lemma taken_charD:
  assumes "taken_char rs cf0 content cf lx ch"
  shows "buf_ok lx" "args_ok rs cf" "counted cf" "x_start lx < bf_pos (x_buf lx)" "later cf0 cf"
    "reads content (cf_file (x_file lx)) (c_sys cf)" "ch = bf_mem (x_buf lx) (bf_pos (x_buf lx) - 1)"
  using assms by (simp_all add: taken_char_def lex_taken_def lex_safe_def)

lemma act_comment_sim:
  assumes tk: "taken_char rs cf0 content cf lx ch"
    and m: "flags_of lx = mode_flags (if ch = LF then Gap else Comment)"
  shows "sim_result cf0 content (scan Comment acc (words_of cf) (ch # input_of content (x_file lx))) (lex_act ch cf lx)"
proof (cases "ch = LF")
  case True
  then have f: "flags_of lx = mode_flags Gap" using m by simp
  then have "lex_act ch cf lx = lex_first ch cf lx" by (simp add: lex_act_def lex_char_def flags_of_def)
  moreover have "scan Comment acc (words_of cf) (ch # s) = scan Gap acc (words_of cf) (ch # s)" for s
    using True by (simp add: is_space_def)
  ultimately show ?thesis using lex_first_sim [OF taken_charD(3-6) [OF tk] f taken_charD(7) [OF tk]] by simp
next
  case False
  then have "lex_act ch cf lx = Next cf lx" using m by (simp add: lex_act_def flags_of_def)
  then show ?thesis using taken_charD(5,6) [OF tk] m False
    by (simp del: mode_flags.simps) (rule simI [where m = Comment and acc = "[]"]; simp)
qed

lemma act_after_quote_sim:
  assumes tk: "taken_char rs cf0 content cf lx ch"
    and m: "flags_of lx = mode_flags AfterQuote" and aq: "words_of cf \<noteq> []"
  shows "sim_result cf0 content (scan AfterQuote acc (words_of cf) (ch # input_of content (x_file lx))) (lex_act ch cf lx)"
proof -
  let ?lx = "lx\<lparr>x_last_space := True, x_need_space := False\<rparr>"
  note T = taken_charD [OF tk]
  have f: "flags_of ?lx = mode_flags Gap" using m by (simp add: flags_of_def)
  have act: "lex_act ch cf lx =
     (if is_space ch then Next cf ?lx else if ch = 59 then Return CW_OK cf lx
      else if ch = 123 then Return CW_CONF_BLOCK_START cf lx
      else if ch = 41 then lex_first ch cf ?lx else Return CW_ERROR (logged (UnexpectedChar ch) cf) lx)"
    using m by (simp add: lex_act_def lex_char_def flags_of_def Let_def)
  consider "is_space ch" | "\<not> is_space ch" "ch = 59 \<or> ch = 123" | "ch = 41" | "\<not> is_space ch" "ch \<notin> {59, 123, 41}"
    by blast
  then show ?thesis
  proof cases
    case 1
    then show ?thesis unfolding act using T(5,6) f
      by simp (rule simI [where m = Gap and acc = "[]"]; simp)
  next
    case 2
    then show ?thesis unfolding act using T(5,6) by (auto simp: sim_done_def end_code_def)
  next
    case 3
    then have "scan AfterQuote acc (words_of cf) (ch # s) = scan Gap acc (words_of cf) (ch # s)" for s
      by (simp add: is_space_def cw_sizes)
    moreover have "lex_act ch cf lx = lex_first ch cf ?lx" unfolding act using 3 by (simp add: is_space_def cw_sizes)
    ultimately show ?thesis
      using lex_first_sim [of cf ?lx cf0 content ch acc] T(3-7) f by simp
  next
    case 4
    then show ?thesis unfolding act by simp
  qed
qed

lemma act_token_sim:
  assumes tk: "taken_char rs cf0 content cf lx ch"
    and m: "flags_of lx = mode_flags m" "good_mode m" "m = Plain i \<or> m = Quoted q i"
    and acc: "begun lx = acc @ [ch]" "token_bytes lx = acc"
  shows "sim_result cf0 content (scan m acc (words_of cf) (ch # input_of content (x_file lx))) (lex_act ch cf lx)"
proof (cases "i = Escaped")
  case True
  define m1 where "m1 = (case m of Plain _ \<Rightarrow> Plain Normal | Quoted q _ \<Rightarrow> Quoted q Normal | _ \<Rightarrow> m)"
  have "scan m acc (words_of cf) (ch # input_of content (x_file lx)) =
      scan m1 (acc @ [ch]) (words_of cf) (input_of content (x_file lx))"
    using m(3) True by (auto simp: m1_def)
  moreover have "lex_act ch cf lx = Next cf (lx\<lparr>x_quoted := False\<rparr>)" using m(1,3) True by (auto simp: lex_act_def flags_of_def)
  moreover have "flags_of (lx\<lparr>x_quoted := False\<rparr>) = mode_flags m1" "good_mode m1"
    using m True by (auto simp: m1_def flags_of_def)
  then have "sim cf0 content (scan m1 (acc @ [ch]) (words_of cf) (input_of content (x_file lx))) cf (lx\<lparr>x_quoted := False\<rparr>)"
    using taken_charD(5,6) [OF tk] acc(1) by (intro simI [where m = m1 and acc = "acc @ [ch]"]) simp_all
  ultimately show ?thesis by simp
next
  case False
  then have "mid_token rs cf0 content cf lx m i acc ch"
    using taken_charD [OF tk] m(1,2) acc by (simp add: mid_token_def)
  moreover have "lex_act ch cf lx = lex_inner ch cf lx"
    using m(1,3) False by (auto simp: lex_act_def lex_char_def flags_of_def)
  ultimately show ?thesis using lex_inner_sim [OF _ m(3)] by simp
qed

lemma lex_act_sim:
  assumes tk: "taken_char rs cf0 content cf lx ch"
    and m: "flags_of lx = mode_flags (if m = Comment \<and> ch = LF then Gap else m)" "good_mode m"
    and acc: "in_token m \<Longrightarrow> begun lx = acc @ [ch]" "in_token m \<Longrightarrow> token_bytes lx = acc"
    and aq: "m = AfterQuote \<Longrightarrow> words_of cf \<noteq> []"
  shows "sim_result cf0 content (scan m acc (words_of cf) (ch # input_of content (x_file lx))) (lex_act ch cf lx)"
proof (cases m)
  case Gap
  then have "lex_act ch cf lx = lex_first ch cf lx" using m(1) by (simp add: lex_act_def lex_char_def flags_of_def)
  then show ?thesis using lex_first_sim [OF taken_charD(3-6) [OF tk] _ taken_charD(7) [OF tk]] m(1) Gap by simp
next
  case Comment
  then show ?thesis using act_comment_sim [OF tk] m(1) by (simp split: if_splits)
next
  case AfterQuote
  then show ?thesis using act_after_quote_sim [OF tk] m(1) aq by simp
next
  case (Plain i)
  then show ?thesis using act_token_sim [OF tk _ m(2)] m(1) acc by simp
next
  case (Quoted q i)
  then show ?thesis using act_token_sim [OF tk _ m(2)] m(1) acc by simp
qed

section \<open>A round, and the loop\<close>

lemma lex_eof_sim:
  assumes m: "sim cf0 content res cf lx" and cnt: "counted cf"
    and end_of_input: "f_size (cf_file (x_file lx)) \<le> f_offset (cf_file (x_file lx))" "bf_last (x_buf lx) \<le> bf_pos (x_buf lx)"
    and e: "lex_eof cf lx = Return rc cf1 lx1"
  shows "sim_done cf0 content res rc cf1 lx1"
proof -
  from m obtain md acc where st: "later cf0 cf" "reads content (cf_file (x_file lx)) (c_sys cf)"
    and md: "good_mode md" "flags_of lx = mode_flags md"
      "scan md acc (words_of cf) (input_of content (x_file lx)) = res"
    by (auto simp: sim_def)
  have empty: "input_of content (x_file lx) = []"
    using end_of_input st(2) by (simp add: input_of_def buffered_def reads_def nat_le_iff)
  have sp: "x_last_space lx \<longleftrightarrow> md = Gap \<or> md = Comment" using md(2) by (cases md) (simp_all add: flags_of_def)
  have "lx1 = lx" using e by (auto simp: lex_eof_def split: if_splits)
  then have empty1: "input_of content (x_file lx1) = []" using empty by simp
  show ?thesis
    using e md(3) words_of_empty [OF cnt] word_gt_0 [of "a_nelts (c_args cf)"] st
    unfolding empty lex_eof_def sp
    by (auto simp: sim_done_def empty1 split: if_splits)
qed

lemma lex_refill_sim:
  assumes s: "lex_safe rs cf lx" and m: "sim cf0 content res cf lx"
  shows "sim_result cf0 content res (lex_refill cf lx)"
proof (cases "lex_refill cf lx")
  case (Next cf1 lx1)
  have ok: "buf_ok lx" "cf_dump (x_file lx) = 0" using s by (simp_all add: lex_safe_def)
  note R = lex_refill_next [OF ok(1) Next]
  from m obtain md acc where st: "later cf0 cf" "reads content (cf_file (x_file lx)) (c_sys cf)"
    and md: "good_mode md" "flags_of lx = mode_flags md" "in_token md \<longrightarrow> acc = begun lx"
      "scan md acc (words_of cf) (input_of content (x_file lx)) = res"
    by (auto simp: sim_def)
  note I = lex_refill_input [OF ok(1) Next st(2)]
  have "flags_of lx1 = flags_of lx" using R(4) by (simp add: same_flags_def flags_of_def)
  moreover have "later cf0 cf1" using st(1) R(6) [OF ok(2)] I(4) by (simp add: later_def same_args_def)
  moreover have "words_of cf1 = words_of cf" using words_same [OF R(6) [OF ok(2)]] by (simp add: words_of_def)
  ultimately have "sim cf0 content res cf1 lx1" using md I by (intro simI [where m = md and acc = acc]) auto
  then show ?thesis by (simp add: Next)
next
  case (Return rc cf1 lx1)
  have log: "c_log cf = c_log cf0" using m by (simp add: sim_def later_def)
  consider (eof) "f_size (cf_file (x_file lx)) \<le> f_offset (cf_file (x_file lx))"
      "bf_last (x_buf lx) \<le> bf_pos (x_buf lx)" "lex_eof cf lx = Return rc cf1 lx1"
    | (long) "lex_too_long cf lx = Return rc cf1 lx1" | (read) "lex_read cf lx = Return rc cf1 lx1"
    using Return by (auto simp: lex_refill_def split: if_splits)
  then have "sim_done cf0 content res rc cf1 lx1"
  proof cases
    case eof
    then show ?thesis using lex_eof_sim [OF m] s by (simp add: lex_safe_def)
  next
    case long
    then show ?thesis
      using log by (auto simp: lex_too_long_def Let_def trouble_def intro!: sim_done_trouble split: if_splits)
  next
    case read
    then show ?thesis
      using log
      by (auto simp: lex_read_def Let_def trouble_def intro!: sim_done_trouble split: prod.splits option.splits if_splits)
  qed
  then show ?thesis by (simp add: Return)
qed

lemma lex_step_sim:
  assumes s: "lex_safe rs cf lx" and m: "sim cf0 content res cf lx"
  shows "sim_result cf0 content res (lex_step cf lx)"
proof (cases "lex_refill cf lx")
  case (Return rc cf1 lx1)
  then show ?thesis using lex_refill_sim [OF assms] by (simp add: lex_step_def)
next
  case (Next cf1 lx1)
  have ok: "buf_ok lx" "cf_dump (x_file lx) = 0" using s by (simp_all add: lex_safe_def)
  note R = lex_refill_next [OF ok(1) Next]
  have s1: "lex_safe rs cf1 lx1" using lex_refill_good [OF s] Next by simp
  have "sim cf0 content res cf1 lx1" using lex_refill_sim [OF assms] Next by simp
  then obtain md acc where st: "later cf0 cf1" "reads content (cf_file (x_file lx1)) (c_sys cf1)"
    and md: "good_mode md" "flags_of lx1 = mode_flags md" "in_token md \<longrightarrow> acc = begun lx1"
      "scan md acc (words_of cf1) (input_of content (x_file lx1)) = res"
    by (auto simp: sim_def)
  obtain ch lx2 where t: "lex_take lx1 = (ch, lx2)" by fastforce
  note T = lex_take_ok [OF R(1,2) t]
  note I = lex_take_input [OF R(1,2) t]
  have "lex_taken rs cf1 lx2"
    using s1 T(1,2,6,9) by (simp add: lex_taken_def lex_safe_def same_flags_def)
  moreover have "flags_of lx2 = mode_flags (if md = Comment \<and> ch = LF then Gap else md)"
    using T(6) md(2) by (cases md) (auto simp: same_flags_def flags_of_def)
  moreover have "ch = bf_mem (x_buf lx2) (bf_pos (x_buf lx2) - 1)" by (simp add: T(4,5))
  moreover have "words_of cf1 \<noteq> []" if "md = AfterQuote"
    using s1 md(2) that by (simp add: lex_safe_def flags_of_def words_of_def)
  ultimately have "sim_result cf0 content (scan md acc (words_of cf1) (ch # input_of content (x_file lx2))) (lex_act ch cf1 lx2)"
    using st T(8) md I by (intro lex_act_sim) (auto simp: taken_char_def)
  then show ?thesis using Next t md(4) I(1) by (simp add: lex_step_def)
qed

text \<open>The scanner of the code, for the input \<open>f\<close> holds.\<close>

lemma read_token_refines:
  assumes "args_ok rs cf" and "c_file cf = Some f" and "file_ok f" and "cf_dump f = 0"
    and "reads content (cf_file f) (c_sys cf)" and "cw_conf_read_token cf = Some (rc, cf')"
  shows "\<exists>f'. c_file cf' = Some f' \<and>
    (case scan Gap [] [] (input_of content f) of
       Tokens rc0 ws rest \<Rightarrow>
         (rc = rc0 \<and> words_of cf' = ws \<and> input_of content f' = rest \<and> later cf cf' \<and>
            reads content (cf_file f') (c_sys cf')) \<or>
         (rc = CW_ERROR \<and> trouble cf cf')
     | Broken \<Rightarrow> rc = CW_ERROR)"
proof -
  let ?cf = "cf\<lparr>c_args := (c_args cf)\<lparr>a_nelts := 0\<rparr>, c_words := []\<rparr>"
  let ?res = "scan Gap [] [] (input_of content f)"
  obtain cf1 lx1 where l: "lex_loop ?cf (lex_init f) = Some (rc, cf1, lx1)"
    and cf': "cf' = cf1\<lparr>c_file := Some (x_file lx1)\<rparr>"
    using assms(2,6) by (auto simp: cw_conf_read_token_def)
  have init: "lex_safe rs ?cf (lex_init f)" by (rule lex_init_safe [OF assms(1,3,4)])
  have sim: "sim cf content ?res ?cf (lex_init f)"
    using assms(5) by (intro simI [where m = Gap and acc = "[]"])
      (simp_all add: later_def lex_init_def flags_of_def words_of_def)
  have "sim_done cf content ?res rc cf1 lx1"
  proof (rule lex_loop_rule [OF l, where I = "\<lambda>c x. lex_safe rs c x \<and> sim cf content ?res c x"])
    show "lex_safe rs ?cf (lex_init f) \<and> sim cf content ?res ?cf (lex_init f)" using init sim by blast
    fix c x rc c1 x1
    assume i: "lex_safe rs c x \<and> sim cf content ?res c x"
    then show "buf_ok x" by (simp add: lex_safe_def)
    show "lex_safe rs c1 x1 \<and> sim cf content ?res c1 x1" if "lex_step c x = Next c1 x1"
      using lex_step_good [of rs c x] lex_step_sim [of rs c x cf content ?res] i that by simp
    show "sim_done cf content ?res rc c1 x1" if "lex_step c x = Return rc c1 x1"
      using lex_step_sim [of rs c x cf content ?res] i that by simp
  qed
  then show ?thesis
    by (auto simp: sim_done_def cf' words_of_def later_def trouble_def split: scan_result.splits)
qed

end
