(* ===== verification/Conf_World.thy ===== *)
theory Conf_World
  imports Conf_Refine
begin

text \<open>
  What the scanner does not do: it opens and closes no file, takes from the C library only
  what its pool owns, and leaves the configuration being built alone.
\<close>

definition steady :: "cw_conf \<Rightarrow> cw_conf \<Rightarrow> bool" where
  "steady cf cf1 \<longleftrightarrow>
     others (c_heap cf1) (c_pool cf1) = others (c_heap cf) (c_pool cf) \<and>
     sy_fds (c_sys cf1) = sy_fds (c_sys cf) \<and> c_ctx cf1 = c_ctx cf"

definition same_conf :: "cw_conf \<Rightarrow> cw_conf \<Rightarrow> bool" where
  "same_conf cf cf1 \<longleftrightarrow>
     c_ptrs cf1 = c_ptrs cf \<and> c_core cf1 = c_core cf \<and> c_ctx cf1 = c_ctx cf \<and> c_param cf1 = c_param cf \<and>
     c_module_type cf1 = c_module_type cf \<and> c_cmd_type cf1 = c_cmd_type cf"

definition untouched :: "cw_conf \<Rightarrow> cw_conf \<Rightarrow> bool" where
  "untouched cf cf1 \<longleftrightarrow> steady cf cf1 \<and> same_conf cf cf1"

lemma untouched_refl [simp]: "untouched cf cf"
  by (simp add: untouched_def steady_def same_conf_def)

lemma untouched_trans: "untouched cf cf1 \<Longrightarrow> untouched cf1 cf2 \<Longrightarrow> untouched cf cf2"
  by (simp add: untouched_def steady_def same_conf_def)

lemma steady_refl [simp]: "steady cf cf"
  by (simp add: steady_def)

lemma steady_trans: "steady cf cf1 \<Longrightarrow> steady cf1 cf2 \<Longrightarrow> steady cf cf2"
  by (simp add: steady_def)

fun result_conf :: "lex_result \<Rightarrow> cw_conf" where
  "result_conf (Return rc cf lx) = cf"
| "result_conf (Next cf lx) = cf"

lemma others_fault [simp]: "others (h\<lparr>h_fault := b\<rparr>) p = others h p"
  by (simp add: others_def)

lemma untouched_logged [simp]: "untouched cf (logged m cf)"
  by (simp add: untouched_def steady_def same_conf_def)

lemma lex_found_untouched:
  assumes "args_ok rs cf"
  shows "untouched cf (result_conf (lex_found ch cf lx))"
proof -
  obtain rs' where inv: "array_inv (c_heap cf) (c_pool cf) (c_args cf) rs'"
    using assms by (auto simp: args_ok_def)
  obtain h1 p1 a1 word where p: "cw_array_push (c_heap cf) (c_pool cf) (c_args cf) = (h1, p1, a1, word)"
    using prod_cases4 by blast
  obtain h2 p2 data where q: "cw_pnalloc h1 p1 (of_nat (bf_pos (x_buf lx) - 1 - x_start lx + 1)) = (h2, p2, data)"
    using prod_cases3 by blast
  have o1: "others h1 p1 = others (c_heap cf) (c_pool cf)" by (rule took_others [OF cw_array_push_took [OF inv p]])
  show ?thesis
  proof (cases "word = 0")
    case True
    then show ?thesis using p o1 by (simp add: lex_found_def untouched_def steady_def same_conf_def)
  next
    case False
    from cw_array_push_granted [OF inv p False] obtain rs1 where "array_inv h1 p1 a1 rs1" by (auto simp: pushed_def)
    then have "pool_inv h1 p1 (arr_region a1 # rs1)" by (simp add: array_inv_def)
    then have "others h2 p2 = others (c_heap cf) (c_pool cf)" using took_others [OF cw_pnalloc_took [OF _ q]] o1 by simp
    then show ?thesis
      using p q False unfolding lex_found_def Let_def p q prod.case
      by (simp add: untouched_def steady_def same_conf_def)
  qed
qed

lemma lex_act_untouched:
  assumes "args_ok rs cf"
  shows "untouched cf (result_conf (lex_act ch cf lx))"
  using lex_found_untouched [OF assms]
  by (simp add: lex_act_def lex_char_def lex_first_def lex_inner_def Let_def)

lemma lex_refill_untouched: "untouched cf (result_conf (lex_refill cf lx))"
  using cw_read_file_frame(1)
  by (auto simp: lex_refill_def lex_eof_def lex_too_long_def lex_read_def Let_def untouched_def steady_def
      same_conf_def faulty_def split: prod.splits option.splits)

lemma lex_step_untouched:
  assumes "lex_safe rs cf lx"
  shows "untouched cf (result_conf (lex_step cf lx))"
proof (cases "lex_refill cf lx")
  case (Return rc cf1 lx1)
  then show ?thesis using lex_refill_untouched [of cf lx] by (simp add: lex_step_def)
next
  case (Next cf1 lx1)
  then have "args_ok rs cf1" using lex_refill_good [OF assms] by (simp add: lex_safe_def)
  then have "untouched cf1 (result_conf (lex_step cf lx))"
    using lex_act_untouched Next by (simp add: lex_step_def split: prod.splits)
  moreover have "untouched cf cf1" using lex_refill_untouched [of cf lx] Next by simp
  ultimately show ?thesis by (rule untouched_trans [rotated])
qed

text \<open>A token that is returned was read: at least one byte of the input is gone.\<close>

definition consumes :: "int \<Rightarrow> bool" where
  "consumes rc \<longleftrightarrow> rc = CW_OK \<or> rc = CW_CONF_BLOCK_START \<or> rc = CW_CONF_BLOCK_DONE"

lemma lex_act_return_file: "lex_act ch cf lx = Return rc cf1 lx1 \<Longrightarrow> x_file lx1 = x_file lx"
  by (auto simp: lex_act_def lex_char_def lex_first_def lex_inner_def Let_def
      dest!: lex_found_file(1) split: if_splits)

lemma lex_step_consumes:
  assumes ok: "buf_ok lx" and c: "lex_step cf lx = Return rc cf1 lx1" and rc: "consumes rc"
  shows "left_in (x_file lx1) < left_in (x_file lx)"
proof (cases "lex_refill cf lx")
  case (Return rc2 cf2 lx2)
  then have "rc = CW_ERROR \<or> rc = CW_CONF_FILE_DONE"
    using c by (auto simp: lex_step_def lex_refill_def lex_eof_def lex_too_long_def lex_read_def Let_def
        split: if_splits prod.splits option.splits)
  then show ?thesis using rc by (auto simp: consumes_def conf_codes)
next
  case (Next cf2 lx2)
  note R = lex_refill_next [OF ok Next]
  obtain ch lx3 where t: "lex_take lx2 = (ch, lx3)" by fastforce
  have "lex_act ch cf2 lx3 = Return rc cf1 lx1" using c Next t by (simp add: lex_step_def)
  then show ?thesis using lex_act_return_file lex_take_ok(3) [OF R(1,2) t] R(3) by simp
qed

lemma read_token_world:
  assumes ok: "args_ok rs cf" and f: "c_file cf = Some f" "file_ok f" "cf_dump f = 0"
    and c: "cw_conf_read_token cf = Some (rc, cf')"
  shows "untouched cf cf'" and "\<exists>f'. c_file cf' = Some f' \<and> (consumes rc \<longrightarrow> left_in f' < left_in f)"
proof -
  let ?cf = "cf\<lparr>c_args := (c_args cf)\<lparr>a_nelts := 0\<rparr>, c_words := []\<rparr>"
  obtain cf1 lx1 where l: "lex_loop ?cf (lex_init f) = Some (rc, cf1, lx1)"
    and cf': "cf' = cf1\<lparr>c_file := Some (x_file lx1)\<rparr>"
    using c f by (auto simp: cw_conf_read_token_def)
  have "untouched cf cf1 \<and> (consumes rc \<longrightarrow> left_in (x_file lx1) < left_in f)"
  proof (rule lex_loop_rule [OF l, where I = "\<lambda>c x. lex_safe rs c x \<and> untouched cf c \<and> left_in (x_file x) \<le> left_in f"
        and Q = "\<lambda>rc c x. untouched cf c \<and> (consumes rc \<longrightarrow> left_in (x_file x) < left_in f)"])
    show "lex_safe rs ?cf (lex_init f) \<and> untouched cf ?cf \<and> left_in (x_file (lex_init f)) \<le> left_in f"
      using lex_init_safe [OF ok f(2,3)] by (simp add: lex_init_def untouched_def steady_def same_conf_def)
    fix c x rc c1 x1
    assume i: "lex_safe rs c x \<and> untouched cf c \<and> left_in (x_file x) \<le> left_in f"
    then show b: "buf_ok x" by (simp add: lex_safe_def)
    have u: "untouched cf (result_conf (lex_step c x))"
      using lex_step_untouched [of rs c x] i untouched_trans by blast
    show "lex_safe rs c1 x1 \<and> untouched cf c1 \<and> left_in (x_file x1) \<le> left_in f" if s: "lex_step c x = Next c1 x1"
      using lex_step_good [of rs c x] u lex_step_next(2) [OF b s] i s by simp
    show "untouched cf c1 \<and> (consumes rc \<longrightarrow> left_in (x_file x1) < left_in f)" if s: "lex_step c x = Return rc c1 x1"
      using u lex_step_consumes [OF b s] i s by auto
  qed
  then show "untouched cf cf'" and "\<exists>f'. c_file cf' = Some f' \<and> (consumes rc \<longrightarrow> left_in f' < left_in f)"
    by (auto simp: cf' untouched_def steady_def same_conf_def)
qed

end
