(* ===== verification/Conf_Words.thy ===== *)
theory Conf_Words
  imports Conf_World
begin

text \<open>
  The words of a directive in memory: the array \<open>cf->args\<close> and the regions its elements
  point to hold exactly the words that the model keeps in \<open>c_words\<close>.  This needs that no
  store goes astray: the elements, the words already there and the word being written are
  separate regions, also when the array moves.
\<close>

section \<open>Elements as cells\<close>

definition cell :: "addr \<Rightarrow> region" where
  "cell e = (e, sizeof_cw_str)"

lemma elem_cell:
  assumes inv: "array_inv h p a rs" and sz: "a_size a = sizeof_cw_str" and k: "k < unat (a_nalloc a)"
  shows "unat (elem_addr a k) = unat (a_elts a) + 16 * k"
    and "unat (a_elts a) + 16 * k + 16 \<le> hi (arr_region a)" and "hi (arr_region a) < 2 ^ 64"
proof -
  have ok: "array_ok a" and pinv: "pool_inv h p (arr_region a # rs)" using inv by (simp_all add: array_inv_def)
  have s: "unat (a_size a) = 16" using sz by (simp add: sizeof_cw_str_def)
  show b: "hi (arr_region a) < 2 ^ 64" using pool_region_bound [OF pinv] by simp
  have hi: "hi (arr_region a) = unat (a_elts a) + 16 * unat (a_nalloc a)"
    using array_size [OF ok] s by (simp add: arr_region_def)
  then show le: "unat (a_elts a) + 16 * k + 16 \<le> hi (arr_region a)" using k by simp
  have "unat (a_size a * of_nat k) = 16 * k" using elem_offset(1) [OF ok k, of 0] s by simp
  then show "unat (elem_addr a k) = unat (a_elts a) + 16 * k"
    unfolding elem_addr_def using le b by (subst unat_plus_nowrap) simp_all
qed

lemma cell_inside_array:
  assumes "array_inv h p a rs" and "a_size a = sizeof_cw_str" and "k < unat (a_nalloc a)"
    and "inside x (cell (elem_addr a k))"
  shows "inside x (arr_region a)"
  using elem_cell [OF assms(1-3)] assms(4)
  by (auto simp: inside_def cell_def sizeof_cw_str_def arr_region_def)

lemma cells_disjoint:
  assumes "array_inv h p a rs" and "a_size a = sizeof_cw_str" and "j < unat (a_nalloc a)" "k < unat (a_nalloc a)"
    and "j \<noteq> k" and "inside x (cell (elem_addr a j))"
  shows "\<not> inside x (cell (elem_addr a k))"
  using elem_cell(1) [OF assms(1-3)] elem_cell(1) [OF assms(1,2,4)] assms(5,6)
  by (auto simp: inside_def cell_def sizeof_cw_str_def)

lemma elem_bytes_cell: "a_size a = sizeof_cw_str \<Longrightarrow> elem_bytes h a j = mem_bytes (h_mem h) (elem_addr a j) 16"
  by (simp add: elem_bytes_def mem_bytes_def sizeof_cw_str_def)

text \<open>The two fields of a structure.\<close>

lemma cell_fields:
  "load_word m e = bytes_word (take 8 (mem_bytes m e 16))"
  "load_word m (e + 8) = bytes_word (drop 8 (mem_bytes m e 16))"
proof -
  show "load_word m e = bytes_word (take 8 (mem_bytes m e 16))"
    by (simp add: load_word_def mem_bytes_take [of 8 16])
  have "mem_bytes m (e + 8) 8 = drop 8 (mem_bytes m e 16)"
    by (rule nth_equalityI) (simp_all add: mem_bytes_def add.assoc)
  then show "load_word m (e + 8) = bytes_word (drop 8 (mem_bytes m e 16))" by (simp add: load_word_def)
qed

section \<open>A word in memory\<close>

definition word_at :: "(addr \<Rightarrow> u8) \<Rightarrow> addr \<Rightarrow> cw_str \<Rightarrow> bool" where
  "word_at m e w \<longleftrightarrow>
     load_word m e = of_nat (length (s_bytes w)) \<and> load_word m (e + 8) = s_data w \<and>
     mem_bytes m (s_data w) (length (s_bytes w) + 1) = s_bytes w @ [0]"

lemma word_at_frame:
  assumes at: "word_at m e w" and w: "word_in rs w" and rs: "\<And>r. r \<in> set rs \<Longrightarrow> hi r < 2 ^ 64"
    and e: "mem_bytes m' e' 16 = mem_bytes m e 16"
    and same: "\<And>r x. r \<in> set rs \<Longrightarrow> inside x r \<Longrightarrow> m' x = m x"
  shows "word_at m' e' w"
proof -
  obtain n where n: "(s_data w, n) \<in> set rs" "length (s_bytes w) < unat n" using w by (auto simp: word_in_def)
  have "mem_bytes m' (s_data w) (length (s_bytes w) + 1) = mem_bytes m (s_data w) (length (s_bytes w) + 1)"
    by (rule mem_bytes_cong [of _ n]) (use n rs [OF n(1)] same in auto)
  moreover have "load_word m' e' = load_word m e" by (simp only: cell_fields(1) [of _ e'] cell_fields(1) [of _ e] e)
  moreover have "load_word m' (e' + 8) = load_word m (e + 8)" by (simp only: cell_fields(2) e)
  ultimately show ?thesis using at by (simp add: word_at_def)
qed

lemma str_at_word:
  assumes "word_at m e w" and "word_in rs w"
  shows "str_at m e = w"
proof -
  obtain n :: u64 where "length (s_bytes w) < unat n" using assms(2) by (auto simp: word_in_def)
  then have l: "unat (of_nat (length (s_bytes w)) :: u64) = length (s_bytes w)"
    using unat_less_64 [of n] by (simp add: unat_of_nat_64)
  have "mem_bytes m (s_data w) (length (s_bytes w)) = s_bytes w"
    using assms(1) mem_bytes_take [of "length (s_bytes w)" "length (s_bytes w) + 1" m "s_data w"]
    by (simp add: word_at_def)
  then show ?thesis using assms(1) l by (simp add: str_at_def word_at_def)
qed

text \<open>The array and the pool hold the words.\<close>

definition holds_words :: "region list \<Rightarrow> cw_conf \<Rightarrow> bool" where
  "holds_words rs' cf \<longleftrightarrow>
     array_inv (c_heap cf) (c_pool cf) (c_args cf) rs' \<and> a_size (c_args cf) = sizeof_cw_str \<and>
     length (c_words cf) \<le> unat (a_nelts (c_args cf)) \<and>
     (\<forall>j<length (c_words cf). word_in rs' (c_words cf ! j) \<and>
        word_at (h_mem (c_heap cf)) (elem_addr (c_args cf) j) (c_words cf ! j))"

definition stored :: "cw_conf \<Rightarrow> bool" where
  "stored cf \<longleftrightarrow> (\<exists>rs'. holds_words rs' cf)"

lemma stored_logged [simp]: "stored (logged m cf) = stored cf"
  by (simp add: stored_def holds_words_def)

lemma stored_same: "same_args cf cf1 \<Longrightarrow> stored cf1 = stored cf"
  by (simp add: stored_def holds_words_def same_args_def)

lemma stored_args:
  assumes "stored cf" and "counted cf"
  shows "args_of (c_heap cf) (c_args cf) = c_words cf"
proof -
  obtain rs' where r: "holds_words rs' cf" using assms(1) by (auto simp: stored_def)
  show ?thesis
    by (rule nth_equalityI)
      (use r assms(2) str_at_word in \<open>auto simp: args_of_def counted_def holds_words_def\<close>)
qed

section \<open>Writing a word\<close>

text \<open>
  Stores into the cell of element \<open>k\<close> and into regions outside \<open>rs\<close> and the array leave the
  words before \<open>k\<close> alone.
\<close>

lemma words_kept:
  assumes inv: "array_inv h p a rs" and sz: "a_size a = sizeof_cw_str"
    and k: "k < unat (a_nalloc a)" "length ws \<le> k"
    and ws: "\<forall>j<length ws. word_in rs (ws ! j) \<and> word_at m (elem_addr a j) (ws ! j)"
    and same: "\<And>x. \<not> inside x (cell (elem_addr a k)) \<Longrightarrow> \<not> inside x d \<Longrightarrow> m' x = m x"
    and d: "rdisj d (arr_region a)" "\<And>r. r \<in> set rs \<Longrightarrow> rdisj d r"
  shows "\<forall>j<length ws. word_in rs (ws ! j) \<and> word_at m' (elem_addr a j) (ws ! j)"
proof (intro allI impI)
  fix j assume j: "j < length ws"
  have pinv: "pool_inv h p (arr_region a # rs)" using inv by (simp add: array_inv_def)
  have j': "j < unat (a_nalloc a)" "j \<noteq> k" using j k by auto
  note C = elem_cell [OF inv sz j'(1)]
  have "mem_bytes m' (elem_addr a j) 16 = mem_bytes m (elem_addr a j) 16"
  proof (rule mem_bytes_cong [of _ sizeof_cw_str])
    fix x assume x: "inside x (elem_addr a j, sizeof_cw_str)"
    then have "inside x (arr_region a)" using cell_inside_array [OF inv sz j'(1)] by (simp add: cell_def)
    then have "\<not> inside x d" using d(1) inside_disjoint rdisj_sym by blast
    moreover have "\<not> inside x (cell (elem_addr a k))"
      using cells_disjoint [OF inv sz j'(1) k(1) j'(2)] x by (simp add: cell_def)
    ultimately show "m' x = m x" by (rule same [rotated])
  qed (use C in \<open>simp_all add: sizeof_cw_str_def\<close>)
  moreover have "m' x = m x" if r: "r \<in> set rs" "inside x r" for r x
  proof (rule same)
    have "rdisj (arr_region a) r" using pool_invD(4) [OF pinv] r(1) by (simp add: separated_def)
    then show "\<not> inside x (cell (elem_addr a k))"
      using cell_inside_array [OF inv sz k(1)] inside_disjoint r(2) by blast
    show "\<not> inside x d" using d(2) [OF r(1)] inside_disjoint r(2) rdisj_sym by blast
  qed
  moreover have "hi r < 2 ^ 64" if "r \<in> set rs" for r using pool_region_bound [OF pinv] that by simp
  ultimately show "word_in rs (ws ! j) \<and> word_at m' (elem_addr a j) (ws ! j)"
    using ws j word_at_frame by blast
qed

text \<open>The word written last.\<close>

lemma word_written:
  assumes e: "unat e + 16 < 2 ^ 64" and d: "unat data + unat n < 2 ^ 64" "length bs < unat n"
    and dis: "rdisj (data, n) (cell e)"
    and m': "m' = store_word (store_bytes (store_word m (e + 8) data) data (bs @ [0])) e (of_nat (length bs))"
  shows "word_at m' e \<lparr>s_data = data, s_bytes = bs\<rparr>"
    and "\<not> inside x (cell e) \<Longrightarrow> \<not> inside x (data, n) \<Longrightarrow> m' x = m x"
proof -
  have e8: "unat (e + 8) = unat e + 8" using e by (simp add: unat_plus_nowrap)
  define m2 where "m2 = store_word m (e + 8) data"
  define m3 where "m3 = store_bytes m2 data (bs @ [0])"
  have m4: "m' = store_word m3 e (of_nat (length bs))" using m' by (simp add: m2_def m3_def)
  have S1: "m2 x = m x" if "\<not> inside x (cell e)" for x
    unfolding m2_def by (rule store_word_outside) (use e e8 that in \<open>auto simp: inside_def cell_def sizeof_cw_str_def\<close>)
  have S2: "m3 x = m2 x" if "\<not> inside x (data, n)" for x
    unfolding m3_def by (rule store_outside [of _ _ n]) (use d that in simp_all)
  have S3: "m' x = m3 x" if "\<not> inside x (e, 8)" for x
    unfolding m4 by (rule store_word_outside) (use e that in simp_all)
  have cell8: "inside x (e, 8) \<Longrightarrow> inside x (cell e)" "inside x (e + 8, 8) \<Longrightarrow> inside x (cell e) \<and> \<not> inside x (e, 8)" for x
    using e8 by (auto simp: inside_def cell_def sizeof_cw_str_def)
  show "m' x = m x" if "\<not> inside x (cell e)" "\<not> inside x (data, n)"
    using S1 S2 S3 that cell8 by metis
  have sep: "inside x (data, n) \<Longrightarrow> \<not> inside x (cell e)" for x using dis by (rule inside_disjoint)
  have "mem_bytes m' (e + 8) 8 = mem_bytes m2 (e + 8) 8"
    by (rule mem_bytes_cong [of _ 8]) (use S2 S3 sep cell8 e e8 in \<open>simp_all, blast\<close>)
  then have "load_word m' (e + 8) = data" using load_word_cong [of m' "e + 8" m2] by (simp add: m2_def)
  moreover have "mem_bytes m' data (length bs + 1) = mem_bytes m3 data (length bs + 1)"
    by (rule mem_bytes_cong [of _ n]) (use S3 sep cell8 d in \<open>simp_all, blast\<close>)
  moreover have "mem_bytes m3 data (length bs + 1) = bs @ [0]"
    unfolding m3_def using mem_bytes_store [of "bs @ [0]" m2 data] d(2) unat_less_64 [of n] by simp
  ultimately show "word_at m' e \<lparr>s_data = data, s_bytes = bs\<rparr>"
    by (simp add: word_at_def m4)
qed

text \<open>The words after the array has got a new element, before it is written.\<close>

definition with_room :: "region list \<Rightarrow> cw_str list \<Rightarrow> heap \<Rightarrow> cw_pool \<Rightarrow> cw_array \<Rightarrow> addr \<Rightarrow> bool" where
  "with_room rs ws h p a e \<longleftrightarrow>
     array_inv h p a rs \<and> a_size a = sizeof_cw_str \<and> e = elem_addr a (length ws) \<and>
     unat (a_nelts a) = length ws + 1 \<and> length ws < unat (a_nalloc a) \<and>
     (\<forall>j<length ws. word_in rs (ws ! j) \<and> word_at (h_mem h) (elem_addr a j) (ws ! j))"

lemma with_roomD:
  assumes "with_room rs ws h p a e"
  shows "array_inv h p a rs" "a_size a = sizeof_cw_str" "length ws < unat (a_nalloc a)" "e = elem_addr a (length ws)"
    "\<forall>j<length ws. word_in rs (ws ! j) \<and> word_at (h_mem h) (elem_addr a j) (ws ! j)"
  using assms by (simp_all add: with_room_def)

lemma push_with_room:
  assumes hw: "holds_words rs' cf" and cnt: "counted cf"
    and c: "cw_array_push (c_heap cf) (c_pool cf) (c_args cf) = (h1, p1, a1, e)" and e: "e \<noteq> 0"
  shows "\<exists>rs1. with_room rs1 (c_words cf) h1 p1 a1 e"
proof -
  have inv: "array_inv (c_heap cf) (c_pool cf) (c_args cf) rs'"
    and sz: "a_size (c_args cf) = sizeof_cw_str" using hw by (simp_all add: holds_words_def)
  have len: "length (c_words cf) = unat (a_nelts (c_args cf))" using cnt by (simp add: counted_def)
  from cw_array_push_granted [OF inv c e] obtain rs1 where
    inv1: "array_inv h1 p1 a1 rs1" and sub1: "set rs' \<subseteq> set rs1" and P: "pushed 1 (c_heap cf) (c_args cf) rs' h1 p1 a1 e"
    by (auto simp: pushed_def)
  have sz1: "a_size a1 = sizeof_cw_str" using P sz by (simp add: pushed_def)
  have bound: "hi r < 2 ^ 64" if "r \<in> set rs'" for r
    using inv1 sub1 that pool_region_bound [of h1 p1 _ r] by (auto simp: array_inv_def)
  have "word_in rs1 (c_words cf ! j) \<and> word_at (h_mem h1) (elem_addr a1 j) (c_words cf ! j)"
    if j: "j < length (c_words cf)" for j
  proof -
    have w: "word_in rs' (c_words cf ! j)" "word_at (h_mem (c_heap cf)) (elem_addr (c_args cf) j) (c_words cf ! j)"
      using hw j by (simp_all add: holds_words_def)
    have "elem_bytes h1 a1 j = elem_bytes (c_heap cf) (c_args cf) j" using P j len by (simp add: pushed_def)
    then have "mem_bytes (h_mem h1) (elem_addr a1 j) 16 = mem_bytes (h_mem (c_heap cf)) (elem_addr (c_args cf) j) 16"
      using elem_bytes_cell sz sz1 by simp
    then have "word_at (h_mem h1) (elem_addr a1 j) (c_words cf ! j)"
      using word_at_frame [OF w(2,1) bound] P by (simp add: pushed_def)
    then show ?thesis using word_in_mono [OF w(1) sub1] by blast
  qed
  moreover have "unat (a_nelts a1) \<le> unat (a_nalloc a1)" using inv1 by (simp add: array_inv_def array_ok_def)
  ultimately have "with_room rs1 (c_words cf) h1 p1 a1 e"
    using inv1 sz1 P len by (simp add: with_room_def pushed_def)
  then show ?thesis ..
qed

text \<open>No room for the bytes: the new element gets a NULL.\<close>

lemma room_refused:
  assumes wr: "with_room rs1 ws h1 p1 a1 e" and q: "cw_pnalloc h1 p1 n = (h2, p2, 0)" and ws: "c_words cf = ws"
  shows "holds_words rs1 (cf\<lparr>c_heap := set_data e 0 h2, c_pool := p2, c_args := a1\<rparr>)"
proof -
  note R = with_roomD [OF wr]
  note C = elem_cell [OF R(1-3), folded R(4)]
  have e8: "unat (e + 8) = unat e + 8" using C by (simp add: unat_plus_nowrap)
  have m2: "h_mem h2 = h_mem h1" using cw_pnalloc_frame [OF q] by simp
  have m3: "h_mem (set_data e 0 h2) = store_word (h_mem h1) (e + 8) 0" by (simp add: set_data_def m2)
  have same: "h_mem (set_data e 0 h2) x = h_mem h1 x" if "\<not> inside x (cell e)" for x
    unfolding m3 by (rule store_word_outside) (use C e8 that in \<open>auto simp: inside_def cell_def sizeof_cw_str_def\<close>)
  have "\<forall>j<length ws. word_in rs1 (ws ! j) \<and> word_at (h_mem (set_data e 0 h2)) (elem_addr a1 j) (ws ! j)"
    by (rule words_kept [OF R(1-3) order_refl R(5), of "(0, 0)"]) (use same R(4) in \<open>simp_all add: rdisj_def\<close>)
  moreover have "array_inv (set_data e 0 h2) p2 a1 rs1"
    using cw_pnalloc_refused(3) [OF _ q] R(1) by (simp add: array_inv_def)
  ultimately show ?thesis using wr by (simp add: holds_words_def with_room_def ws)
qed

text \<open>The bytes and the element written.\<close>

lemma room_written:
  assumes wr: "with_room rs1 ws h1 p1 a1 e" and q: "cw_pnalloc h1 p1 n = (h2, p2, data)" and data: "data \<noteq> 0"
    and lbs: "length bs < unat n" and ws: "c_words cf = ws"
    and h5: "h5 = set_len e (of_nat (length bs)) (write_bytes data (bs @ [0]) (set_data e data h2))"
  shows "holds_words ((data, n) # rs1)
    (cf\<lparr>c_heap := h5, c_pool := p2, c_args := a1, c_words := ws @ [\<lparr>s_data = data, s_bytes = bs\<rparr>]\<rparr>)"
proof -
  note R = with_roomD [OF wr]
  have pinv1: "pool_inv h1 p1 (arr_region a1 # rs1)" using R(1) by (simp add: array_inv_def)
  note C = elem_cell [OF R(1-3), folded R(4)]
  have pinv: "pool_inv h2 p2 ((data, n) # arr_region a1 # rs1)" by (rule cw_pnalloc_granted [OF pinv1 q data])
  note sep = pool_invD(4) [OF this] and hi = pool_region_bound [OF this, of "(data, n)"]
  have dcell: "rdisj (data, n) (cell e)"
    using sep C by (auto simp: rdisj_def cell_def sizeof_cw_str_def arr_region_def)
  have m5: "h_mem h5 = store_word (store_bytes (store_word (h_mem h1) (e + 8) data) data (bs @ [0])) e (of_nat (length bs))"
    using cw_pnalloc_frame [OF q] by (simp add: h5 set_len_def write_bytes_def set_data_def)
  note W = word_written [OF _ _ lbs dcell m5]
  have "word_at (h_mem h5) e \<lparr>s_data = data, s_bytes = bs\<rparr>" by (rule W(1)) (use C hi in simp_all)
  moreover have "\<forall>j<length ws. word_in rs1 (ws ! j) \<and> word_at (h_mem h5) (elem_addr a1 j) (ws ! j)"
  proof (rule words_kept [OF R(1-3) order_refl R(5), of "(data, n)"])
    show "h_mem h5 x = h_mem h1 x" if "\<not> inside x (cell (elem_addr a1 (length ws)))" "\<not> inside x (data, n)" for x
      by (rule W(2)) (use C hi that R(4) in simp_all)
  qed (use sep in simp_all)
  moreover have "word_in ((data, n) # rs1) \<lparr>s_data = data, s_bytes = bs\<rparr>"
    unfolding word_in_def using lbs by (intro exI [of _ n]) simp
  moreover have "array_inv h5 p2 a1 ((data, n) # rs1)"
    using pool_inv_swap [OF pinv] R(1) by (simp add: array_inv_def h5)
  ultimately show ?thesis
    using wr word_in_mono [of rs1 _ "(data, n) # rs1"]
    by (auto simp: holds_words_def with_room_def nth_append less_Suc_eq)
qed

lemma lex_found_stored:
  assumes st: "stored cf" and cnt: "counted cf" and pos: "x_start lx < bf_pos (x_buf lx)"
    and low: "bf_pos (x_buf lx) < 2 ^ 63"
  shows "stored (result_conf (lex_found ch cf lx))"
proof -
  let ?n = "of_nat (bf_pos (x_buf lx) - 1 - x_start lx + 1) :: u64" and ?bs = "unescape (token_bytes lx) ch"
  have n: "unat ?n = bf_pos (x_buf lx) - x_start lx" using pos low by (subst unat_of_nat_64) simp_all
  then have lbs: "length ?bs < unat ?n"
    using unescape_length [of "token_bytes lx" ch] pos unfolding n by (simp add: token_bytes_def)
  obtain rs' where hw: "holds_words rs' cf" using st by (auto simp: stored_def)
  obtain h1 p1 a1 e where p: "cw_array_push (c_heap cf) (c_pool cf) (c_args cf) = (h1, p1, a1, e)"
    using prod_cases4 by blast
  obtain h2 p2 data where q: "cw_pnalloc h1 p1 ?n = (h2, p2, data)" using prod_cases3 by blast
  show ?thesis
  proof (cases "e = 0")
    case True
    have "holds_words rs' (cf\<lparr>c_heap := h1, c_pool := p1, c_args := a1\<rparr>)"
      using hw cw_array_push_refused [OF _ p [unfolded True], of rs'] by (simp add: holds_words_def)
    then show ?thesis using True p by (auto simp: lex_found_def stored_def)
  next
    case False
    then obtain rs1 where wr: "with_room rs1 (c_words cf) h1 p1 a1 e" using push_with_room [OF hw cnt p] by blast
    show ?thesis
    proof (cases "data = 0")
      case True
      then have "stored (result_conf (lex_found ch cf lx)) = stored (cf\<lparr>c_heap := set_data e 0 h2, c_pool := p2, c_args := a1\<rparr>)"
        using False p q by (simp add: lex_found_def Let_def stored_def holds_words_def)
      then show ?thesis using room_refused [OF wr q [unfolded True] refl] by (auto simp: stored_def)
    next
      case data: False
      let ?h = "set_len e (of_nat (length ?bs)) (write_bytes data (?bs @ [0]) (set_data e data h2))"
      have "stored (result_conf (lex_found ch cf lx)) =
          stored (cf\<lparr>c_heap := ?h, c_pool := p2, c_args := a1, c_words := c_words cf @ [\<lparr>s_data = data, s_bytes = ?bs\<rparr>]\<rparr>)"
        using data False p q by (simp add: lex_found_def Let_def stored_def holds_words_def)
      then show ?thesis using room_written [OF wr q data lbs refl refl] by (auto simp: stored_def)
    qed
  qed
qed

section \<open>Regions of their own\<close>

text \<open>
  \<open>placed rs rs' ws wr\<close>: the words lie in the regions \<open>wr\<close>, one for each, in that order and large enough
  for the bytes and the NUL; the regions are among \<open>rs'\<close>, apart from each other and from those of \<open>rs\<close>.
\<close>

definition placed :: "region list \<Rightarrow> region list \<Rightarrow> cw_str list \<Rightarrow> region list \<Rightarrow> bool" where
  "placed rs rs' ws wr \<longleftrightarrow>
     set wr \<subseteq> set rs' \<and> set rs \<subseteq> set rs' \<and> separated wr \<and> (\<forall>r\<in>set wr. \<forall>k\<in>set rs. rdisj r k) \<and>
     list_all2 (\<lambda>w r. fst r = s_data w \<and> length (s_bytes w) < unat (snd r)) ws wr"

text \<open>
  \<open>own_regions rs cf\<close>: so do the words of \<open>cf\<close>, in regions of the pool; \<open>array_inv\<close> keeps them apart from
  the elements of the array.
\<close>

definition own_regions :: "region list \<Rightarrow> cw_conf \<Rightarrow> bool" where
  "own_regions rs cf \<longleftrightarrow>
     (\<exists>rs' wr. array_inv (c_heap cf) (c_pool cf) (c_args cf) rs' \<and> placed rs rs' (c_words cf) wr)"

lemma placed_mono: "placed rs rs' ws wr \<Longrightarrow> set rs' \<subseteq> set rs'' \<Longrightarrow> placed rs rs'' ws wr"
  by (auto simp: placed_def)

lemma placed_snoc:
  assumes p: "placed rs rs' ws wr" and sep: "\<forall>k\<in>set rs'. rdisj (data, n) k" and len: "length bs < unat n"
  shows "placed rs ((data, n) # rs') (ws @ [\<lparr>s_data = data, s_bytes = bs\<rparr>]) (wr @ [(data, n)])"
proof -
  have "separated (wr @ [(data, n)])" using p sep rdisj_sym by (auto simp: placed_def separated_append)
  then show ?thesis using p sep len by (auto simp: placed_def intro: list_all2_appendI)
qed

lemma own_same: "same_args cf cf1 \<Longrightarrow> own_regions rs cf1 = own_regions rs cf"
  by (simp add: own_regions_def same_args_def)

lemma lex_found_own:
  assumes own: "own_regions rs cf" and pos: "x_start lx < bf_pos (x_buf lx)" and low: "bf_pos (x_buf lx) < 2 ^ 63"
  shows "own_regions rs (result_conf (lex_found ch cf lx))"
proof -
  let ?n = "of_nat (bf_pos (x_buf lx) - 1 - x_start lx + 1) :: u64" and ?bs = "unescape (token_bytes lx) ch"
  have n: "unat ?n = bf_pos (x_buf lx) - x_start lx" using pos low by (subst unat_of_nat_64) simp_all
  then have lbs: "length ?bs < unat ?n"
    using unescape_length [of "token_bytes lx" ch] pos unfolding n by (simp add: token_bytes_def)
  obtain rs' wr where inv: "array_inv (c_heap cf) (c_pool cf) (c_args cf) rs'" and pl: "placed rs rs' (c_words cf) wr"
    using own by (auto simp: own_regions_def)
  obtain h1 p1 a1 e where p: "cw_array_push (c_heap cf) (c_pool cf) (c_args cf) = (h1, p1, a1, e)"
    using prod_cases4 by blast
  obtain h2 p2 data where q: "cw_pnalloc h1 p1 ?n = (h2, p2, data)" using prod_cases3 by blast
  show ?thesis
  proof (cases "e = 0")
    case True
    then show ?thesis
      using p cw_array_push_refused(4) [OF inv p [unfolded True]] pl by (auto simp: lex_found_def own_regions_def)
  next
    case e: False
    obtain rs1 where inv1: "array_inv h1 p1 a1 rs1" and sub: "set rs' \<subseteq> set rs1"
      using cw_array_push_granted [OF inv p e] by (auto simp: pushed_def)
    note pl1 = placed_mono [OF pl sub]
    have ok1: "array_ok a1" and pinv: "pool_inv h1 p1 (arr_region a1 # rs1)" using inv1 by (simp_all add: array_inv_def)
    show ?thesis
    proof (cases "data = 0")
      case True
      have "array_inv (set_data e 0 h2) p2 a1 rs1"
        using cw_pnalloc_refused(3) [OF pinv q [unfolded True]] ok1 by (simp add: array_inv_def)
      then show ?thesis using e True p q pl1 by (auto simp: lex_found_def Let_def own_regions_def)
    next
      case False
      have pinv2: "pool_inv h2 p2 ((data, ?n) # arr_region a1 # rs1)" by (rule cw_pnalloc_granted [OF pinv q False])
      have sep: "\<forall>k\<in>set rs1. rdisj (data, ?n) k" using pool_invD(4) [OF pinv2] by simp
      have "array_inv h2 p2 a1 ((data, ?n) # rs1)" using pool_inv_swap [OF pinv2] ok1 by (simp add: array_inv_def)
      then show ?thesis
        using e False p q placed_snoc [OF pl1 sep lbs]
        by (auto simp: lex_found_def Let_def own_regions_def array_inv_def)
    qed
  qed
qed

section \<open>The scanner\<close>

lemma lex_first_same: "same_args cf (result_conf (lex_first ch cf lx))"
  by (simp add: lex_first_def Let_def same_args_def)

lemma lex_refill_same:
  assumes "cf_dump (x_file lx) = 0"
  shows "same_args cf (result_conf (lex_refill cf lx))"
  using assms
  by (auto simp: lex_refill_def lex_eof_def lex_too_long_def lex_read_def Let_def same_args_def
      split: prod.splits option.splits)

text \<open>
  What holds of the words from one round to the next: a fact about the memory, the pool, the array
  and the words, which a token starts with and which the block under \<open>found\<close> keeps.
\<close>

locale words_fact =
  fixes fact :: "cw_conf \<Rightarrow> bool" and rs :: "region list"
  assumes same: "same_args cf cf1 \<Longrightarrow> fact cf1 = fact cf"
    and start: "args_ok rs cf \<Longrightarrow> c_words cf = [] \<Longrightarrow> fact cf"
    and found: "fact cf \<Longrightarrow> counted cf \<Longrightarrow> x_start lx < bf_pos (x_buf lx) \<Longrightarrow> bf_pos (x_buf lx) < 2 ^ 63 \<Longrightarrow>
      fact (result_conf (lex_found ch cf lx))"
begin

lemma act:
  assumes t: "lex_taken rs cf lx" and st: "fact cf"
  shows "fact (result_conf (lex_act ch cf lx))"
proof -
  have s: "counted cf" "x_start lx < bf_pos (x_buf lx)" "bf_pos (x_buf lx) < 2 ^ 63"
    using t by (simp_all add: lex_taken_def lex_safe_def buf_ok_def file_ok_def)
  have first: "fact (result_conf (lex_first ch cf lx1))" for lx1
    using same [OF lex_first_same] st by simp
  have "fact (result_conf (lex_found c cf lx1))" if "x_buf lx1 = x_buf lx" "x_start lx1 = x_start lx" for c lx1
    using found [OF st s(1)] s that by simp
  then have "fact (result_conf (lex_inner ch cf lx))"
    using st same [of cf "logged m cf" for m] by (simp add: lex_inner_def Let_def)
  then show ?thesis using first st same [of cf "logged m cf" for m]
    by (simp add: lex_act_def lex_char_def lex_first_def Let_def)
qed

lemma step:
  assumes s: "lex_safe rs cf lx" and st: "fact cf"
  shows "fact (result_conf (lex_step cf lx))"
proof (cases "lex_refill cf lx")
  case (Return rc cf1 lx1)
  then show ?thesis using lex_refill_same [of lx cf] same st s by (simp add: lex_step_def lex_safe_def)
next
  case (Next cf1 lx1)
  have ok: "buf_ok lx" using s by (simp add: lex_safe_def)
  note R = lex_refill_next [OF ok Next]
  have s1: "lex_safe rs cf1 lx1" using lex_refill_good [OF s] Next by simp
  have st1: "fact cf1" using R(6) same st s by (simp add: lex_safe_def)
  obtain ch lx2 where t: "lex_take lx1 = (ch, lx2)" by fastforce
  note T = lex_take_ok [OF R(1,2) t]
  have "lex_taken rs cf1 lx2"
    using s1 T(1,2,6,9) by (simp add: lex_taken_def lex_safe_def same_flags_def)
  then show ?thesis using Next t st1 act by (simp add: lex_step_def)
qed

lemma token:
  assumes ok: "args_ok rs cf" "conf_file_ok cf"
    and c: "cw_conf_read_token cf = Some (rc, cf')"
  shows "fact cf'"
proof -
  obtain f where f: "c_file cf = Some f" "file_ok f" "cf_dump f = 0" using ok(2) by (auto simp: conf_file_ok_def)
  let ?cf0 = "cf\<lparr>c_args := (c_args cf)\<lparr>a_nelts := 0\<rparr>, c_words := []\<rparr>"
  obtain cf1 lx1 where l: "lex_loop ?cf0 (lex_init f) = Some (rc, cf1, lx1)" and cf': "cf' = cf1\<lparr>c_file := Some (x_file lx1)\<rparr>"
    using c f by (auto simp: cw_conf_read_token_def)
  have I: "lex_safe rs ?cf0 (lex_init f) \<and> fact ?cf0"
    using lex_init_safe [OF ok(1) f(2,3)] start [OF args_ok_reset [OF ok(1)]] by simp
  have "fact cf1"
  proof (rule lex_loop_rule [OF l, where I = "\<lambda>cf lx. lex_safe rs cf lx \<and> fact cf" and Q = "\<lambda>rc cf lx. fact cf"])
    show "lex_safe rs ?cf0 (lex_init f) \<and> fact ?cf0" by (rule I)
    fix cf lx assume a: "lex_safe rs cf lx \<and> fact cf"
    show "buf_ok lx" using a by (simp add: lex_safe_def)
    show "lex_safe rs cf1 lx1 \<and> fact cf1" if "lex_step cf lx = Next cf1 lx1" for cf1 lx1
      using lex_step_good [of rs cf lx] step [of cf lx] a that by simp
    show "fact cf1" if "lex_step cf lx = Return rc cf1 lx1" for rc cf1 lx1
      using step [of cf lx] a that by simp
  qed
  then show ?thesis using same [of cf1 cf'] by (simp add: cf' same_args_def)
qed

end

interpretation stored_words: words_fact stored rs for rs
proof
  show "stored cf" if "args_ok rs cf" "c_words cf = []" for cf
    using that by (auto simp: args_ok_def stored_def holds_words_def)
qed (use stored_same lex_found_stored in blast)+

interpretation own_words: words_fact "own_regions rs" rs for rs
proof
  show "own_regions rs cf" if "args_ok rs cf" "c_words cf = []" for cf
    using that by (auto simp: args_ok_def own_regions_def placed_def)
qed (use own_same lex_found_own in blast)+

lemmas read_token_stored = stored_words.token and read_token_own = own_words.token

section \<open>Reading the words\<close>

text \<open>\<open>words_ok\<close>: read from memory, the elements of \<open>cf->args\<close> are the words.\<close>

definition words_ok :: "cw_conf \<Rightarrow> bool" where
  "words_ok cf \<longleftrightarrow> a_size (c_args cf) = sizeof_cw_str \<and> args_of (c_heap cf) (c_args cf) = c_words cf"

lemma words_ok_counted: "words_ok cf \<Longrightarrow> counted cf"
  by (auto simp: words_ok_def counted_def args_of_def dest: arg_cong [of _ _ length])

lemma read_token_words:
  assumes "args_ok rs cf" "conf_file_ok cf" "cw_conf_read_token cf = Some (rc, cf')" "rc \<noteq> CW_ERROR"
  shows "words_ok cf'"
proof -
  have "args_ok rs cf'" "counted cf'" using read_token_result [OF assms(1-3)] assms(4) by (simp_all add: token_result_def)
  then show ?thesis
    using stored_args [OF read_token_stored [OF assms(1-3)]] by (simp add: words_ok_def args_ok_def)
qed

end
