(* ===== verification/Conf_Calm.thy ===== *)
theory Conf_Calm
  imports Conf_Words
begin

text \<open>
  The scanner where the system does what it is asked: if every read gives the bytes asked for, a
  file shorter than the buffer is refused only for a reason of its own, or because the C library
  refused a request for memory.
\<close>

section \<open>A calm world\<close>

definition reliable :: "u8 list \<Rightarrow> int \<Rightarrow> sys \<Rightarrow> bool" where
  "reliable content fd s \<longleftrightarrow>
     (\<forall>t n off. 0 \<le> off \<longrightarrow> sy_pread s t fd n off = Some (take n (drop (nat off) content))) \<and>
     (\<forall>t. sy_close s t fd \<noteq> CW_FILE_ERROR)"

text \<open>The file \<open>fd\<close> holds \<open>content\<close>, which is shorter than the buffer.\<close>

definition calm_sys :: "u8 list \<Rightarrow> int \<Rightarrow> sys \<Rightarrow> bool" where
  "calm_sys content fd s \<longleftrightarrow> reliable content fd s \<and> length content < CW_CONF_BUFFER"

definition same_os :: "sys \<Rightarrow> sys \<Rightarrow> bool" where
  "same_os s s1 \<longleftrightarrow> sy_pread s1 = sy_pread s \<and> sy_close s1 = sy_close s"

lemma same_os_refl [simp]: "same_os s s"
  by (simp add: same_os_def)

lemma same_os_trans: "same_os s s1 \<Longrightarrow> same_os s1 s2 \<Longrightarrow> same_os s s2"
  by (simp add: same_os_def)

lemma reliable_same: "same_os s s1 \<Longrightarrow> reliable content fd s1 = reliable content fd s"
  by (simp add: same_os_def reliable_def)

text \<open>The messages for which the C library, the system or the size of the buffer is the reason.\<close>

fun refused_msg :: "conf_msg \<Rightarrow> bool" where
  "refused_msg ReadFailed = True"
| "refused_msg (ShortRead n k) = True"
| "refused_msg (TooLongParam k) = True"
| "refused_msg (MissingTerminator q) = True"
| "refused_msg (CloseFailed name) = True"
| "refused_msg m = False"

definition own_fault :: "cw_conf \<Rightarrow> cw_conf \<Rightarrow> bool" where
  "own_fault cf cf1 \<longleftrightarrow> c_log cf1 = c_log cf \<or> (\<exists>m. c_log cf1 = c_log cf @ [m] \<and> \<not> refused_msg m)"

lemma own_fault_calm: "own_fault cf cf1 \<Longrightarrow> trouble cf cf1 \<Longrightarrow> refusal (c_heap cf) (c_heap cf1)"
  by (auto simp: own_fault_def trouble_def)

section \<open>One round\<close>

text \<open>The token begun and the input left are no longer than the file.\<close>

definition ahead :: "u8 list \<Rightarrow> lexer \<Rightarrow> bool" where
  "ahead content lx \<longleftrightarrow> length (begun lx) + length (input_of content (x_file lx)) \<le> length content"

lemma lex_refill_os: "same_os (c_sys cf) (c_sys (result_conf (lex_refill cf lx)))"
  by (auto simp: lex_refill_def lex_eof_def lex_too_long_def lex_read_def Let_def same_os_def faulty_def cw_read_file_frame
      split: prod.splits option.splits)

lemma lex_act_os: "c_sys (result_conf (lex_act ch cf lx)) = c_sys cf"
  by (auto simp: lex_act_def lex_char_def lex_first_def lex_inner_def lex_found_def Let_def split: prod.splits)

lemma lex_act_own_fault: "own_fault cf (result_conf (lex_act ch cf lx))"
  by (auto simp: lex_act_def lex_char_def lex_first_def lex_inner_def lex_found_def Let_def own_fault_def split: prod.splits)

lemma lex_act_next_log: "lex_act ch cf lx = Next cf1 lx1 \<Longrightarrow> c_log cf1 = c_log cf"
  by (auto simp: lex_act_def lex_char_def lex_first_def lex_inner_def lex_found_def Let_def split: prod.splits if_splits)

lemma lex_read_goes_on:
  assumes ok: "buf_ok lx" and more: "f_offset (cf_file (x_file lx)) < f_size (cf_file (x_file lx))"
    and r: "reads content (cf_file (x_file lx)) (c_sys cf)" and rel: "reliable content (f_fd (cf_file (x_file lx))) (c_sys cf)"
    and short: "bf_pos (x_buf lx) - x_start lx < CW_CONF_BUFFER"
  shows "lex_read cf lx \<noteq> Return rc cf1 lx1"
proof -
  let ?f = "cf_file (x_file lx)" and ?len = "bf_pos (x_buf lx) - x_start lx"
  have e: "bf_end (x_buf lx) = CW_CONF_BUFFER" using ok more by (auto simp: buf_ok_def file_ok_def)
  have off: "0 \<le> f_offset ?f" and sz: "f_size ?f = int (length content)" using r by (simp_all add: reads_def)
  have n: "0 < read_size lx ?len" "read_size lx ?len \<le> f_size ?f - f_offset ?f"
    using more short by (simp_all add: read_size_def Let_def e)
  define bs where "bs = take (nat (read_size lx ?len)) (drop (nat (f_offset ?f)) content)"
  have "int (length bs) = read_size lx ?len" using n off sz by (simp add: bs_def)
  moreover have "sy_pread (c_sys cf) (sy_time (c_sys cf)) (f_fd ?f) (nat (read_size lx ?len)) (f_offset ?f) = Some bs"
    using rel off by (simp add: reliable_def bs_def)
  ultimately show ?thesis by (auto simp: lex_read_def Let_def cw_read_file_def)
qed

lemma lex_refill_own_fault:
  assumes ok: "buf_ok lx" and r: "reads content (cf_file (x_file lx)) (c_sys cf)"
    and rel: "reliable content (f_fd (cf_file (x_file lx))) (c_sys cf)"
    and a: "ahead content lx" and small: "length content < CW_CONF_BUFFER" and c: "lex_refill cf lx = Return rc cf1 lx1"
  shows "own_fault cf cf1"
proof -
  have "length (begun lx) = bf_pos (x_buf lx) - x_start lx" by (simp add: begun_def)
  then have short: "bf_pos (x_buf lx) - x_start lx < CW_CONF_BUFFER" using a small by (simp add: ahead_def)
  have "lex_eof cf lx = Return rc cf1 lx1"
    using c short lex_read_goes_on [OF ok _ r rel short, of rc cf1 lx1]
    by (auto simp: lex_refill_def split: if_splits)
  then show ?thesis by (auto simp: lex_eof_def own_fault_def split: if_splits)
qed

lemma lex_act_ahead:
  assumes "lex_act ch cf lx = Next cf1 lx1" "x_start lx < bf_pos (x_buf lx)" "ahead content lx"
  shows "ahead content lx1" "x_file lx1 = x_file lx"
  using lex_act_next [OF assms(1)] assms(2,3) by (auto simp: ahead_def begun_def)

definition calm_lex :: "region list \<Rightarrow> u8 list \<Rightarrow> int \<Rightarrow> cw_conf \<Rightarrow> cw_conf \<Rightarrow> lexer \<Rightarrow> bool" where
  "calm_lex rs content fd cf0 cf lx \<longleftrightarrow>
     lex_safe rs cf lx \<and> reads content (cf_file (x_file lx)) (c_sys cf) \<and> f_fd (cf_file (x_file lx)) = fd \<and>
     same_os (c_sys cf0) (c_sys cf) \<and> c_log cf = c_log cf0 \<and> ahead content lx"

fun result_fd :: "lex_result \<Rightarrow> int" where
  "result_fd (Return rc cf lx) = f_fd (cf_file (x_file lx))"
| "result_fd (Next cf lx) = f_fd (cf_file (x_file lx))"

lemma lex_refill_fd: "result_fd (lex_refill cf lx) = f_fd (cf_file (x_file lx))"
  using cw_read_file_frame(2)
  by (auto simp: lex_refill_def lex_eof_def lex_too_long_def lex_read_def Let_def split: prod.splits option.splits)

lemma calm_refill:
  assumes i: "calm_lex rs content fd cf0 cf lx" and rel: "reliable content fd (c_sys cf0)" and small: "length content < CW_CONF_BUFFER"
    and r: "lex_refill cf lx = Return rc cf1 lx1"
  shows "own_fault cf0 cf1 \<and> same_os (c_sys cf0) (c_sys cf1) \<and> f_fd (cf_file (x_file lx1)) = fd"
proof -
  have I: "buf_ok lx" "reads content (cf_file (x_file lx)) (c_sys cf)" "f_fd (cf_file (x_file lx)) = fd"
    "same_os (c_sys cf0) (c_sys cf)" "c_log cf = c_log cf0" "ahead content lx"
    using i by (simp_all add: calm_lex_def lex_safe_def)
  have "reliable content (f_fd (cf_file (x_file lx))) (c_sys cf)" using rel reliable_same [OF I(4)] I(3) by simp
  then have "own_fault cf cf1" by (rule lex_refill_own_fault [OF I(1,2) _ I(6) small r])
  moreover have "same_os (c_sys cf0) (c_sys cf1)" using same_os_trans [OF I(4) lex_refill_os [of cf lx]] r by simp
  moreover have "f_fd (cf_file (x_file lx1)) = fd" using lex_refill_fd [of cf lx] r I(3) by simp
  ultimately show ?thesis using I(5) by (simp add: own_fault_def)
qed

lemma calm_taken:
  assumes i: "calm_lex rs content fd cf0 cf lx" and r: "lex_refill cf lx = Next cf1 lx1" and t: "lex_take lx1 = (ch, lx2)"
  shows "x_start lx2 < bf_pos (x_buf lx2)" "ahead content lx2" "reads content (cf_file (x_file lx2)) (c_sys cf1)"
    "f_fd (cf_file (x_file lx2)) = fd" "same_os (c_sys cf0) (c_sys cf1)" "c_log cf1 = c_log cf0"
proof -
  have I: "buf_ok lx" "reads content (cf_file (x_file lx)) (c_sys cf)" "f_fd (cf_file (x_file lx)) = fd"
    "same_os (c_sys cf0) (c_sys cf)" "c_log cf = c_log cf0" "ahead content lx"
    using i by (simp_all add: calm_lex_def lex_safe_def)
  note R = lex_refill_next [OF I(1) r] and In = lex_refill_input [OF I(1) r I(2)]
  note T = lex_take_ok [OF R(1,2) t] and Ti = lex_take_input [OF R(1,2) t]
  show "x_start lx2 < bf_pos (x_buf lx2)" by (rule T(2))
  have "ahead content lx1" using I(6) by (simp only: ahead_def In)
  then show "ahead content lx2" by (simp add: ahead_def Ti)
  show "reads content (cf_file (x_file lx2)) (c_sys cf1)" using In(3) T(8) by simp
  show "f_fd (cf_file (x_file lx2)) = fd" using lex_refill_fd [of cf lx] r I(3) T(8) by simp
  show "same_os (c_sys cf0) (c_sys cf1)" using same_os_trans [OF I(4) lex_refill_os [of cf lx]] r by simp
  show "c_log cf1 = c_log cf0" using In(4) I(5) by simp
qed

lemma calm_step:
  assumes i: "calm_lex rs content fd cf0 cf lx" and rel: "reliable content fd (c_sys cf0)" and small: "length content < CW_CONF_BUFFER"
  shows "lex_step cf lx = Next cf1 lx1 \<Longrightarrow> calm_lex rs content fd cf0 cf1 lx1"
    and "lex_step cf lx = Return rc cf1 lx1 \<Longrightarrow>
      own_fault cf0 cf1 \<and> same_os (c_sys cf0) (c_sys cf1) \<and> f_fd (cf_file (x_file lx1)) = fd"
proof -
  have "(\<forall>cf1 lx1. lex_step cf lx = Next cf1 lx1 \<longrightarrow> calm_lex rs content fd cf0 cf1 lx1) \<and>
    (\<forall>rc cf1 lx1. lex_step cf lx = Return rc cf1 lx1 \<longrightarrow>
      own_fault cf0 cf1 \<and> same_os (c_sys cf0) (c_sys cf1) \<and> f_fd (cf_file (x_file lx1)) = fd)"
  proof (cases "lex_refill cf lx")
    case (Return rc cf1 lx1)
    then show ?thesis using calm_refill [OF i rel small Return] by (auto simp: lex_step_def)
  next
    case (Next cf2 lx2)
    obtain ch lx3 where t: "lex_take lx2 = (ch, lx3)" by fastforce
    note T = calm_taken [OF i Next t]
    have st: "lex_step cf lx = lex_act ch cf2 lx3" using Next t by (simp add: lex_step_def)
    have "calm_lex rs content fd cf0 cf1 lx1" if a: "lex_act ch cf2 lx3 = Next cf1 lx1" for cf1 lx1
      using lex_step_good [of rs cf lx] i lex_act_ahead [OF a T(1,2)] lex_act_next_log [OF a] lex_act_os [of ch cf2 lx3] T(3-6)
      by (simp add: calm_lex_def st a)
    moreover have "own_fault cf0 cf1 \<and> same_os (c_sys cf0) (c_sys cf1) \<and> f_fd (cf_file (x_file lx1)) = fd"
      if a: "lex_act ch cf2 lx3 = Return rc cf1 lx1" for rc cf1 lx1
      using lex_act_own_fault [of cf2 ch lx3] lex_act_os [of ch cf2 lx3] lex_act_return_file [OF a] T(4-6)
      by (simp add: a own_fault_def)
    ultimately show ?thesis unfolding st by blast
  qed
  then show "lex_step cf lx = Next cf1 lx1 \<Longrightarrow> calm_lex rs content fd cf0 cf1 lx1"
    and "lex_step cf lx = Return rc cf1 lx1 \<Longrightarrow>
      own_fault cf0 cf1 \<and> same_os (c_sys cf0) (c_sys cf1) \<and> f_fd (cf_file (x_file lx1)) = fd" by blast+
qed

section \<open>A token\<close>

text \<open>
  \<open>calm content fd cf\<close>: the file \<open>fd\<close> is open, and what is left of it is no longer than the whole.
\<close>

definition calm :: "u8 list \<Rightarrow> int \<Rightarrow> cw_conf \<Rightarrow> bool" where
  "calm content fd cf \<longleftrightarrow>
     calm_sys content fd (c_sys cf) \<and>
     (\<exists>f. c_file cf = Some f \<and> f_fd (cf_file f) = fd \<and> length (input_of content f) \<le> length content)"

lemma read_token_calm:
  assumes ok: "args_ok rs cf" and f: "c_file cf = Some f" "file_ok f" "cf_dump f = 0"
    and r: "reads content (cf_file f) (c_sys cf)" and calm: "calm content fd cf"
    and c: "cw_conf_read_token cf = Some (rc, cf')"
  shows "trouble cf cf' \<Longrightarrow> refusal (c_heap cf) (c_heap cf')" and "same_os (c_sys cf) (c_sys cf')"
    and "\<exists>f'. c_file cf' = Some f' \<and> f_fd (cf_file f') = fd"
proof -
  let ?cf = "cf\<lparr>c_args := (c_args cf)\<lparr>a_nelts := 0\<rparr>, c_words := []\<rparr>"
  obtain cf1 lx1 where l: "lex_loop ?cf (lex_init f) = Some (rc, cf1, lx1)"
    and cf': "cf' = cf1\<lparr>c_file := Some (x_file lx1)\<rparr>"
    using c f(1) by (auto simp: cw_conf_read_token_def)
  have i: "calm_lex rs content fd cf ?cf (lex_init f)"
    using lex_init_safe [OF ok f(2,3)] r calm f(1)
    by (auto simp: calm_lex_def calm_def calm_sys_def ahead_def begun_def lex_init_def)
  have rel: "reliable content fd (c_sys cf)" "length content < CW_CONF_BUFFER" using calm by (simp_all add: calm_def calm_sys_def)
  have "own_fault cf cf1 \<and> same_os (c_sys cf) (c_sys cf1) \<and> f_fd (cf_file (x_file lx1)) = fd"
  proof (rule lex_loop_rule [OF l, where I = "calm_lex rs content fd cf"])
    show "calm_lex rs content fd cf ?cf (lex_init f)" by (rule i)
    show "buf_ok lx" if "calm_lex rs content fd cf c lx" for c lx using that by (simp add: calm_lex_def lex_safe_def)
  qed (use calm_step rel in blast)+
  then show "trouble cf cf' \<Longrightarrow> refusal (c_heap cf) (c_heap cf')" "same_os (c_sys cf) (c_sys cf')" "\<exists>f'. c_file cf' = Some f' \<and> f_fd (cf_file f') = fd"
    using own_fault_calm [of cf cf'] by (auto simp: cf' own_fault_def)
qed

end
