(* ===== verification/Conf_Token_Props.thy ===== *)
theory Conf_Token_Props
  imports Conf_Calm
begin

text \<open>
  The properties of \<open>cw_conf_read_token\<close>, and a configuration file to evaluate it on.
\<close>

section \<open>A file to read\<close>

definition demo_file :: "u8 list \<Rightarrow> cw_conf_file" where
  "demo_file txt =
     \<lparr>cf_file = \<lparr>f_fd = 3, f_name = [], f_size = int (length txt), f_offset = 0, f_sys_offset = 0\<rparr>,
      cf_buffer = \<lparr>bf_start = 8192, bf_mem = (\<lambda>i. 0), bf_pos = 0, bf_last = 0, bf_end = CW_CONF_BUFFER\<rparr>,
      cf_dump = 0, cf_line = 1\<rparr>"

definition demo_conf :: "u8 list \<Rightarrow> cw_conf" where
  "demo_conf txt =
     \<lparr>c_heap = demo_heap, c_sys = demo_sys txt, c_log = [], c_ptrs = (\<lambda>x. 0), c_core = (\<lambda>x. None),
      c_args = demo_array, c_words = [], c_param = \<lparr>s_data = 0, s_bytes = []\<rparr>, c_pool = demo_array_pool,
      c_file = Some (demo_file txt), c_ctx = 0, c_module_type = CW_CORE_MODULE, c_cmd_type = CW_MAIN_CONF\<rparr>"

lemmas lex_eval = lex_loop.simps lex_step_def lex_refill_def lex_eof_def lex_too_long_def lex_read_def
  lex_act_def lex_char_def lex_first_def lex_inner_def lex_found_def lex_take_def lex_init_def
  read_size_def moved_mem_def buf_put_def buf_move_def token_bytes_def set_buf_def is_space_def
  cw_read_file_def tick_def cw_conf_read_token_def demo_conf_def demo_file_def demo_sys_def words_of_def
  LF_def CR_def CW_CONF_BUFFER_def CW_CONF_BLOCK_START_def CW_CONF_BLOCK_DONE_def CW_CONF_FILE_DONE_def
  CW_INVALID_FILE_def CW_FILE_ERROR_def sizeof_cw_array_def
  cw_array_push_def demo_array_def demo_array_pool_eq demo_pool_def d_last_def pool_eval

lemma demo_conf_args: "args_ok [(4192, 40)] (demo_conf txt)"
  unfolding args_ok_def demo_conf_def
  using demo_array_inv by (intro conjI exI [of _ "[(4192, 40)]"]) (simp_all add: demo_array_def sizeof_cw_str_def)

lemma demo_conf_file: "conf_file_ok (demo_conf txt)"
  by (simp add: conf_file_ok_def demo_conf_def demo_file_def file_ok_def CW_CONF_BUFFER_def)

lemma demo_file_ok: "c_file (demo_conf txt) = Some (demo_file txt)" "file_ok (demo_file txt)"
  "cf_dump (demo_file txt) = 0" "input_of txt (demo_file txt) = txt"
  by (simp_all add: demo_conf_def demo_file_def file_ok_def CW_CONF_BUFFER_def input_of_def buffered_def)

lemma demo_reads: "reads txt (cf_file (demo_file txt)) (c_sys (demo_conf txt))"
  by (auto simp: reads_def demo_conf_def demo_file_def demo_sys_def)

section \<open>Properties\<close>

text \<open>
  C15: the scanner always returns: whatever the file and whatever the system answers, its
  loop ends, because every round takes at least one byte of what the file had left.
\<close>

theorem cw_conf_read_token_ends:
  assumes "conf_file_ok cf"
  shows "\<exists>rc cf'. cw_conf_read_token cf = Some (rc, cf')"
  using assms by (rule read_token_ends)

theorem cw_conf_read_token_ends_witness:
  "\<exists>rc cf'. cw_conf_read_token (demo_conf [34, 92]) = Some (rc, cf')"
  by (rule cw_conf_read_token_ends) (rule demo_conf_file)

text \<open>
  C16: what a token is.  The code returned is one of the five the caller expects; a
  directive (\<open>CW_OK\<close>, \<open>CW_CONF_BLOCK_START\<close>) has at least its name and the array
  counts its words, so \<open>cf->args->elts\<close> can be read; \<open>CW_CONF_BLOCK_DONE\<close> and
  \<open>CW_CONF_FILE_DONE\<close> come with none.  Each word lies in a region of its own, cut from the
  pool and large enough for its bytes and the NUL, apart from those of the other words, from the
  elements of the array and from the regions \<open>rs\<close> handed out before; array, pool, heap and
  buffer keep their invariants.
\<close>

theorem cw_conf_read_token_safe:
  assumes "args_ok rs cf" and "conf_file_ok cf" and "cw_conf_read_token cf = Some (rc, cf')"
  shows "args_ok rs cf' \<and> conf_file_ok cf' \<and> token_result rc cf' \<and> own_regions rs cf'"
  using read_token_result [OF assms] read_token_own [OF assms] by blast

theorem cw_conf_read_token_safe_witness:
  "\<exists>cf'. cw_conf_read_token (demo_conf [97, 98, 32, 92, 59, 59]) = Some (CW_OK, cf') \<and>
     words_of cf' = [[97, 98], [92, 59]] \<and> unat (a_nelts (c_args cf')) = 2 \<and> args_ok [(4192, 40)] cf' \<and>
     own_regions [(4192, 40)] cf'"
proof -
  obtain cf' where c: "cw_conf_read_token (demo_conf [97, 98, 32, 92, 59, 59]) = Some (CW_OK, cf')"
    and w: "words_of cf' = [[97, 98], [92, 59]]"
    by (simp add: lex_eval)
  have "length (c_words cf') = length (words_of cf')" by (simp add: words_of_def)
  then show ?thesis
    using cw_conf_read_token_safe [OF demo_conf_args demo_conf_file c] c w
    by (simp add: token_result_def counted_def conf_codes)
qed

text \<open>
  C17: the words are in memory.  What the elements of \<open>cf->args\<close> hold after a token was returned, read
  back field by field and byte by byte, are the words of the token, each followed by a NUL: no store of the scanner, and no move of the array, has
  touched a word written before.
\<close>

theorem cw_conf_read_token_memory:
  assumes "args_ok rs cf" and "conf_file_ok cf" and "cw_conf_read_token cf = Some (rc, cf')" and "rc \<noteq> CW_ERROR"
  shows "args_of (c_heap cf') (c_args cf') = c_words cf' \<and>
    (\<forall>w\<in>set (args_of (c_heap cf') (c_args cf')).
       mem_bytes (h_mem (c_heap cf')) (s_data w) (length (s_bytes w) + 1) = s_bytes w @ [0])"
proof -
  have st: "stored cf'" by (rule read_token_stored [OF assms(1-3)])
  have a: "args_of (c_heap cf') (c_args cf') = c_words cf'" using read_token_words [OF assms] by (simp add: words_ok_def)
  then show ?thesis using st unfolding a
    by (auto simp: stored_def holds_words_def word_at_def in_set_conv_nth)
qed

theorem cw_conf_read_token_memory_witness:
  "\<exists>cf'. cw_conf_read_token (demo_conf [97, 32, 98, 32, 92, 59, 59]) = Some (CW_OK, cf') \<and>
     map s_bytes (args_of (c_heap cf') (c_args cf')) = [[97], [98], [92, 59]]"
proof -
  let ?txt = "[97, 32, 98, 32, 92, 59, 59] :: u8 list"
  obtain cf' where c: "cw_conf_read_token (demo_conf ?txt) = Some (CW_OK, cf')"
    and w: "words_of cf' = [[97], [98], [92, 59]]"
    by (simp add: lex_eval)
  have "args_of (c_heap cf') (c_args cf') = c_words cf'"
    using cw_conf_read_token_memory [OF demo_conf_args demo_conf_file c] by (simp add: conf_codes)
  then show ?thesis using c w by (simp add: words_of_def)
qed

text \<open>
  C18: \<open>cw_conf_read_token\<close> implements the scanner of the language.  If the input left is
  well formed up to its first token, the code returns that token's code and words and leaves
  what follows it; or it returns \<open>CW_ERROR\<close> because the C library refused memory, a read
  failed or was short, or the token (or the blanks and comments before it) filled the buffer.
  If the input is not well formed, it returns \<open>CW_ERROR\<close>.
\<close>

theorem cw_conf_read_token_refines:
  assumes "args_ok rs cf" and "c_file cf = Some f" and "file_ok f" and "cf_dump f = 0"
    and "reads content (cf_file f) (c_sys cf)" and "cw_conf_read_token cf = Some (rc, cf')"
  shows "\<exists>f'. c_file cf' = Some f' \<and>
    (case scan Gap [] [] (input_of content f) of
       Tokens rc0 ws rest \<Rightarrow>
         (rc = rc0 \<and> words_of cf' = ws \<and> input_of content f' = rest \<and> later cf cf' \<and>
            reads content (cf_file f') (c_sys cf')) \<or>
         (rc = CW_ERROR \<and> trouble cf cf')
     | Broken \<Rightarrow> rc = CW_ERROR)"
  using assms by (rule read_token_refines)

theorem cw_conf_read_token_refines_witness:
  "\<exists>cf' f'. cw_conf_read_token (demo_conf [97, 32, 123, 125]) = Some (CW_CONF_BLOCK_START, cf') \<and>
     c_file cf' = Some f' \<and> words_of cf' = [[97]] \<and> input_of [97, 32, 123, 125] f' = [125]"
proof -
  let ?txt = "[97, 32, 123, 125] :: u8 list"
  obtain cf' where c: "cw_conf_read_token (demo_conf ?txt) = Some (CW_CONF_BLOCK_START, cf')"
    by (simp add: lex_eval)
  have s: "scan Gap [] [] ?txt = Tokens CW_CONF_BLOCK_START [[97]] [125]"
    by (simp add: is_space_def cw_sizes end_code_def)
  from cw_conf_read_token_refines [OF demo_conf_args demo_file_ok(1-3) demo_reads c]
  show ?thesis using c unfolding demo_file_ok(4) s by (auto simp: conf_codes)
qed

text \<open>
  C19: a directive written by quoting its words is read back word by word: whatever bytes
  the words hold, quotes, backslashes, braces, semicolons, line feeds or NULs, and whether
  or not the directive spans several fills of the buffer; or else the scanner gives up, with
  \<open>CW_ERROR\<close> and a reason: a message in the log (a read that failed or was short, a word too long
  for the buffer of 4096 bytes) or a refused request for memory.  In a file shorter than the
  buffer, whose reads give the bytes asked for, only the refused request remains.
\<close>

theorem cw_conf_read_token_quoted:
  assumes "args_ok rs cf" and "c_file cf = Some f" and "file_ok f" and "cf_dump f = 0"
    and "reads content (cf_file f) (c_sys cf)" and "cw_conf_read_token cf = Some (rc, cf')"
    and "input_of content f = directive ws t @ rest" and "ws \<noteq> []" and "t = 59 \<or> t = 123"
  shows "(rc = end_code t \<and> words_of cf' = ws \<or> rc = CW_ERROR \<and> trouble cf cf') \<and>
    (calm content fd cf \<and> rc = CW_ERROR \<longrightarrow> refusal (c_heap cf) (c_heap cf'))"
proof -
  have a: "rc = end_code t \<and> words_of cf' = ws \<or> rc = CW_ERROR \<and> trouble cf cf'"
    using read_token_refines [OF assms(1-6)] scan_directive [of "[]" ws t rest] assms(7-9) by auto
  moreover have "end_code t \<noteq> CW_ERROR" by (simp add: end_code_def conf_codes)
  ultimately show ?thesis using read_token_calm(1) [OF assms(1-5) _ assms(6), of fd] by auto
qed

theorem cw_conf_read_token_quoted_witness:
  "\<exists>cf'. cw_conf_read_token (demo_conf (directive [[97], [34, 59]] 59)) = Some (CW_OK, cf') \<and>
     words_of cf' = [[97], [34, 59]]"
proof -
  let ?txt = "directive [[97], [34, 59]] 59"
  have e: "?txt = [32, 34, 97, 34, 32, 34, 92, 34, 59, 34, 59]" by (simp add: quote_def)
  obtain cf' where c: "cw_conf_read_token (demo_conf ?txt) = Some (CW_OK, cf')"
    unfolding e by (simp add: lex_eval)
  have "input_of ?txt (demo_file ?txt) = directive [[97], [34, 59]] 59 @ []" using demo_file_ok(4) by simp
  from cw_conf_read_token_quoted [OF demo_conf_args demo_file_ok(1-3) demo_reads c this]
  show ?thesis using c by (simp add: conf_codes)
qed

end
