(* ===== verification/Conf_Parse.thy ===== *)
theory Conf_Parse
  imports Conf_Words
begin

text \<open>
  \<open>cw_conf_handler\<close>, \<open>cw_conf_parse\<close> and \<open>cw_conf_param\<close> of
  \<open>src/core/cw_conf_file.c\<close>: the table of directives, and the loop that reads tokens and
  runs them.  The modules are an argument, as \<open>cf->cycle->modules\<close> is; a directive's
  \<open>set\<close> is a function on the state.
\<close>

section \<open>Modules and directives\<close>

record cw_command =
  cmd_name :: "u8 list"
  cmd_type :: u64
  cmd_set :: "cw_conf \<Rightarrow> addr \<Rightarrow> cw_conf \<times> conf_rv"
  cmd_conf :: u64

text \<open>
  \<open>m_create\<close> is the \<open>create_conf\<close> of a core module's context: it allocates from the
  cycle's pool and returns the address of the configuration, or NULL.
\<close>

record cw_module =
  m_ctx_index :: u64
  m_index :: u64
  m_commands :: "cw_command list"
  m_type :: u64
  m_create :: "(heap \<Rightarrow> cw_pool \<Rightarrow> (addr \<Rightarrow> cw_core_conf option)
     \<Rightarrow> heap \<times> cw_pool \<times> (addr \<Rightarrow> cw_core_conf option) \<times> addr) option"

text \<open>\<open>strcmp\<close> on the bytes of two strings: they are compared up to the first NUL.\<close>

definition cstr :: "u8 list \<Rightarrow> u8 list" where
  "cstr s = takeWhile (\<lambda>c. c \<noteq> 0) s"

definition cw_strcmp_eq :: "u8 list \<Rightarrow> u8 list \<Rightarrow> bool" where
  "cw_strcmp_eq s t \<longleftrightarrow> cstr s = cstr t"

section \<open>\<open>cw_conf_handler\<close>\<close>

text \<open>
  \<open>value = cf->args->elts\<close>: the elements are read from the memory, where the scanner wrote
  them.  \<open>name\<close> is the first.
\<close>

definition arg_value :: "cw_conf \<Rightarrow> nat \<Rightarrow> cw_str" where
  "arg_value cf k = str_at (h_mem (c_heap cf)) (a_elts (c_args cf) + sizeof_cw_str * of_nat k)"

definition directive_name :: "cw_conf \<Rightarrow> u8 list" where
  "directive_name cf = s_bytes (arg_value cf 0)"

lemma arg_value_word: "words_ok cf \<Longrightarrow> k < length (c_words cf) \<Longrightarrow> arg_value cf k = c_words cf ! k"
proof -
  assume w: "words_ok cf" and k: "k < length (c_words cf)"
  have "k < unat (a_nelts (c_args cf))" using words_ok_counted [OF w] k by (simp add: counted_def)
  then have "args_of (c_heap cf) (c_args cf) ! k = arg_value cf k"
    using w by (simp add: words_ok_def args_of_def arg_value_def elem_addr_def)
  then show "arg_value cf k = c_words cf ! k" using w by (simp add: words_ok_def)
qed

text \<open>The test of the number of arguments, as far as the label \<open>invalid\<close>.\<close>

definition args_valid :: "u64 \<Rightarrow> u64 \<Rightarrow> bool" where
  "args_valid type nelts \<longleftrightarrow>
     (if type AND CW_CONF_ANY = 0
      then if type AND CW_CONF_FLAG \<noteq> 0 then nelts = 2
           else if type AND CW_CONF_1MORE \<noteq> 0 then \<not> nelts < 2
           else if type AND CW_CONF_2MORE \<noteq> 0 then \<not> nelts < 3
           else if nelts > CW_CONF_MAX_ARGS then False
           else type AND (argument_number ! unat (nelts - 1)) \<noteq> 0
      else True)"

text \<open>The directive's configuration context.\<close>

definition conf_context :: "cw_conf \<Rightarrow> cw_module \<Rightarrow> cw_command \<Rightarrow> addr" where
  "conf_context cf m cmd =
     (if cmd_type cmd AND CW_DIRECT_CONF \<noteq> 0 then c_ptrs cf (c_ctx cf + 8 * m_index m)
      else if cmd_type cmd AND CW_MAIN_CONF \<noteq> 0 then c_ctx cf + 8 * m_index m
      else if c_ctx cf \<noteq> 0
      then let confp = c_ptrs cf (c_ctx cf + cmd_conf cmd)
           in if confp \<noteq> 0 then c_ptrs cf (confp + 8 * m_ctx_index m) else 0
      else 0)"

definition run_command :: "cw_conf \<Rightarrow> int \<Rightarrow> cw_module \<Rightarrow> cw_command \<Rightarrow> int \<times> cw_conf" where
  "run_command cf lst m cmd =
     (let name = directive_name cf; type = cmd_type cmd
      in if type AND CW_CONF_BLOCK = 0 \<and> lst \<noteq> CW_OK then (CW_ERROR, logged (NotTerminated name) cf)
         else if type AND CW_CONF_BLOCK \<noteq> 0 \<and> lst \<noteq> CW_CONF_BLOCK_START
         then (CW_ERROR, logged (NoOpening name) cf)
         else if \<not> args_valid type (a_nelts (c_args cf)) then (CW_ERROR, logged (InvalidArgs name) cf)
         else let (cf1, rv) = cmd_set cmd cf (conf_context cf m cmd)
              in case rv of
                   ConfOk \<Rightarrow> (CW_OK, cf1)
                 | ConfError \<Rightarrow> (CW_ERROR, cf1)
                 | ConfMsg msg \<Rightarrow> (CW_ERROR, logged (DirectiveMsg name msg) cf1))"

text \<open>
  The loops over the modules and their commands: \<open>Inl found\<close> when they run out,
  \<open>Inr\<close> the result when a command was chosen.
\<close>

fun try_commands :: "cw_conf \<Rightarrow> int \<Rightarrow> cw_module \<Rightarrow> cw_command list \<Rightarrow> bool \<Rightarrow> bool + int \<times> cw_conf" where
  "try_commands cf lst m [] found = Inl found"
| "try_commands cf lst m (cmd # cmds) found =
     (if length (directive_name cf) \<noteq> length (cmd_name cmd) then try_commands cf lst m cmds found
      else if \<not> cw_strcmp_eq (directive_name cf) (cmd_name cmd) then try_commands cf lst m cmds found
      else if m_type m \<noteq> CW_CONF_MODULE \<and> m_type m \<noteq> c_module_type cf then try_commands cf lst m cmds True
      else if cmd_type cmd AND c_cmd_type cf = 0 then try_commands cf lst m cmds True
      else Inr (run_command cf lst m cmd))"

fun try_modules :: "cw_conf \<Rightarrow> int \<Rightarrow> cw_module list \<Rightarrow> bool \<Rightarrow> bool + int \<times> cw_conf" where
  "try_modules cf lst [] found = Inl found"
| "try_modules cf lst (m # ms) found =
     (case try_commands cf lst m (m_commands m) found of
        Inl found1 \<Rightarrow> try_modules cf lst ms found1
      | Inr r \<Rightarrow> Inr r)"

definition cw_conf_handler :: "cw_module list \<Rightarrow> cw_conf \<Rightarrow> int \<Rightarrow> int \<times> cw_conf" where
  "cw_conf_handler mods cf lst =
     (case try_modules cf lst mods False of
        Inr r \<Rightarrow> r
      | Inl found \<Rightarrow>
          if found then (CW_ERROR, logged (NotAllowed (directive_name cf)) cf)
          else (CW_ERROR, logged (UnknownDirective (directive_name cf)) cf))"

section \<open>\<open>cw_conf_parse\<close>\<close>

datatype parse_type = ParseFile | ParseBlock | ParseParam

text \<open>
  \<open>hnd\<close> is the custom handler \<open>cf->handler\<close>, \<open>None\<close> for NULL.  The loop is left with
  the value \<open>rc\<close> has at the label \<open>done\<close>.
\<close>

partial_function (option) parse_loop ::
    "cw_module list \<Rightarrow> (cw_conf \<Rightarrow> cw_conf \<times> conf_rv) option \<Rightarrow> parse_type \<Rightarrow> cw_conf \<Rightarrow> (int \<times> cw_conf) option" where
  "parse_loop mods hnd type cf =
     (case cw_conf_read_token cf of
        None \<Rightarrow> None
      | Some (rc, cf1) \<Rightarrow>
          if rc = CW_ERROR then Some (rc, cf1)
          else if rc = CW_CONF_BLOCK_DONE
          then if type \<noteq> ParseBlock then Some (CW_ERROR, logged (UnexpectedChar 125) cf1)
               else Some (rc, cf1)
          else if rc = CW_CONF_FILE_DONE
          then if type = ParseBlock then Some (CW_ERROR, logged UnexpectedEndOfBlock cf1)
               else Some (rc, cf1)
          else if rc = CW_CONF_BLOCK_START \<and> type = ParseParam
          then Some (CW_ERROR, logged BlockInParam cf1)
          else (case hnd of
                  Some handler \<Rightarrow>
                    if rc = CW_CONF_BLOCK_START then Some (CW_ERROR, logged (UnexpectedChar 123) cf1)
                    else (case handler cf1 of
                            (cf2, ConfOk) \<Rightarrow> parse_loop mods hnd type cf2
                          | (cf2, ConfError) \<Rightarrow> Some (CW_ERROR, cf2)
                          | (cf2, ConfMsg msg) \<Rightarrow> Some (CW_ERROR, logged (HandlerMsg msg) cf2))
                | None \<Rightarrow>
                    (case cw_conf_handler mods cf1 rc of
                       (rc1, cf2) \<Rightarrow> if rc1 = CW_ERROR then Some (CW_ERROR, cf2)
                                     else parse_loop mods hnd type cf2)))"

definition conf_return :: "int \<Rightarrow> conf_rv" where
  "conf_return rc = (if rc = CW_ERROR then ConfError else ConfOk)"

text \<open>
  The code under \<open>if (filename)\<close> before the loop.  \<open>conf_file\<close> is a local variable:
  \<open>junk\<close> is what it holds before the assignments.  When \<open>fstat\<close> fails the code goes
  on, and the size is the one in \<open>junk\<close>.  \<open>dumping\<close> stands for
  \<open>cw_dump_config || CW_DEBUG\<close>, where \<open>dump\<close> is not assigned.
\<close>

definition new_conf_file :: "bool \<Rightarrow> cw_conf_file \<Rightarrow> int \<Rightarrow> u8 list \<Rightarrow> int option \<Rightarrow> heap \<Rightarrow> addr \<Rightarrow> cw_conf_file" where
  "new_conf_file dumping junk fd name info h start =
     \<lparr>cf_file = (cf_file junk)\<lparr>f_fd := fd, f_name := name, f_offset := 0,
        f_size := (case info of Some sz \<Rightarrow> sz | None \<Rightarrow> f_size (cf_file junk))\<rparr>,
      cf_buffer = \<lparr>bf_start = start, bf_mem = (\<lambda>i. h_mem h (start + of_nat i)), bf_pos = 0, bf_last = 0,
        bf_end = CW_CONF_BUFFER\<rparr>,
      cf_dump = (if dumping then cf_dump junk else 0),
      cf_line = 1\<rparr>"

text \<open>
  The code from the opening of the file to the loop: \<open>None\<close> when the file cannot be opened,
  otherwise the descriptor and the address of the buffer, which may be NULL.
\<close>

definition parse_open :: "bool \<Rightarrow> cw_conf_file \<Rightarrow> cw_conf \<Rightarrow> u8 list \<Rightarrow> cw_conf \<times> (int \<times> addr) option" where
  "parse_open dumping junk cf name =
     (let (s1, fd) = cw_open_file (c_sys cf) name;
          cf1 = cf\<lparr>c_sys := s1\<rparr>
      in if fd = CW_INVALID_FILE then (logged (OpenFailed name) cf1, None)
         else let (s2, info) = cw_fd_info s1 fd;
                  cf2 = (if info = None then logged (InfoFailed name) (cf1\<lparr>c_sys := s2\<rparr>) else cf1\<lparr>c_sys := s2\<rparr>);
                  (h3, start) = cw_alloc (c_heap cf2) (of_nat CW_CONF_BUFFER)
              in (cf2\<lparr>c_heap := h3, c_file := Some (new_conf_file dumping junk fd name info h3 start)\<rparr>,
                  Some (fd, start)))"

text \<open>The code after the label \<open>done\<close>, for a file.\<close>

definition parse_close :: "int \<Rightarrow> u8 list \<Rightarrow> addr \<Rightarrow> cw_conf_file option \<Rightarrow> int \<Rightarrow> cw_conf \<Rightarrow> int \<times> cw_conf" where
  "parse_close fd name start prev rc cf =
     (let cf1 = (if start \<noteq> 0 then cf\<lparr>c_heap := cw_free (c_heap cf) start\<rparr> else cf);
          (s, r) = cw_close_file (c_sys cf1) fd;
          cf2 = cf1\<lparr>c_sys := s\<rparr>
      in if r = CW_FILE_ERROR then (CW_ERROR, (logged (CloseFailed name) cf2)\<lparr>c_file := prev\<rparr>)
         else (rc, cf2\<lparr>c_file := prev\<rparr>))"

definition cw_conf_parse ::
    "cw_module list \<Rightarrow> bool \<Rightarrow> cw_conf_file \<Rightarrow> (cw_conf \<Rightarrow> cw_conf \<times> conf_rv) option \<Rightarrow> cw_conf \<Rightarrow> u8 list option
     \<Rightarrow> (conf_rv \<times> cw_conf) option" where
  "cw_conf_parse mods dumping junk hnd cf filename =
     (case filename of
        Some name \<Rightarrow>
          (case parse_open dumping junk cf name of
             (cf1, None) \<Rightarrow> Some (ConfError, cf1)
           | (cf1, Some (fd, start)) \<Rightarrow>
               let prev = c_file cf;
                   close = (\<lambda>(rc, cf2). case parse_close fd name start prev rc cf2 of (rc, cf3) \<Rightarrow> (conf_return rc, cf3))
               in if start = 0 then Some (close (CW_ERROR, cf1))
                  else map_option close (parse_loop mods hnd ParseFile cf1))
      | None \<Rightarrow>
          map_option (\<lambda>(rc, cf1). (conf_return rc, cf1))
            (parse_loop mods hnd
               (if f_fd (cf_file (the (c_file cf))) \<noteq> CW_INVALID_FILE then ParseBlock else ParseParam) cf))"

section \<open>\<open>cw_conf_param\<close>\<close>

text \<open>The directives of the \<open>-g\<close> option: the buffer is the string itself, and no file.\<close>

definition param_file :: "cw_str \<Rightarrow> cw_conf_file" where
  "param_file param =
     \<lparr>cf_file = \<lparr>f_fd = CW_INVALID_FILE, f_name = [], f_size = 0, f_offset = 0, f_sys_offset = 0\<rparr>,
      cf_buffer = \<lparr>bf_start = s_data param, bf_mem = (\<lambda>i. if i < length (s_bytes param) then s_bytes param ! i else 0),
        bf_pos = 0, bf_last = length (s_bytes param), bf_end = length (s_bytes param)\<rparr>,
      cf_dump = 0, cf_line = 0\<rparr>"

definition cw_conf_param ::
    "cw_module list \<Rightarrow> bool \<Rightarrow> cw_conf_file \<Rightarrow> (cw_conf \<Rightarrow> cw_conf \<times> conf_rv) option \<Rightarrow> cw_conf
     \<Rightarrow> (conf_rv \<times> cw_conf) option" where
  "cw_conf_param mods dumping junk hnd cf =
     (if length (s_bytes (c_param cf)) = 0 then Some (ConfOk, cf)
      else map_option (\<lambda>(rv, cf1). (rv, cf1\<lparr>c_file := None\<rparr>))
             (cw_conf_parse mods dumping junk hnd
                (cf\<lparr>c_file := Some (param_file (c_param cf))\<rparr>) None))"

end
