(* ===== verification/Conf_Lookup.thy ===== *)
theory Conf_Lookup
  imports Conf_Parse
begin

text \<open>
  \<open>cw_conf_handler\<close> as a lookup in the list of all directives, and the test of the number
  of arguments as a test of one bit.
\<close>

section \<open>Looking a directive up\<close>

lemma cstr_id: "0 \<notin> set s \<Longrightarrow> cstr s = s"
  by (induction s) (auto simp: cstr_def)

lemma cstr_length: "length (cstr s) \<le> length s"
  by (simp add: cstr_def length_takeWhile_le)

text \<open>With the test on the length, \<open>strcmp\<close> compares the whole names.\<close>

lemma same_name:
  assumes "0 \<notin> set t"
  shows "length s = length t \<and> cw_strcmp_eq s t \<longleftrightarrow> s = t"
proof
  assume a: "length s = length t \<and> cw_strcmp_eq s t"
  then have c: "cstr s = t" using cstr_id [OF assms] by (simp add: cw_strcmp_eq_def)
  then have "takeWhile (\<lambda>c. c \<noteq> 0) s = s"
    using a by (metis cstr_def length_takeWhile_le takeWhile_eq_take take_all_iff order_refl)
  then show "s = t" using c by (simp only: cstr_def)
qed (simp add: cw_strcmp_eq_def)

section \<open>The directives of a name\<close>

definition named :: "cw_conf \<Rightarrow> cw_module list \<Rightarrow> (cw_module \<times> cw_command) list" where
  "named cf mods =
     concat (map (\<lambda>m. map (Pair m) (filter (\<lambda>c. cmd_name c = directive_name cf) (m_commands m))) mods)"

text \<open>The directive may stand where it does.\<close>

definition placed :: "cw_conf \<Rightarrow> cw_module \<times> cw_command \<Rightarrow> bool" where
  "placed cf mc \<longleftrightarrow>
     (m_type (fst mc) = CW_CONF_MODULE \<or> m_type (fst mc) = c_module_type cf) \<and>
     cmd_type (snd mc) AND c_cmd_type cf \<noteq> 0"

definition clean_names :: "cw_module list \<Rightarrow> bool" where
  "clean_names mods \<longleftrightarrow> (\<forall>m\<in>set mods. \<forall>c\<in>set (m_commands m). 0 \<notin> set (cmd_name c))"

definition lookup_result ::
    "cw_conf \<Rightarrow> int \<Rightarrow> (cw_module \<times> cw_command) list \<Rightarrow> bool \<Rightarrow> bool + int \<times> cw_conf" where
  "lookup_result cf lst cs found =
     (case find (placed cf) cs of
        Some (m, c) \<Rightarrow> Inr (run_command cf lst m c)
      | None \<Rightarrow> Inl (found \<or> cs \<noteq> []))"

lemma lookup_result_simps:
  "lookup_result cf lst [] found = Inl found"
  "lookup_result cf lst (x # cs) found =
     (if placed cf x then Inr (run_command cf lst (fst x) (snd x)) else lookup_result cf lst cs True)"
  by (auto simp: lookup_result_def split: option.splits prod.splits)

lemma lookup_result_append:
  "lookup_result cf lst (xs @ ys) found =
     (case lookup_result cf lst xs found of Inl b \<Rightarrow> lookup_result cf lst ys b | Inr r \<Rightarrow> Inr r)"
  by (induction xs arbitrary: found) (simp_all add: lookup_result_simps)

lemma try_commands_lookup:
  assumes "\<forall>c\<in>set cmds. 0 \<notin> set (cmd_name c)"
  shows "try_commands cf lst m cmds found =
    lookup_result cf lst (map (Pair m) (filter (\<lambda>c. cmd_name c = directive_name cf) cmds)) found"
  using assms
proof (induction cmds arbitrary: found)
  case (Cons c cmds)
  have n: "length (directive_name cf) = length (cmd_name c) \<and> cw_strcmp_eq (directive_name cf) (cmd_name c) \<longleftrightarrow>
      cmd_name c = directive_name cf"
    using same_name [of "cmd_name c" "directive_name cf"] Cons.prems by auto
  show ?case
  proof (cases "cmd_name c = directive_name cf")
    case True
    then show ?thesis using n Cons.IH Cons.prems by (auto simp: lookup_result_simps placed_def)
  next
    case False
    then show ?thesis using n Cons.IH Cons.prems by (auto simp: lookup_result_simps)
  qed
qed (simp add: lookup_result_simps)

lemma try_modules_lookup:
  "clean_names mods \<Longrightarrow> try_modules cf lst mods found = lookup_result cf lst (named cf mods) found"
proof (induction mods arbitrary: found)
  case (Cons m mods)
  then have c: "\<forall>c\<in>set (m_commands m). 0 \<notin> set (cmd_name c)" "clean_names mods" by (simp_all add: clean_names_def)
  show ?case
    using Cons.IH [OF c(2)]
    by (simp add: try_commands_lookup [OF c(1)] named_def lookup_result_append split: sum.splits)
qed (simp add: named_def lookup_result_simps)

lemma handler_lookup:
  assumes "clean_names mods"
  shows "cw_conf_handler mods cf lst =
    (case find (placed cf) (named cf mods) of
       Some (m, c) \<Rightarrow> run_command cf lst m c
     | None \<Rightarrow>
         (CW_ERROR, logged (if named cf mods = [] then UnknownDirective (directive_name cf)
            else NotAllowed (directive_name cf)) cf))"
  by (auto simp: cw_conf_handler_def try_modules_lookup [OF assms] lookup_result_def split: option.splits)

section \<open>The number of arguments\<close>

lemma argument_number_bit: "i < 8 \<Longrightarrow> argument_number ! i = 2 ^ i"
proof -
  assume "i < 8"
  then have "i \<in> {0, 1, 2, 3, 4, 5, 6, 7}" by auto
  then show ?thesis by (auto simp: argument_number_def conf_bits)
qed

lemma and_power_bit: "w AND 2 ^ i \<noteq> 0 \<longleftrightarrow> bit (w :: u64) i" if "i < 64"
  using that by (simp add: and_exp_eq_0_iff_not_bit)

lemma args_valid_bit:
  assumes n: "n \<noteq> 0" and t: "type AND (CW_CONF_ANY OR CW_CONF_FLAG OR CW_CONF_1MORE OR CW_CONF_2MORE) = 0"
  shows "args_valid type n \<longleftrightarrow> n \<le> CW_CONF_MAX_ARGS \<and> bit type (unat n - 1)"
proof -
  have no: "type AND CW_CONF_ANY = 0" "type AND CW_CONF_FLAG = 0" "type AND CW_CONF_1MORE = 0" "type AND CW_CONF_2MORE = 0"
    using t by (simp_all add: bit.conj_disj_distrib or_eq_0_iff)
  have u: "0 < unat n" using n by (simp add: unat_gt_0)
  show ?thesis
  proof (cases "n \<le> CW_CONF_MAX_ARGS")
    case True
    then have "\<not> CW_CONF_MAX_ARGS < n" by (simp add: not_less)
    from True have "unat n \<le> 8" by (simp add: word_le_nat_alt CW_CONF_MAX_ARGS_def)
    moreover have "unat (n - 1) = unat n - 1" using n by (simp add: unat_minus_one)
    ultimately show ?thesis
      using u True no and_power_bit [of "unat n - 1" type]
      by (simp add: args_valid_def argument_number_bit \<open>\<not> CW_CONF_MAX_ARGS < n\<close>)
  next
    case False
    then show ?thesis using no by (simp add: args_valid_def not_le)
  qed
qed

end
