(* ===== verification/Conf_Run.thy ===== *)
theory Conf_Run
  imports Conf_Parse
begin

text \<open>
  Running a configuration: the interface \<open>directive_table\<close> states what the parser relies on
  from the directives of its modules, and its lemmas show that the parser returns and gives
  back everything it took for reading.
\<close>

section \<open>What the parser relies on from a directive\<close>

text \<open>
  \<open>keeps rs cf cf'\<close>: the arguments, the file being read and the descriptors are as
  before, and only the pool took memory.
\<close>

definition keeps :: "region list \<Rightarrow> cw_conf \<Rightarrow> cw_conf \<Rightarrow> bool" where
  "keeps rs cf cf' \<longleftrightarrow> args_ok rs cf' \<and> c_file cf' = c_file cf \<and> steady cf cf'"

locale directive_table =
  fixes mods :: "cw_module list" and ready :: "cw_conf \<Rightarrow> bool" and rs :: "region list"
  assumes set_keeps:
      "m \<in> set mods \<Longrightarrow> cmd \<in> set (m_commands m) \<Longrightarrow> args_ok rs cf \<Longrightarrow> words_ok cf \<Longrightarrow> c_words cf \<noteq> [] \<Longrightarrow>
       ready cf \<Longrightarrow> args_valid (cmd_type cmd) (a_nelts (c_args cf)) \<Longrightarrow>
       cmd_set cmd cf (conf_context cf m cmd) = (cf', rv) \<Longrightarrow> keeps rs cf cf' \<and> ready cf'"
    and ready_same: "same_conf cf cf1 \<Longrightarrow> ready cf \<Longrightarrow> ready cf1"
begin

lemma ready_logged: "ready cf \<Longrightarrow> ready (logged m cf)"
  by (rule ready_same) (simp_all add: same_conf_def)

lemma keeps_logged: "keeps rs cf cf' \<Longrightarrow> keeps rs cf (logged m cf')"
  by (simp add: keeps_def steady_def)

lemma keeps_refl: "args_ok rs cf \<Longrightarrow> keeps rs cf cf"
  by (simp add: keeps_def)

lemma run_command_keeps:
  assumes "m \<in> set mods" "cmd \<in> set (m_commands m)" "args_ok rs cf" "words_ok cf" "c_words cf \<noteq> []" "ready cf"
    and "run_command cf lst m cmd = (rc, cf')"
  shows "keeps rs cf cf' \<and> ready cf'"
  using assms(7) set_keeps [OF assms(1-6)] keeps_refl [OF assms(3)] assms(6)
  by (auto simp: run_command_def Let_def keeps_logged ready_logged split: if_splits prod.splits conf_rv.splits)

lemma try_commands_keeps:
  assumes "m \<in> set mods" "set cmds \<subseteq> set (m_commands m)" "args_ok rs cf" "words_ok cf" "c_words cf \<noteq> []" "ready cf"
    and "try_commands cf lst m cmds found = Inr (rc, cf')"
  shows "keeps rs cf cf' \<and> ready cf'"
  using assms(2,7)
proof (induction cmds arbitrary: found)
  case (Cons cmd cmds)
  then show ?case using run_command_keeps [OF assms(1) _ assms(3-6), of cmd lst rc cf'] by (auto split: if_splits)
qed simp

lemma try_modules_keeps:
  assumes "set ms \<subseteq> set mods" "args_ok rs cf" "words_ok cf" "c_words cf \<noteq> []" "ready cf"
    and "try_modules cf lst ms found = Inr (rc, cf')"
  shows "keeps rs cf cf' \<and> ready cf'"
  using assms(1,6)
proof (induction ms arbitrary: found)
  case (Cons m ms)
  then show ?case
    using try_commands_keeps [OF _ order_refl assms(2-5), of m lst found rc cf']
    by (auto split: sum.splits)
qed simp

lemma handler_keeps:
  assumes "args_ok rs cf" "words_ok cf" "c_words cf \<noteq> []" "ready cf" and "cw_conf_handler mods cf lst = (rc, cf')"
  shows "keeps rs cf cf' \<and> ready cf'"
proof (cases "try_modules cf lst mods False")
  case (Inl found)
  then have "\<exists>m. cf' = logged m cf" using assms(5) by (auto simp: cw_conf_handler_def split: if_splits)
  then show ?thesis using keeps_logged [OF keeps_refl [OF assms(1)]] ready_logged [OF assms(4)] by blast
next
  case (Inr r)
  then show ?thesis
    using try_modules_keeps [OF order_refl assms(1-4), of lst False rc cf'] assms(5)
    by (simp add: cw_conf_handler_def)
qed

text \<open>One turn of the loop: it runs the directive, or it stops.\<close>

lemma parse_loop_go:
  assumes "cw_conf_read_token cf = Some (rc, cf1)" "rc = CW_OK \<or> rc = CW_CONF_BLOCK_START \<and> type \<noteq> ParseParam"
    and "cw_conf_handler mods cf1 rc = (rc1, cf2)"
  shows "parse_loop mods None type cf =
    (if rc1 = CW_ERROR then Some (CW_ERROR, cf2) else parse_loop mods None type cf2)"
  using assms by (subst parse_loop.simps) (auto simp: conf_codes)

lemma parse_loop_stop:
  assumes "cw_conf_read_token cf = Some (rc, cf1)" "token_result rc cf1"
    and "\<not> (rc = CW_OK \<or> rc = CW_CONF_BLOCK_START \<and> type \<noteq> ParseParam)"
  shows "\<exists>rc' cf2. parse_loop mods None type cf = Some (rc', cf2) \<and> (cf2 = cf1 \<or> (\<exists>m. cf2 = logged m cf1)) \<and>
    (if rc = CW_CONF_BLOCK_DONE \<and> type = ParseBlock \<or> rc = CW_CONF_FILE_DONE \<and> type \<noteq> ParseBlock
     then rc' = rc \<and> cf2 = cf1 else rc' = CW_ERROR \<and> (rc = CW_ERROR \<longrightarrow> cf2 = cf1))"
proof -
  have "rc \<in> {CW_ERROR, CW_CONF_BLOCK_DONE, CW_CONF_FILE_DONE, CW_CONF_BLOCK_START}"
    using assms(2,3) by (auto simp: token_result_def token_codes_def)
  then show ?thesis using assms(1,3) by (subst parse_loop.simps) (auto simp: conf_codes)
qed

text \<open>One token, seen from the parser.\<close>

lemma token_keeps:
  assumes "args_ok rs cf" "conf_file_ok cf" "ready cf" "cw_conf_read_token cf = Some (rc, cf1)"
  shows "args_ok rs cf1" "conf_file_ok cf1" "ready cf1" "steady cf cf1" "token_result rc cf1"
    "rc \<noteq> CW_ERROR \<Longrightarrow> words_ok cf1"
    "consumes rc \<Longrightarrow> left_in (the (c_file cf1)) < left_in (the (c_file cf))"
proof -
  obtain f where f: "c_file cf = Some f" "file_ok f" "cf_dump f = 0" using assms(2) by (auto simp: conf_file_ok_def)
  note r = read_token_result [OF assms(1,2,4)]
  note w = read_token_world [OF assms(1) f assms(4)]
  show "args_ok rs cf1" "conf_file_ok cf1" "token_result rc cf1" using r by simp_all
  show "rc \<noteq> CW_ERROR \<Longrightarrow> words_ok cf1" by (rule read_token_words [OF assms(1,2,4)])
  show "steady cf cf1" "ready cf1" using w(1) ready_same assms(3) by (auto simp: untouched_def)
  show "left_in (the (c_file cf1)) < left_in (the (c_file cf))" if "consumes rc" using w(2) that f(1) by auto
qed

text \<open>
  The loop with no custom handler: it returns, and what it kept is what the caller gets.
\<close>

lemma parse_loop_ends:
  assumes "args_ok rs cf" "conf_file_ok cf" "ready cf"
  shows "\<exists>rc cf'. parse_loop mods None type cf = Some (rc, cf') \<and> args_ok rs cf' \<and> conf_file_ok cf' \<and>
    steady cf cf' \<and> ready cf'"
  using assms
proof (induction "left_in (the (c_file cf))" arbitrary: cf rule: less_induct)
  case less
  obtain rc cf1 where t: "cw_conf_read_token cf = Some (rc, cf1)" using read_token_ends [OF less.prems(2)] by blast
  note T = token_keeps [OF less.prems t]
  have stop: "args_ok rs (logged m cf1) \<and> conf_file_ok (logged m cf1) \<and> steady cf (logged m cf1) \<and> ready (logged m cf1)" for m
    using T ready_logged by (simp add: conf_file_ok_def steady_def)
  show ?case
  proof (cases "rc = CW_OK \<or> rc = CW_CONF_BLOCK_START \<and> type \<noteq> ParseParam")
    case True
    then have c: "consumes rc" "words_ok cf1" "c_words cf1 \<noteq> []"
      using T(5,6) by (auto simp: consumes_def token_result_def conf_codes)
    obtain rc1 cf2 where h: "cw_conf_handler mods cf1 rc = (rc1, cf2)" by fastforce
    note H = handler_keeps [OF T(1) c(2,3) T(3) h]
    have f2: "c_file cf2 = c_file cf1" "args_ok rs cf2" "conf_file_ok cf2" "steady cf cf2" "ready cf2"
      using H T(2,4) steady_trans by (auto simp: keeps_def conf_file_ok_def)
    note unf = parse_loop_go [OF t True h]
    show ?thesis
    proof (cases "rc1 = CW_ERROR")
      case True
      then show ?thesis unfolding unf using f2 by simp
    next
      case False
      have "left_in (the (c_file cf2)) < left_in (the (c_file cf))" using T(7) [OF c(1)] f2(1) by simp
      then show ?thesis unfolding unf using less.hyps f2 False steady_trans by (metis (full_types))
    qed
  next
    case False
    obtain rc' cf2 where "cf2 = cf1 \<or> (\<exists>m. cf2 = logged m cf1)" "parse_loop mods None type cf = Some (rc', cf2)"
      using parse_loop_stop [OF t T(5) False] by blast
    then show ?thesis using T(1-4) stop by blast
  qed
qed

end

section \<open>Freeing what is not the pool's\<close>

lemma others_live: "r \<in> set (others h p) \<Longrightarrow> r \<in> set (h_live h) \<and> fst r \<notin> set (pool_addrs p)"
  by (auto simp: others_def)

lemma pool_inv_free_other:
  assumes inv: "pool_inv h p rs" and l: "(a, n) \<in> set (h_live h)" and o: "a \<notin> set (pool_addrs p)"
  shows "pool_inv (cw_free h a) p rs"
proof -
  note D = pool_invD [OF inv]
  note F = cw_free_live [OF D(1) l]
  have keep: "r \<in> set (h_live (cw_free h a)) \<longleftrightarrow> r \<in> set (h_live h) \<and> fst r \<noteq> a" for r unfolding F(1) by auto
  have "owns (cw_free h a) p"
  proof -
    have "b_addr b \<noteq> a" if "b \<in> set (p_blocks p)" for b using o that by (auto simp: pool_addrs_def)
    moreover have "set (large_addrs p) \<subseteq> fst ` set (h_live (cw_free h a))"
    proof
      fix x
      assume x: "x \<in> set (large_addrs p)"
      then have "x \<noteq> a" using o by (auto simp: pool_addrs_def)
      moreover have "x \<in> fst ` set (h_live h)" using D(3) x by (auto simp: owns_def)
      ultimately show "x \<in> fst ` set (h_live (cw_free h a))" using keep by force
    qed
    ultimately show ?thesis using D(3) keep by (simp add: owns_def)
  qed
  moreover have "in_large h p r \<Longrightarrow> in_large (cw_free h a) p r" for r
    using o keep unfolding in_large_def pool_addrs_def by fastforce
  ultimately show ?thesis using inv F(2) unfolding pool_inv_def by blast
qed

lemma args_ok_free:
  assumes "args_ok rs cf" and "(a, n) \<in> set (others (c_heap cf) (c_pool cf))"
  shows "args_ok rs (cf\<lparr>c_heap := cw_free (c_heap cf) a\<rparr>)"
proof -
  obtain rs' where r: "array_inv (c_heap cf) (c_pool cf) (c_args cf) rs'" "set rs \<subseteq> set rs'"
    "\<forall>w\<in>set (c_words cf). word_in rs' w"
    using assms(1) by (auto simp: args_ok_def)
  have "pool_inv (cw_free (c_heap cf) a) (c_pool cf) (arr_region (c_args cf) # rs')"
    by (rule pool_inv_free_other [of _ _ _ a n]) (use r others_live [OF assms(2)] in \<open>simp_all add: array_inv_def\<close>)
  then show ?thesis unfolding args_ok_def using r assms(1) by (intro conjI exI [of _ rs']) (simp_all add: array_inv_def args_ok_def)
qed

lemma others_free:
  assumes ok: "heap_ok h" and o: "others h p = (a, n) # os"
  shows "others (cw_free h a) p = os"
proof -
  have l: "(a, n) \<in> set (h_live h)" using others_live [of "(a, n)" h p] o by simp
  have "distinct (map fst (others h p))"
    using ok by (simp add: heap_ok_def others_def distinct_map_filter)
  then have "a \<notin> fst ` set os" using o by simp
  have "others (cw_free h a) p = filter (\<lambda>r. fst r \<noteq> a) (others h p)"
    unfolding others_def cw_free_live(1) [OF ok l] by (simp add: conj_commute)
  also have "\<dots> = os" using \<open>a \<notin> fst ` set os\<close> unfolding o by (auto intro: filter_True)
  finally show ?thesis .
qed

section \<open>Parsing a file\<close>

lemma args_ok_sys: "args_ok rs (cf\<lparr>c_sys := s\<rparr>) = args_ok rs cf" "args_ok rs (cf\<lparr>c_file := f\<rparr>) = args_ok rs cf"
  by (simp_all add: args_ok_def)

lemma args_ok_heap_ok: "args_ok rs cf \<Longrightarrow> heap_ok (c_heap cf)"
  by (auto simp: args_ok_def array_inv_def pool_inv_def)

text \<open>The read buffer: a region of the C library's that is not the pool's.\<close>

lemma alloc_buffer:
  assumes ok: "args_ok rs cf" and c: "cw_alloc (c_heap cf) n = (h, a)"
  shows "args_ok rs (cf\<lparr>c_heap := h\<rparr>)"
    and "others h (c_pool cf) = (if a = 0 then [] else [(a, n)]) @ others (c_heap cf) (c_pool cf)"
proof -
  have hok: "heap_ok (c_heap cf)" by (rule args_ok_heap_ok [OF ok])
  have r: "libc_request (c_heap cf) MAX_ALIGN n = (h, a)" using c by (simp add: cw_alloc_def)
  have hok': "heap_ok h" by (rule libc_request_ok [OF hok r])
  have live: "h_live h = (if a = 0 then [] else [(a, n)]) @ h_live (c_heap cf)"
    using libc_request_granted(1) [OF hok r] libc_request_refused [of "c_heap cf" MAX_ALIGN n h] r by auto
  obtain rs' where r': "array_inv (c_heap cf) (c_pool cf) (c_args cf) rs'" "set rs \<subseteq> set rs'"
    "\<forall>w\<in>set (c_words cf). word_in rs' w"
    using ok by (auto simp: args_ok_def)
  have "pool_inv h (c_pool cf) (arr_region (c_args cf) # rs')"
    by (rule pool_inv_more_heap [OF _ hok']) (use r'(1) live in \<open>auto simp: array_inv_def\<close>)
  then show "args_ok rs (cf\<lparr>c_heap := h\<rparr>)"
    unfolding args_ok_def using r' ok by (intro conjI exI [of _ rs']) (simp_all add: array_inv_def args_ok_def)
  have "a \<notin> set (pool_addrs (c_pool cf))" if "a \<noteq> 0"
  proof -
    have "a \<notin> fst ` set (h_live (c_heap cf))"
      using libc_request_granted(2) [OF hok r that] by (auto simp: fits_def)
    moreover have "set (pool_addrs (c_pool cf)) \<subseteq> fst ` set (h_live (c_heap cf))"
      using owned_live pool_invD(3) [of "c_heap cf" "c_pool cf"] r'(1) by (auto simp: array_inv_def)
    ultimately show ?thesis by blast
  qed
  then show "others h (c_pool cf) = (if a = 0 then [] else [(a, n)]) @ others (c_heap cf) (c_pool cf)"
    by (simp add: others_def live)
qed

text \<open>
  \<open>released cf cf'\<close>: what \<open>cw_conf_parse\<close> owes its caller: no descriptor and no memory
  is left over, and \<open>cf->conf_file\<close> is the caller's again.
\<close>

definition released :: "region list \<Rightarrow> cw_conf \<Rightarrow> cw_conf \<Rightarrow> bool" where
  "released rs cf cf' \<longleftrightarrow>
     sy_fds (c_sys cf') = sy_fds (c_sys cf) \<and>
     others (c_heap cf') (c_pool cf') = others (c_heap cf) (c_pool cf) \<and>
     c_file cf' = c_file cf \<and> args_ok rs cf'"

lemma parse_close_releases:
  assumes ok: "args_ok rs cf4" and fds: "sy_fds (c_sys cf4) = fd # sy_fds (c_sys cf)"
    and o: "others (c_heap cf4) (c_pool cf4) =
      (if start = 0 then [] else [(start, n)]) @ others (c_heap cf) (c_pool cf)"
    and c: "parse_close fd name start (c_file cf) rc cf4 = (rc', cf')"
  shows "released rs cf cf'" and "rc' = rc \<or> rc' = CW_ERROR"
    and "c_ptrs cf' = c_ptrs cf4" and "c_core cf' = c_core cf4" and "c_ctx cf' = c_ctx cf4"
proof -
  define cf5 where "cf5 = (if start \<noteq> 0 then cf4\<lparr>c_heap := cw_free (c_heap cf4) start\<rparr> else cf4)"
  have hok: "heap_ok (c_heap cf4)" by (rule args_ok_heap_ok [OF ok])
  have a5: "args_ok rs cf5"
    using ok args_ok_free [OF ok, of start n] o by (auto simp: cf5_def)
  have o5: "others (c_heap cf5) (c_pool cf5) = others (c_heap cf) (c_pool cf)"
    using others_free [OF hok, of "c_pool cf4" start n] o by (simp add: cf5_def)
  have s5: "c_sys cf5 = c_sys cf4" "c_ptrs cf5 = c_ptrs cf4" "c_core cf5 = c_core cf4" "c_ctx cf5 = c_ctx cf4"
    by (simp_all add: cf5_def)
  obtain s r where cl: "cw_close_file (c_sys cf5) fd = (s, r)" by fastforce
  then have "sy_fds s = sy_fds (c_sys cf)" using fds s5 by (auto simp: cw_close_file_def Let_def)
  then show "released rs cf cf'" and "rc' = rc \<or> rc' = CW_ERROR"
    and "c_ptrs cf' = c_ptrs cf4" and "c_core cf' = c_core cf4" and "c_ctx cf' = c_ctx cf4"
    using c cl a5 o5 s5 unfolding parse_close_def cf5_def [symmetric]
    by (auto simp: released_def args_ok_sys Let_def split: if_splits)
qed

text \<open>
  \<open>opened rs cf fd start cf1\<close>: the state in which the loop starts, when the file has been
  opened: one descriptor and one region more than the caller has, and the file to be read.
\<close>

definition opened :: "region list \<Rightarrow> cw_conf \<Rightarrow> int \<Rightarrow> addr \<Rightarrow> cw_conf \<Rightarrow> bool" where
  "opened rs cf fd start cf1 \<longleftrightarrow>
     args_ok rs cf1 \<and> conf_file_ok cf1 \<and> same_conf cf cf1 \<and>
     sy_fds (c_sys cf1) = fd # sy_fds (c_sys cf) \<and>
     others (c_heap cf1) (c_pool cf1) =
       (if start = 0 then [] else [(start, of_nat CW_CONF_BUFFER)]) @ others (c_heap cf) (c_pool cf)"

lemma parse_open_refused:
  assumes "args_ok rs cf" "parse_open dumping junk cf name = (cf1, None)"
  shows "released rs cf cf1" "same_conf cf cf1"
  using assms
  by (auto simp: parse_open_def cw_open_file_def released_def args_ok_sys same_conf_def Let_def
      split: if_splits prod.splits)

lemma parse_open_opened:
  assumes ok: "args_ok rs cf" and p: "parse_open False junk cf name = (cf1, Some (fd, start))"
  shows "opened rs cf fd start cf1"
proof -
  obtain s1 s2 info where op: "cw_open_file (c_sys cf) name = (s1, fd)" "cw_fd_info s1 fd = (s2, info)"
    using p by (auto simp: parse_open_def Let_def split: if_splits prod.splits)
  have fd: "fd \<noteq> CW_INVALID_FILE" using p op by (auto simp: parse_open_def)
  define cf2 where "cf2 = (if info = None then logged (InfoFailed name) (cf\<lparr>c_sys := s2\<rparr>) else cf\<lparr>c_sys := s2\<rparr>)"
  have c2: "args_ok rs cf2" "c_heap cf2 = c_heap cf" "c_pool cf2 = c_pool cf" "c_sys cf2 = s2" "same_conf cf cf2"
    using ok by (simp_all add: cf2_def args_ok_sys same_conf_def)
  obtain h3 start' where al': "cw_alloc (c_heap cf2) (of_nat CW_CONF_BUFFER) = (h3, start')" by fastforce
  then have cf1: "cf1 = cf2\<lparr>c_heap := h3, c_file := Some (new_conf_file False junk fd name info h3 start)\<rparr>"
    and al: "cw_alloc (c_heap cf2) (of_nat CW_CONF_BUFFER) = (h3, start)"
    using p op fd by (cases info; simp add: parse_open_def cf2_def Let_def)+
  have "sy_fds s2 = fd # sy_fds (c_sys cf)"
    using op fd by (auto simp: cw_open_file_def cw_fd_info_def Let_def split: if_splits)
  then show ?thesis
    using alloc_buffer [OF c2(1) al] c2(2-5)
    by (simp add: opened_def cf1 args_ok_sys(2) same_conf_def conf_file_ok_def new_conf_file_def file_ok_def
        CW_CONF_BUFFER_def)
qed

text \<open>Whatever ran in between and kept what it was given, closing gives the caller's state back.\<close>

lemma parse_close_opened:
  assumes o: "opened rs cf fd start cf1" and k: "args_ok rs cf2" "steady cf1 cf2"
    and c: "parse_close fd name start (c_file cf) rc cf2 = (rc', cf')"
  shows "released rs cf cf'" "same_conf cf2 cf'" "c_ctx cf' = c_ctx cf"
proof -
  have st: "sy_fds (c_sys cf2) = fd # sy_fds (c_sys cf)" "others (c_heap cf2) (c_pool cf2) =
      (if start = 0 then [] else [(start, of_nat CW_CONF_BUFFER)]) @ others (c_heap cf) (c_pool cf)"
    using o k(2) by (simp_all add: opened_def steady_def)
  show "released rs cf cf'" by (rule parse_close_releases(1) [OF k(1) st c])
  show "same_conf cf2 cf'"
    using c by (auto simp: parse_close_def same_conf_def Let_def split: if_splits prod.splits)
  then show "c_ctx cf' = c_ctx cf" using o k(2) by (simp add: opened_def same_conf_def steady_def)
qed

text \<open>The loop after the opening: without a buffer it does not run.\<close>

definition loop_from :: "cw_module list \<Rightarrow> addr \<Rightarrow> cw_conf \<Rightarrow> (int \<times> cw_conf) option" where
  "loop_from mods start cf = (if start = 0 then Some (CW_ERROR, cf) else parse_loop mods None ParseFile cf)"

lemma parse_opened_eq:
  assumes "parse_open dumping junk cf name = (cf1, Some (fd, start))"
  shows "cw_conf_parse mods dumping junk None cf (Some name) =
    map_option (\<lambda>(rc, cf2). case parse_close fd name start (c_file cf) rc cf2 of (rc, cf3) \<Rightarrow> (conf_return rc, cf3))
      (loop_from mods start cf1)"
  using assms by (simp add: cw_conf_parse_def loop_from_def Let_def)

context directive_table
begin

lemma loop_from_ends:
  assumes "args_ok rs cf" "conf_file_ok cf" "ready cf"
  shows "\<exists>rc cf'. loop_from mods start cf = Some (rc, cf') \<and> args_ok rs cf' \<and> steady cf cf' \<and> ready cf'"
  using parse_loop_ends [OF assms, of ParseFile] assms(1,3) by (auto simp: loop_from_def)

lemma parse_file_ends:
  assumes ok: "args_ok rs cf" and rd: "ready cf"
  shows "\<exists>rv cf'. cw_conf_parse mods False junk None cf (Some name) = Some (rv, cf') \<and> released rs cf cf' \<and>
    ready cf' \<and> rv \<in> {ConfOk, ConfError} \<and> c_ctx cf' = c_ctx cf"
proof (cases "parse_open False junk cf name")
  case (Pair cf1 res)
  show ?thesis
  proof (cases res)
    case None
    then show ?thesis
      using parse_open_refused [OF ok] Pair ready_same [OF _ rd] by (auto simp: cw_conf_parse_def same_conf_def)
  next
    case (Some r)
    obtain fd start where r: "r = (fd, start)" by fastforce
    have p: "parse_open False junk cf name = (cf1, Some (fd, start))" using Pair Some r by simp
    have o: "opened rs cf fd start cf1" by (rule parse_open_opened [OF ok p])
    have o1: "args_ok rs cf1" "conf_file_ok cf1" "ready cf1"
      using o ready_same [OF _ rd] by (simp_all add: opened_def)
    obtain rc cf2 where l: "loop_from mods start cf1 = Some (rc, cf2)" "args_ok rs cf2" "steady cf1 cf2" "ready cf2"
      using loop_from_ends [OF o1] by blast
    obtain rc' cf3 where c: "parse_close fd name start (c_file cf) rc cf2 = (rc', cf3)" by fastforce
    show ?thesis
      using parse_close_opened [OF o l(2,3) c] ready_same [OF _ l(4)] l(1) c
      by (simp add: parse_opened_eq [OF p] conf_return_def)
  qed
qed

text \<open>The \<open>-g\<close> option.\<close>

lemma parse_param_ends:
  assumes ok: "args_ok rs cf" and rd: "ready cf" and len: "length (s_bytes (c_param cf)) < 2 ^ 63"
  shows "\<exists>rv cf'. cw_conf_param mods dumping junk None cf = Some (rv, cf') \<and> args_ok rs cf' \<and>
    steady cf cf' \<and> ready cf' \<and> rv \<in> {ConfOk, ConfError}"
proof (cases "length (s_bytes (c_param cf)) = 0")
  case True
  then show ?thesis using ok rd by (simp add: cw_conf_param_def)
next
  case False
  define cf1 where "cf1 = cf\<lparr>c_file := Some (param_file (c_param cf))\<rparr>"
  have a1: "args_ok rs cf1" using ok by (simp add: cf1_def args_ok_sys)
  have f1: "conf_file_ok cf1" using len by (simp add: cf1_def conf_file_ok_def param_file_def file_ok_def)
  have r1: "ready cf1" by (rule ready_same [OF _ rd]) (simp add: cf1_def same_conf_def)
  obtain rc cf2 where p: "parse_loop mods None ParseParam cf1 = Some (rc, cf2)"
    and p2: "args_ok rs cf2" "steady cf1 cf2" "ready cf2"
    using parse_loop_ends [OF a1 f1 r1] by blast
  have "ready (cf2\<lparr>c_file := None\<rparr>)" by (rule ready_same [OF _ p2(3)]) (simp add: same_conf_def)
  then show ?thesis
    using False p p2 by (simp add: cw_conf_param_def cw_conf_parse_def cf1_def param_file_def args_ok_sys
        steady_def conf_return_def)
qed

end

end
