(* ===== verification/Conf_Language.thy ===== *)
theory Conf_Language
  imports Conf_Run Conf_Calm
begin

text \<open>
  The language of configuration files over a table of directives, and the proof that
  \<open>cw_conf_parse\<close> accepts it: the interface \<open>directive_language\<close> asks that each
  directive acts as a step function on what the configuration means.
\<close>

section \<open>The language\<close>

text \<open>
  \<open>accepts step st s st'\<close>: from the meaning \<open>st\<close> the input \<open>s\<close> is accepted and
  leaves \<open>st'\<close>; \<open>step st rc ws\<close> is what the directive of words \<open>ws\<close>, ended by a
  semicolon or a brace as \<open>rc\<close> tells, makes of \<open>st\<close>.
\<close>

inductive accepts :: "('st \<Rightarrow> int \<Rightarrow> u8 list list \<Rightarrow> 'st option) \<Rightarrow> 'st \<Rightarrow> u8 list \<Rightarrow> 'st \<Rightarrow> bool" for step where
  accepts_end: "scan Gap [] [] s = Tokens CW_CONF_FILE_DONE [] [] \<Longrightarrow> accepts step st s st"
| accepts_directive: "scan Gap [] [] s = Tokens rc ws rest \<Longrightarrow> rc = CW_OK \<or> rc = CW_CONF_BLOCK_START \<Longrightarrow>
    step st rc ws = Some st1 \<Longrightarrow> accepts step st1 rest st' \<Longrightarrow> accepts step st s st'"

inductive_cases accepts_cases: "accepts step st s st'"

text \<open>The first token decides.\<close>

lemma scan_done_empty:
  "scan m acc w s = Tokens rc ws rest \<Longrightarrow> rc = CW_CONF_FILE_DONE \<Longrightarrow> ws = [] \<and> rest = []"
  by (induction m acc w s rule: scan.induct)
    (auto simp: end_code_def conf_codes split: if_splits option.splits)

lemma accepts_broken: "scan Gap [] [] s = Broken \<Longrightarrow> \<not> accepts step st s st'"
  by (auto elim: accepts_cases)

lemma accepts_tokens:
  assumes s: "scan Gap [] [] s = Tokens rc ws rest"
  shows "accepts step st s st' \<longleftrightarrow>
     (if rc = CW_CONF_FILE_DONE then st' = st
      else (rc = CW_OK \<or> rc = CW_CONF_BLOCK_START) \<and>
        (\<exists>st1. step st rc ws = Some st1 \<and> accepts step st1 rest st'))"
    (is "?l \<longleftrightarrow> ?r")
proof
  assume ?l
  then show ?r by (rule accepts_cases) (use s in \<open>auto simp: conf_codes\<close>)
next
  assume r: ?r
  show ?l
  proof (cases "rc = CW_CONF_FILE_DONE")
    case True
    then have "ws = []" "rest = []" using scan_done_empty [OF s True] by simp_all
    then show ?thesis using r s True accepts_end by simp
  next
    case False
    then show ?thesis using r s accepts_directive by metis
  qed
qed

text \<open>A file means one thing.\<close>

lemma accepts_unique: "accepts step st s st1 \<Longrightarrow> accepts step st s st2 \<Longrightarrow> st1 = st2"
proof (induction arbitrary: st2 rule: accepts.induct)
  case (accepts_end s st)
  then show ?case unfolding accepts_tokens [OF accepts_end.hyps(1)] by simp
next
  case (accepts_directive s rc ws rest st st1 st')
  have "rc \<noteq> CW_CONF_FILE_DONE" using accepts_directive.hyps(2) by (auto simp: conf_codes)
  then have "accepts step st1 rest st2"
    using accepts_directive.prems accepts_directive.hyps(3)
    unfolding accepts_tokens [OF accepts_directive.hyps(1)] by simp
  then show ?case by (rule accepts_directive.IH)
qed

text \<open>The language as a function, which evaluates: the meaning of a file, or \<open>None\<close>.\<close>

function meaning :: "('st \<Rightarrow> int \<Rightarrow> u8 list list \<Rightarrow> 'st option) \<Rightarrow> 'st \<Rightarrow> u8 list \<Rightarrow> 'st option" where
  "meaning step st s =
     (case scan Gap [] [] s of
        Broken \<Rightarrow> None
      | Tokens rc ws rest \<Rightarrow>
          if rc = CW_CONF_FILE_DONE then Some st
          else if rc = CW_OK \<or> rc = CW_CONF_BLOCK_START
            then (case step st rc ws of None \<Rightarrow> None | Some st1 \<Rightarrow> meaning step st1 rest)
          else None)"
  by pat_completeness auto

termination
  by (relation "measure (\<lambda>(step, st, s). length s)") (auto dest: scan_shorter)

declare meaning.simps [simp del]

theorem accepts_meaning: "accepts step st s st' \<longleftrightarrow> meaning step st s = Some st'"
proof (induction step st s rule: meaning.induct)
  case (1 step st s)
  show ?case
  proof (cases "scan Gap [] [] s")
    case Broken
    then show ?thesis by (simp add: accepts_broken meaning.simps [of step st s])
  next
    case (Tokens rc ws rest)
    then show ?thesis
      using 1 unfolding accepts_tokens [OF Tokens] by (auto simp: meaning.simps [of step st s] split: option.splits)
  qed
qed

section \<open>What went wrong\<close>

lemma trouble_later: "later cf cf1 \<Longrightarrow> trouble cf1 cf2 \<Longrightarrow> trouble cf cf2"
  unfolding trouble_def later_def by (metis refusal_later order_refl)

lemma later_trans: "later cf cf1 \<Longrightarrow> later cf1 cf2 \<Longrightarrow> later cf cf2"
  by (simp add: later_def)

text \<open>
  \<open>served content s fd name\<close>: \<open>open\<close> answers \<open>fd\<close> for the file, which holds
  \<open>content\<close> and whose size is known; a read answers with bytes of it or fails.
\<close>

definition served :: "u8 list \<Rightarrow> sys \<Rightarrow> int \<Rightarrow> u8 list \<Rightarrow> bool" where
  "served content s fd name \<longleftrightarrow>
     sy_open s (sy_time s) name = fd \<and> fd \<noteq> CW_INVALID_FILE \<and>
     (\<forall>t. sy_fstat s t fd = Some (int (length content))) \<and>
     (\<forall>t n off bs. 0 \<le> off \<longrightarrow> sy_pread s t fd n off = Some bs \<longrightarrow>
        (\<exists>k\<le>n. bs = take k (drop (nat off) content)))"

text \<open>Why parsing a file may fail although the file is well formed: the C library or the system refused.\<close>

definition parse_trouble :: "cw_conf \<Rightarrow> cw_conf \<Rightarrow> bool" where
  "parse_trouble cf cf' \<longleftrightarrow> refusal (c_heap cf) (c_heap cf') \<or>
     (\<exists>m ms. c_log cf' = c_log cf @ ms \<and> m \<in> set ms \<and> refused_msg m)"

lemma trouble_parse: "trouble cf cf' \<Longrightarrow> parse_trouble cf cf'"
  unfolding trouble_def parse_trouble_def by fastforce

lemma parse_trouble_closed:
  "parse_trouble cf cf4 \<Longrightarrow> parse_close fd name start prev rc cf4 = (rc', cf') \<Longrightarrow> parse_trouble cf cf'"
  unfolding parse_trouble_def parse_close_def Let_def
  by (auto simp: refusal_def cw_free_def split: prod.splits if_splits)

lemma parse_close_ok:
  assumes "later cf cf4" and "parse_close fd name start prev rc cf4 = (rc', cf')"
  shows "rc' = rc \<and> c_log cf' = c_log cf \<or> rc' = CW_ERROR \<and> parse_trouble cf cf'"
  using assms unfolding parse_trouble_def parse_close_def Let_def later_def
  by (auto split: prod.splits if_splits)

text \<open>Opening a file that is served: the loop starts with the whole content ahead of it.\<close>

lemma parse_open_served:
  assumes sv: "served content (c_sys cf) fd name"
  shows "\<exists>cf1 start f. parse_open False junk cf name = (cf1, Some (fd, start)) \<and> c_file cf1 = Some f \<and>
    reads content (cf_file f) (c_sys cf1) \<and> input_of content f = content \<and> later cf cf1 \<and>
    f_fd (cf_file f) = fd \<and> same_os (c_sys cf) (c_sys cf1) \<and> (start = 0 \<longrightarrow> refusal (c_heap cf) (c_heap cf1))"
proof -
  obtain s1 s2 where op: "cw_open_file (c_sys cf) name = (s1, fd)"
      "cw_fd_info s1 fd = (s2, Some (int (length content)))" and s2: "sy_pread s2 = sy_pread (c_sys cf)" "sy_close s2 = sy_close (c_sys cf)"
    using sv by (auto simp: served_def cw_open_file_def cw_fd_info_def Let_def)
  obtain h start where al: "cw_alloc (c_heap cf) (of_nat CW_CONF_BUFFER) = (h, start)" by fastforce
  define f where "f = new_conf_file False junk fd name (Some (int (length content))) h start"
  define cf1 where "cf1 = cf\<lparr>c_sys := s2, c_heap := h, c_file := Some f\<rparr>"
  have "parse_open False junk cf name = (cf1, Some (fd, start))"
    using sv by (simp add: parse_open_def op al cf1_def f_def served_def)
  moreover have "reads content (cf_file f) (c_sys cf1)"
    using sv s2 by (simp add: reads_def f_def new_conf_file_def cf1_def served_def)
  moreover have "input_of content f = content" by (simp add: input_of_def f_def new_conf_file_def buffered_def)
  moreover have "later cf cf1"
    using al by (auto simp: later_def cf1_def cw_alloc_def libc_request_def Let_def split: if_splits)
  moreover have "refusal (c_heap cf) (c_heap cf1)" if "start = 0"
    using libc_request_refusal [of "c_heap cf" MAX_ALIGN _ h] al that by (simp add: cf1_def cw_alloc_def)
  ultimately show ?thesis using s2
    by (intro exI [of _ cf1] exI [of _ start] exI [of _ f]) (simp add: cf1_def same_os_def f_def new_conf_file_def)
qed

text \<open>
  \<open>refines\<close>: what a token's reader answers beside what the scanner makes of
  the input, \<open>rest\<close> being the input left.  \<open>answers\<close> says the same of the loop beside the language.
  Both leave open what counts as a cause for refusing what is well formed.
\<close>

definition refines :: "(cw_conf \<Rightarrow> cw_conf \<Rightarrow> bool) \<Rightarrow> scan_result \<Rightarrow> cw_conf \<Rightarrow> int \<Rightarrow> cw_conf \<Rightarrow> u8 list \<Rightarrow> bool" where
  "refines cause r cf rc cf1 rest \<longleftrightarrow>
     (case r of
        Tokens rc0 ws rest0 \<Rightarrow> rc = rc0 \<and> words_of cf1 = ws \<and> rest = rest0 \<and> later cf cf1 \<or> rc = CW_ERROR \<and> cause cf cf1
      | Broken \<Rightarrow> rc = CW_ERROR)"

definition answers ::
    "(cw_conf \<Rightarrow> cw_conf \<Rightarrow> bool) \<Rightarrow> ('st \<Rightarrow> int \<Rightarrow> u8 list list \<Rightarrow> 'st option) \<Rightarrow> (cw_conf \<Rightarrow> 'st) \<Rightarrow> 'st \<Rightarrow> u8 list
     \<Rightarrow> cw_conf \<Rightarrow> int \<Rightarrow> cw_conf \<Rightarrow> bool" where
  "answers cause step view st s cf rc cf' \<longleftrightarrow>
     (rc \<noteq> CW_ERROR \<longrightarrow> accepts step st s (view cf')) \<and>
     (\<forall>w. accepts step st s w \<longrightarrow> rc \<noteq> CW_ERROR \<and> view cf' = w \<and> later cf cf' \<or> rc = CW_ERROR \<and> cause cf cf')"

section \<open>What is to blame\<close>

text \<open>
  \<open>blame\<close> is what a set of causes has to cover: in the states where \<open>good\<close> holds, the trouble of the scanner
  and the refusals of the C library.  There are two: any trouble, in any state; and the refusals alone,
  in a calm one.
\<close>

definition reading :: "region list \<Rightarrow> u8 list \<Rightarrow> cw_conf \<Rightarrow> cw_conf_file \<Rightarrow> bool" where
  "reading rs content cf f \<longleftrightarrow>
     args_ok rs cf \<and> c_file cf = Some f \<and> file_ok f \<and> cf_dump f = 0 \<and> reads content (cf_file f) (c_sys cf)"

locale blame =
  fixes rs :: "region list" and content :: "u8 list" and good :: "cw_conf \<Rightarrow> bool" and cause :: "cw_conf \<Rightarrow> cw_conf \<Rightarrow> bool"
  assumes token_cause: "reading rs content cf f \<Longrightarrow> good cf \<Longrightarrow> cw_conf_read_token cf = Some (rc, cf1) \<Longrightarrow>
      trouble cf cf1 \<Longrightarrow> cause cf cf1"
    and token_good: "reading rs content cf f \<Longrightarrow> good cf \<Longrightarrow> cw_conf_read_token cf = Some (rc, cf1) \<Longrightarrow>
      later cf cf1 \<Longrightarrow> c_file cf1 = Some f1 \<Longrightarrow>
      length (input_of content f1) \<le> length (input_of content f) \<Longrightarrow> good cf1"
    and refusal_cause: "good cf \<Longrightarrow> refusal (c_heap cf) (c_heap cf1) \<Longrightarrow> cause cf cf1"
    and handler_good: "good cf \<Longrightarrow> later cf cf1 \<Longrightarrow> c_sys cf1 = c_sys cf \<Longrightarrow> c_file cf1 = c_file cf \<Longrightarrow> good cf1"
    and cause_later: "later cf cf1 \<Longrightarrow> cause cf1 cf2 \<Longrightarrow> cause cf cf2"
begin

lemma token_refines:
  assumes r: "reading rs content cf f" and g: "good cf" and t: "cw_conf_read_token cf = Some (rc, cf1)"
  obtains f1 where "c_file cf1 = Some f1" "rc \<noteq> CW_ERROR \<longrightarrow> reads content (cf_file f1) (c_sys cf1) \<and> good cf1"
    "refines cause (scan Gap [] [] (input_of content f)) cf rc cf1 (input_of content f1)"
proof -
  have R: "args_ok rs cf" "c_file cf = Some f" "file_ok f" "cf_dump f = 0" "reads content (cf_file f) (c_sys cf)"
    using r by (simp_all add: reading_def)
  obtain f1 where f1: "c_file cf1 = Some f1" and c: "case scan Gap [] [] (input_of content f) of
       Tokens rc0 ws rest \<Rightarrow>
         (rc = rc0 \<and> words_of cf1 = ws \<and> input_of content f1 = rest \<and> later cf cf1 \<and>
            reads content (cf_file f1) (c_sys cf1)) \<or>
         (rc = CW_ERROR \<and> trouble cf cf1)
     | Broken \<Rightarrow> rc = CW_ERROR"
    using read_token_refines [OF R t] by blast
  show thesis
  proof (cases "scan Gap [] [] (input_of content f)")
    case Broken
    then show thesis using c by (intro that [OF f1]) (simp_all add: refines_def)
  next
    case (Tokens rc0 ws rest)
    then consider "rc = rc0" "words_of cf1 = ws" "input_of content f1 = rest" "later cf cf1" "reads content (cf_file f1) (c_sys cf1)"
      | "rc = CW_ERROR" "trouble cf cf1"
      using c by auto
    then show thesis
    proof cases
      case 1
      have "length (input_of content f1) \<le> length (input_of content f)" using scan_suffix [OF Tokens] 1(3) by auto
      then show thesis using token_good [OF r g t 1(4) f1] 1 by (intro that [OF f1]) (simp_all add: refines_def Tokens)
    next
      case 2
      then show thesis using token_cause [OF r g t] by (intro that [OF f1]) (simp_all add: refines_def Tokens)
    qed
  qed
qed

end

interpretation any_trouble: blame rs content "\<lambda>cf. True" trouble for rs content
  by unfold_locales (blast intro: trouble_later, simp, simp add: trouble_def, simp, blast intro: trouble_later)

interpretation refused_only: blame rs content "calm content fd" "\<lambda>cf cf1. refusal (c_heap cf) (c_heap cf1)" for rs content fd
proof
  fix cf f rc cf1 f1
  assume r: "reading rs content cf f" and c: "calm content fd cf" and t: "cw_conf_read_token cf = Some (rc, cf1)"
  then have "args_ok rs cf" "c_file cf = Some f" "file_ok f" "cf_dump f = 0" "reads content (cf_file f) (c_sys cf)"
    by (simp_all add: reading_def)
  note C = read_token_calm [OF this c t]
  show "trouble cf cf1 \<Longrightarrow> refusal (c_heap cf) (c_heap cf1)" by (rule C(1))
  show "calm content fd cf1" if "later cf cf1" "c_file cf1 = Some f1" "length (input_of content f1) \<le> length (input_of content f)"
    using that c C(2,3) reliable_same [OF C(2)] r by (auto simp: calm_def calm_sys_def reading_def)
qed (auto simp: calm_def later_def refusal_def)

section \<open>The loop accepts the language\<close>

locale directive_language = directive_table mods ready rs
    for mods :: "cw_module list" and ready :: "cw_conf \<Rightarrow> bool" and rs :: "region list" +
  fixes view :: "cw_conf \<Rightarrow> 'st" and step :: "'st \<Rightarrow> int \<Rightarrow> u8 list list \<Rightarrow> 'st option"
  assumes handler_step:
      "args_ok rs cf \<Longrightarrow> words_ok cf \<Longrightarrow> c_words cf \<noteq> [] \<Longrightarrow> ready cf \<Longrightarrow>
       cw_conf_handler mods cf lst = (rc, cf') \<Longrightarrow>
       c_sys cf' = c_sys cf \<and>
       (case step (view cf) lst (words_of cf) of
          Some st \<Rightarrow> rc = CW_OK \<and> view cf' = st \<and> later cf cf' \<or> rc = CW_ERROR \<and> refusal (c_heap cf) (c_heap cf')
        | None \<Rightarrow> rc = CW_ERROR)"
    and view_same: "same_conf cf cf1 \<Longrightarrow> view cf1 = view cf"
begin

text \<open>A token that ends the loop.\<close>

lemma stop_answers:
  assumes t: "cw_conf_read_token cf = Some (rc1, cf1)" "token_result rc1 cf1" "view cf1 = view cf"
    and rf: "refines cause (scan Gap [] [] s) cf rc1 cf1 rest"
    and stop: "\<not> (rc1 = CW_OK \<or> rc1 = CW_CONF_BLOCK_START)"
    and p: "parse_loop mods None ParseFile cf = Some (rc, cf')"
  shows "answers cause step view (view cf) s cf rc cf'"
proof -
  have r: "if rc1 = CW_CONF_FILE_DONE then rc = rc1 \<and> cf' = cf1 else rc = CW_ERROR \<and> (rc1 = CW_ERROR \<longrightarrow> cf' = cf1)"
    using parse_loop_stop [OF t(1,2), of ParseFile] stop p by auto
  show ?thesis
  proof (cases "scan Gap [] [] s")
    case Broken
    then show ?thesis
      using rf r by (auto simp: answers_def refines_def accepts_broken conf_codes split: if_splits)
  next
    case (Tokens rc0 ws rest')
    then show ?thesis
      using rf r stop t(3) unfolding answers_def accepts_tokens [OF Tokens]
      by (auto simp: refines_def conf_codes split: if_splits)
  qed
qed

text \<open>A directive that is refused, and one that is run before the rest.\<close>

lemma refused_answers:
  assumes s: "scan Gap [] [] s = Tokens rc1 ws rest" and go: "rc1 = CW_OK \<or> rc1 = CW_CONF_BLOCK_START"
    and "\<And>st1. step st rc1 ws = Some st1 \<Longrightarrow> cause cf cf'"
  shows "answers cause step view st s cf CW_ERROR cf'"
  using assms(3) go unfolding answers_def accepts_tokens [OF s] by (auto simp: conf_codes)

lemma directive_answers:
  assumes bl: "blame rs content good cause"
    and s: "scan Gap [] [] s = Tokens rc1 ws rest" and go: "rc1 = CW_OK \<or> rc1 = CW_CONF_BLOCK_START"
    and st: "step st rc1 ws = Some st1" and l: "later cf cf2" and a: "answers cause step view st1 rest cf2 rc cf'"
  shows "answers cause step view st s cf rc cf'"
proof -
  have "accepts step st s w \<longleftrightarrow> accepts step st1 rest w" for w
    unfolding accepts_tokens [OF s] using go st by (auto simp: conf_codes)
  then show ?thesis using a later_trans [OF l] blame.cause_later [OF bl l] unfolding answers_def by auto
qed

text \<open>One turn of the loop on a directive: the token is refused, or the handler is called.\<close>

lemma loop_token:
  assumes bl: "blame rs content good cause"
    and r: "reading rs content cf f" and rdy: "ready cf" and g: "good cf"
    and p: "parse_loop mods None ParseFile cf = Some (rc, cf')"
    and s: "scan Gap [] [] (input_of content f) = Tokens rc1 ws rest" and go: "rc1 = CW_OK \<or> rc1 = CW_CONF_BLOCK_START"
  obtains (refused) "rc = CW_ERROR" "cause cf cf'"
  | (handled) cf1 f1 rc2 cf2 where "cw_conf_handler mods cf1 rc1 = (rc2, cf2)" "words_of cf1 = ws" "view cf1 = view cf"
      "later cf cf1" "good cf1" "reading rs content cf1 f1" "input_of content f1 = rest" "left_in f1 < left_in f"
      "words_ok cf1" "c_words cf1 \<noteq> []" "ready cf1"
      "(if rc2 = CW_ERROR then Some (CW_ERROR, cf2) else parse_loop mods None ParseFile cf2) = Some (rc, cf')"
proof -
  have R: "args_ok rs cf" "c_file cf = Some f" "file_ok f" "cf_dump f = 0" using r by (simp_all add: reading_def)
  then have fok: "conf_file_ok cf" by (simp add: conf_file_ok_def)
  obtain rc0 cf1 where t: "cw_conf_read_token cf = Some (rc0, cf1)" using read_token_ends [OF fok] by blast
  note T = token_keeps [OF R(1) fok rdy t]
  obtain f1 where f1: "c_file cf1 = Some f1" "rc0 \<noteq> CW_ERROR \<longrightarrow> reads content (cf_file f1) (c_sys cf1) \<and> good cf1"
    and rf: "refines cause (Tokens rc1 ws rest) cf rc0 cf1 (input_of content f1)"
    by (rule blame.token_refines [OF bl r g t, unfolded s])
  have "same_conf cf cf1" using read_token_world(1) [OF R t] by (simp add: untouched_def)
  then have v1: "view cf1 = view cf" by (rule view_same)
  show thesis
  proof (cases "rc0 = CW_ERROR")
    case True
    then have "cause cf cf1" using rf go by (auto simp: refines_def conf_codes)
    moreover have "rc = CW_ERROR" "cf' = cf1"
      using parse_loop_stop [OF t T(5), of ParseFile] True p by (auto simp: conf_codes)
    ultimately show thesis by (intro refused) simp_all
  next
    case False
    then have e: "rc0 = rc1" "words_of cf1 = ws" "input_of content f1 = rest" "later cf cf1"
      using rf by (auto simp: refines_def)
    have c: "consumes rc1" "words_ok cf1" "c_words cf1 \<noteq> []"
      using T(5,6) go False e(1) by (auto simp: consumes_def token_result_def conf_codes)
    obtain rc2 cf2 where h: "cw_conf_handler mods cf1 rc1 = (rc2, cf2)" by fastforce
    have "(if rc2 = CW_ERROR then Some (CW_ERROR, cf2) else parse_loop mods None ParseFile cf2) = Some (rc, cf')"
      using parse_loop_go [OF t [unfolded e(1)] _ h, of ParseFile] go p by auto
    moreover have "left_in f1 < left_in f" using T(7) c(1) e(1) f1(1) R(2) by simp
    moreover have "reading rs content cf1 f1" using T(1,2) f1 False by (auto simp: reading_def conf_file_ok_def)
    ultimately show thesis using handled [OF h e(2) v1 e(4)] f1(2) False e(3) c(2,3) T(3) by blast
  qed
qed

text \<open>A directive of the language is run, and the loop goes on behind it.\<close>

lemma loop_directive:
  assumes bl: "blame rs content good cause"
    and r: "reading rs content cf f" and rdy: "ready cf" and g: "good cf"
    and p: "parse_loop mods None ParseFile cf = Some (rc, cf')"
    and s: "scan Gap [] [] (input_of content f) = Tokens rc1 ws rest" and go: "rc1 = CW_OK \<or> rc1 = CW_CONF_BLOCK_START"
    and st: "step (view cf) rc1 ws = Some st"
  obtains (refused) "rc = CW_ERROR" "cause cf cf'"
  | (ran) cf2 f2 where "reading rs content cf2 f2" "ready cf2" "good cf2" "view cf2 = st" "later cf cf2"
      "input_of content f2 = rest" "left_in f2 < left_in f" "parse_loop mods None ParseFile cf2 = Some (rc, cf')"
proof (cases rule: loop_token [OF bl r rdy g p s go])
  case 1
  then show thesis by (rule that(1))
next
  case handled: (2 cf1 f1 rc2 cf2)
  have ok: "args_ok rs cf1" using handled(6) by (simp add: reading_def)
  note H = handler_step [OF ok handled(9-11,1), unfolded handled(2,3) st]
  note K = handler_keeps [OF ok handled(9-11,1)]
  show thesis
  proof (cases "rc2 = CW_ERROR")
    case True
    then have "refusal (c_heap cf1) (c_heap cf2)" using H by (auto simp: conf_codes)
    then have "cause cf cf2" using blame.cause_later [OF bl handled(4)] blame.refusal_cause [OF bl handled(5)] by blast
    then show thesis using True handled(12) by (intro that(1)) simp_all
  next
    case False
    then have l: "view cf2 = st" "later cf1 cf2" and sys: "c_sys cf2 = c_sys cf1" using H by auto
    have k: "c_file cf2 = c_file cf1" "args_ok rs cf2" "ready cf2" using K by (simp_all add: keeps_def)
    have "reading rs content cf2 f1" using handled(6) k sys by (simp add: reading_def)
    moreover have "good cf2" by (rule blame.handler_good [OF bl handled(5) l(2) sys k(1)])
    ultimately show thesis
      using that(2) k(3) l later_trans [OF handled(4) l(2)] handled(7,8,12) False by simp
  qed
qed

lemma parse_loop_accepts:
  assumes bl: "blame rs content good cause"
    and "reading rs content cf f" "ready cf" "good cf" "parse_loop mods None ParseFile cf = Some (rc, cf')"
  shows "answers cause step view (view cf) (input_of content f) cf rc cf' \<and> (rc \<noteq> CW_ERROR \<longrightarrow> good cf')"
  using assms(2-)
proof (induction "left_in f" arbitrary: cf f rule: less_induct)
  case less
  note L = less.prems
  have R: "args_ok rs cf" "c_file cf = Some f" "file_ok f" "cf_dump f = 0" using L(1) by (simp_all add: reading_def)
  then have fok: "conf_file_ok cf" by (simp add: conf_file_ok_def)
  obtain rc1 cf1 where t: "cw_conf_read_token cf = Some (rc1, cf1)" using read_token_ends [OF fok] by blast
  note T = token_keeps [OF R(1) fok L(2) t]
  obtain f1 where f1: "c_file cf1 = Some f1" "rc1 \<noteq> CW_ERROR \<longrightarrow> reads content (cf_file f1) (c_sys cf1) \<and> good cf1"
    and rf: "refines cause (scan Gap [] [] (input_of content f)) cf rc1 cf1 (input_of content f1)"
    by (rule blame.token_refines [OF bl L(1,3) t])
  show ?case
  proof (cases "rc1 = CW_OK \<or> rc1 = CW_CONF_BLOCK_START")
    case False
    have "same_conf cf cf1" using read_token_world(1) [OF R t] by (simp add: untouched_def)
    then have v1: "view cf1 = view cf" by (rule view_same)
    have "rc \<noteq> CW_ERROR \<longrightarrow> rc1 \<noteq> CW_ERROR \<and> cf' = cf1"
      using parse_loop_stop [OF t T(5), of ParseFile] False L(4) by (auto simp: conf_codes split: if_splits)
    then show ?thesis using stop_answers [OF t T(5) v1 rf False L(4)] f1(2) by blast
  next
    case go: True
    obtain rest where s: "scan Gap [] [] (input_of content f) = Tokens rc1 (words_of cf1) rest"
      using rf go by (auto simp: refines_def conf_codes split: scan_result.splits)
    show ?thesis
    proof (cases "step (view cf) rc1 (words_of cf1)")
      case None
      have "rc = CW_ERROR"
      proof (cases rule: loop_token [OF bl L s go])
        case handled: (2 cf2 f2 rc2 cf3)
        then have "rc2 = CW_ERROR"
          using handler_step [OF _ handled(9-11,1)] None by (auto simp: reading_def)
        then show ?thesis using handled(12) by simp
      qed
      then show ?thesis using refused_answers [OF s go, of "view cf" cause cf cf'] None by simp
    next
      case (Some st)
      show ?thesis
      proof (cases rule: loop_directive [OF bl L s go Some])
        case 1
        then show ?thesis using refused_answers [OF s go] by simp
      next
        case ran: (2 cf2 f2)
        show ?thesis
          using directive_answers [OF bl s go Some ran(5)] less.hyps [OF ran(7,1-3,8), unfolded ran(4,6)] by blast
      qed
    qed
  qed
qed

lemma open_reading:
  assumes "args_ok rs cf" "parse_open False junk cf name = (cf1, Some (fd, start))" "c_file cf1 = Some f"
    "reads content (cf_file f) (c_sys cf1)"
  shows "reading rs content cf1 f" "same_conf cf cf1"
  using parse_open_opened [OF assms(1,2)] assms(3,4) by (auto simp: opened_def conf_file_ok_def reading_def)

text \<open>What parsing a file that is served comes to: its buffer is refused, or the loop runs on its content.\<close>

lemma parse_served:
  assumes ok: "args_ok rs cf" and m: "ready cf" and sv: "served content (c_sys cf) fd name"
    and p: "cw_conf_parse mods False junk None cf (Some name) = Some (rv, cf')"
  obtains start rc rc' cf2 where "parse_close fd name start (c_file cf) rc cf2 = (rc', cf')" "rv = conf_return rc'"
    "view cf' = view cf2" "rc = CW_ERROR \<longrightarrow> rc' = CW_ERROR"
    "rc = CW_ERROR \<and> parse_trouble cf cf2 \<or>
     (\<exists>cf1 f. reading rs content cf1 f \<and> ready cf1 \<and> view cf1 = view cf \<and> later cf cf1 \<and> input_of content f = content \<and>
        parse_loop mods None ParseFile cf1 = Some (rc, cf2))"
proof -
  obtain cf1 start f where op: "parse_open False junk cf name = (cf1, Some (fd, start))"
    and f: "c_file cf1 = Some f" "reads content (cf_file f) (c_sys cf1)" "input_of content f = content"
    and l1: "later cf cf1" and r1: "start = 0 \<Longrightarrow> refusal (c_heap cf) (c_heap cf1)"
    using parse_open_served [OF sv] by metis
  note o = open_reading [OF ok op f(1,2)]
  obtain rc cf2 where lf: "loop_from mods start cf1 = Some (rc, cf2)"
    using p unfolding parse_opened_eq [OF op] by auto
  obtain rc' where pc: "parse_close fd name start (c_file cf) rc cf2 = (rc', cf')" and rv: "rv = conf_return rc'"
    using p lf unfolding parse_opened_eq [OF op] by (auto split: prod.splits)
  have "rc = CW_ERROR \<and> parse_trouble cf cf2 \<or> parse_loop mods None ParseFile cf1 = Some (rc, cf2)"
    using lf r1 by (cases "start = 0") (auto simp: loop_from_def parse_trouble_def)
  moreover have "view cf' = view cf2"
    using pc by (intro view_same) (auto simp: parse_close_def Let_def same_conf_def split: prod.splits if_splits)
  moreover have "rc = CW_ERROR \<longrightarrow> rc' = CW_ERROR"
    using pc by (auto simp: parse_close_def Let_def split: prod.splits if_splits)
  ultimately show thesis
    using that [OF pc rv] o(1) ready_same [OF o(2) m] view_same [OF o(2)] f(3) l1 by blast
qed

lemma parse_accepts:
  assumes ok: "args_ok rs cf" and m: "ready cf" and sv: "served content (c_sys cf) fd name"
    and p: "cw_conf_parse mods False junk None cf (Some name) = Some (rv, cf')"
  shows "(rv = ConfOk \<longrightarrow> accepts step (view cf) content (view cf')) \<and>
    (\<forall>w. accepts step (view cf) content w \<longrightarrow>
       rv = ConfOk \<and> view cf' = w \<and> c_log cf' = c_log cf \<or> rv = ConfError \<and> parse_trouble cf cf')"
proof -
  obtain start rc rc' cf2 where pc: "parse_close fd name start (c_file cf) rc cf2 = (rc', cf')" and rv: "rv = conf_return rc'"
    and v: "view cf' = view cf2" and err: "rc = CW_ERROR \<longrightarrow> rc' = CW_ERROR"
    and loop: "rc = CW_ERROR \<and> parse_trouble cf cf2 \<or>
     (\<exists>cf1 f. reading rs content cf1 f \<and> ready cf1 \<and> view cf1 = view cf \<and> later cf cf1 \<and> input_of content f = content \<and>
        parse_loop mods None ParseFile cf1 = Some (rc, cf2))"
    by (rule parse_served [OF assms])
  have "(rc \<noteq> CW_ERROR \<longrightarrow> accepts step (view cf) content (view cf2)) \<and>
    (\<forall>w. accepts step (view cf) content w \<longrightarrow>
       rc \<noteq> CW_ERROR \<and> view cf2 = w \<and> later cf cf2 \<or> rc = CW_ERROR \<and> parse_trouble cf cf2)"
    using loop
  proof
    assume "\<exists>cf1 f. reading rs content cf1 f \<and> ready cf1 \<and> view cf1 = view cf \<and> later cf cf1 \<and> input_of content f = content \<and>
        parse_loop mods None ParseFile cf1 = Some (rc, cf2)"
    then obtain cf1 f where o: "reading rs content cf1 f" "ready cf1" "view cf1 = view cf" "later cf cf1" "input_of content f = content"
      and pl: "parse_loop mods None ParseFile cf1 = Some (rc, cf2)" by blast
    show ?thesis
      using parse_loop_accepts [OF any_trouble.blame_axioms o(1,2) TrueI pl, unfolded o(3,5)]
        later_trans [OF o(4)] trouble_later [OF o(4)] trouble_parse unfolding answers_def by blast
  qed simp
  then show ?thesis
    using err v parse_close_ok [OF _ pc] parse_trouble_closed [OF _ pc] unfolding rv conf_return_def
    by (metis (no_types, lifting) conf_rv.distinct(1))
qed

text \<open>In a calm world a file of the language is accepted, or the C library refused a request.\<close>

lemma parse_refused:
  assumes ok: "args_ok rs cf" and m: "ready cf" and sv: "served content (c_sys cf) fd name"
    and cw: "calm_sys content fd (c_sys cf)" and acc: "accepts step (view cf) content w"
    and p: "cw_conf_parse mods False junk None cf (Some name) = Some (rv, cf')" and rv: "rv \<noteq> ConfOk"
  shows "refusal (c_heap cf) (c_heap cf')"
proof -
  obtain cf1 start f where op: "parse_open False junk cf name = (cf1, Some (fd, start))"
    and f: "c_file cf1 = Some f" "reads content (cf_file f) (c_sys cf1)" "input_of content f = content" "f_fd (cf_file f) = fd"
    and l1: "later cf cf1" and os: "same_os (c_sys cf) (c_sys cf1)" and r1: "start = 0 \<longrightarrow> refusal (c_heap cf) (c_heap cf1)"
    using parse_open_served [OF sv, of junk] by blast
  note o = open_reading [OF ok op f(1,2)]
  note s1 = ready_same [OF o(2) m] view_same [OF o(2)]
  have c1: "calm content fd cf1" using cw f(1,3,4) reliable_same [OF os] by (simp add: calm_def calm_sys_def)
  obtain rc cf2 where lf: "loop_from mods start cf1 = Some (rc, cf2)" using p unfolding parse_opened_eq [OF op] by auto
  obtain rc' where pc: "parse_close fd name start (c_file cf) rc cf2 = (rc', cf')" and rv': "rv = conf_return rc'"
    using p lf unfolding parse_opened_eq [OF op] by (auto split: prod.splits)
  have heap: "h_refused (c_heap cf') = h_refused (c_heap cf2)"
    using pc by (auto simp: parse_close_def Let_def cw_frame split: prod.splits if_splits)
  show ?thesis
  proof (cases "start = 0")
    case True
    then show ?thesis using lf r1 heap by (simp add: loop_from_def refusal_def)
  next
    case False
    then have pl: "parse_loop mods None ParseFile cf1 = Some (rc, cf2)" using lf by (simp add: loop_from_def)
    note A = parse_loop_accepts [OF refused_only.blame_axioms o(1) s1(1) c1 pl, unfolded f(3) s1(2)]
    have "rc = CW_ERROR"
    proof (rule ccontr)
      assume e: "rc \<noteq> CW_ERROR"
      then have "calm content fd cf2" using A by blast
      then have "rc' = rc"
        using pc by (auto simp: parse_close_def Let_def cw_close_file_def calm_def calm_sys_def reliable_def split: if_splits)
      then show False using e rv rv' by (simp add: conf_return_def)
    qed
    then have "refusal (c_heap cf1) (c_heap cf2)" using A acc by (auto simp: answers_def)
    then show ?thesis using l1 heap by (simp add: refusal_def later_def)
  qed
qed

end

end
