(* ===== verification/Core_Module.thy ===== *)
theory Core_Module
  imports Conf_Run Conf_Lookup
begin

text \<open>
  The modules: \<open>src/core/cw_module.[ch]\<close>, the core module of \<open>src/core/cw.c\<close> with its
  directive \<open>worker_processes\<close>, and the http module of \<open>src/http/cw_http.c\<close>.  The list
  \<open>cw_modules\<close> is generated by the build; \<open>auto/sources\<close> puts only the core module into
  it.
\<close>

section \<open>The list of modules\<close>

definition CW_MAX_DYNAMIC_MODULES :: u64 where [cw_sizes]: "CW_MAX_DYNAMIC_MODULES = 128"

text \<open>
  \<open>cw_preinit_modules\<close> numbers the modules of the list; with the list it gives the globals
  \<open>cw_modules_n\<close> and \<open>cw_max_module\<close>.
\<close>

fun number_modules :: "u64 \<Rightarrow> cw_module list \<Rightarrow> cw_module list" where
  "number_modules i [] = []"
| "number_modules i (m # ms) = m\<lparr>m_index := i\<rparr> # number_modules (i + 1) ms"

definition cw_preinit_modules :: "cw_module list \<Rightarrow> cw_module list \<times> u64 \<times> u64 \<times> int" where
  "cw_preinit_modules mods =
     (let n = of_nat (length mods)
      in (number_modules 0 mods, n, n + CW_MAX_DYNAMIC_MODULES, CW_OK))"

section \<open>The core module\<close>

definition CW_CONF_UNSET :: int where [cw_sizes]: "CW_CONF_UNSET = -1"
definition sizeof_cw_core_conf :: u64 where [cw_sizes]: "sizeof_cw_core_conf = 184"

definition cw_core_module_create_conf ::
    "heap \<Rightarrow> cw_pool \<Rightarrow> (addr \<Rightarrow> cw_core_conf option) \<Rightarrow> heap \<times> cw_pool \<times> (addr \<Rightarrow> cw_core_conf option) \<times> addr" where
  "cw_core_module_create_conf h pool core =
     (let (h1, pool1, ccf) = cw_pcalloc h pool sizeof_cw_core_conf
      in if ccf = 0 then (h1, pool1, core, 0)
         else let (h2, pool2, env, rc) = cw_array_init h1 pool1 1 sizeof_cw_str;
                  core1 = core(ccf \<mapsto>
                    \<lparr>cc_daemon = CW_CONF_UNSET, cc_master = CW_CONF_UNSET,
                     cc_timer_resolution = of_int CW_CONF_UNSET, cc_shutdown_timeout = of_int CW_CONF_UNSET,
                     cc_worker_processes = CW_CONF_UNSET, cc_debug_points = CW_CONF_UNSET,
                     cc_rlimit_nofile = CW_CONF_UNSET, cc_rlimit_core = CW_CONF_UNSET,
                     cc_priority = 0, cc_env = env\<rparr>)
              in if rc \<noteq> CW_OK then (h2, pool2, core1, 0) else (h2, pool2, core1, ccf))"

text \<open>
  \<open>worker_processes\<close>.  Reading \<open>value[1]\<close> where there is no second word, or a
  configuration that does not exist, would be undefined: a fault.  \<open>ncpu\<close> is the global
  \<open>cw_ncpu\<close>.
\<close>

definition auto_name :: "u8 list" where "auto_name = [97, 117, 116, 111]"

definition cw_set_worker_processes :: "int \<Rightarrow> cw_conf \<Rightarrow> addr \<Rightarrow> cw_conf \<times> conf_rv" where
  "cw_set_worker_processes ncpu cf conf =
     (case c_core cf conf of
        None \<Rightarrow> (faulty cf, ConfError)
      | Some ccf \<Rightarrow>
          if cc_worker_processes ccf \<noteq> CW_CONF_UNSET then (cf, ConfMsg ''is duplicate'')
          else if a_nelts (c_args cf) < 2 then (faulty cf, ConfError)
          else let value = arg_value cf;
                   store = (\<lambda>n. cf\<lparr>c_core := (c_core cf)(conf \<mapsto> ccf\<lparr>cc_worker_processes := n\<rparr>)\<rparr>)
               in if cw_strcmp_eq (s_bytes (value 1)) auto_name then (store ncpu, ConfOk)
                  else let n = cw_atoi (s_bytes (value 1))
                       in if n = CW_ERROR then (store n, ConfMsg ''invalid value'') else (store n, ConfOk))"

definition worker_processes_name :: "u8 list" where
  "worker_processes_name = [119, 111, 114, 107, 101, 114, 95, 112, 114, 111, 99, 101, 115, 115, 101, 115]"

definition cw_core_commands :: "int \<Rightarrow> cw_command list" where
  "cw_core_commands ncpu =
     [\<lparr>cmd_name = worker_processes_name, cmd_type = CW_MAIN_CONF OR CW_DIRECT_CONF OR CW_CONF_TAKE1,
       cmd_set = cw_set_worker_processes ncpu, cmd_conf = 0\<rparr>]"

definition cw_core_module :: "int \<Rightarrow> cw_module" where
  "cw_core_module ncpu =
     \<lparr>m_ctx_index = -1, m_index = -1, m_commands = cw_core_commands ncpu, m_type = CW_CORE_MODULE,
      m_create = Some cw_core_module_create_conf\<rparr>"

section \<open>The http module\<close>

definition sizeof_cw_http_conf_ctx :: u64 where [cw_sizes]: "sizeof_cw_http_conf_ctx = 24"

text \<open>\<open>cw_pcalloc\<close> zeroes the pointer cells of the region too.\<close>

definition clear_cells :: "(addr \<Rightarrow> addr) \<Rightarrow> addr \<Rightarrow> u64 \<Rightarrow> (addr \<Rightarrow> addr)" where
  "clear_cells ptrs a n = (\<lambda>x. if x - a < n then 0 else ptrs x)"

definition cw_http_block :: "cw_conf \<Rightarrow> addr \<Rightarrow> cw_conf \<times> conf_rv" where
  "cw_http_block cf conf =
     (if c_ptrs cf conf \<noteq> 0 then (cf, ConfMsg ''is duplicate'')
      else let (h1, pool1, ctx) = cw_pcalloc (c_heap cf) (c_pool cf) sizeof_cw_http_conf_ctx;
               cf1 = cf\<lparr>c_heap := h1, c_pool := pool1\<rparr>
           in if ctx = 0 then (cf1, ConfError)
              else (cf1\<lparr>c_ptrs := (clear_cells (c_ptrs cf1) ctx sizeof_cw_http_conf_ctx)(conf := ctx)\<rparr>, ConfOk))"

definition http_name :: "u8 list" where "http_name = [104, 116, 116, 112]"

definition cw_http_commands :: "cw_command list" where
  "cw_http_commands =
     [\<lparr>cmd_name = http_name, cmd_type = CW_MAIN_CONF OR CW_CONF_BLOCK OR CW_CONF_NOARGS,
       cmd_set = cw_http_block, cmd_conf = 0\<rparr>]"

definition cw_http_module :: cw_module where
  "cw_http_module =
     \<lparr>m_ctx_index = -1, m_index = -1, m_commands = cw_http_commands, m_type = CW_CORE_MODULE, m_create = None\<rparr>"

section \<open>The names and the types of the directives\<close>

lemma names_clean: "0 \<notin> set worker_processes_name" "0 \<notin> set http_name" "worker_processes_name \<noteq> http_name"
  by (simp_all add: worker_processes_name_def http_name_def)

lemma type_bits [simp]:
  "(CW_MAIN_CONF OR CW_DIRECT_CONF OR CW_CONF_TAKE1) AND CW_MAIN_CONF \<noteq> 0"
  "(CW_MAIN_CONF OR CW_DIRECT_CONF OR CW_CONF_TAKE1) AND CW_DIRECT_CONF \<noteq> 0"
  "(CW_MAIN_CONF OR CW_DIRECT_CONF OR CW_CONF_TAKE1) AND CW_CONF_BLOCK = 0"
  "(CW_MAIN_CONF OR CW_CONF_BLOCK OR CW_CONF_NOARGS) AND CW_MAIN_CONF \<noteq> 0"
  "(CW_MAIN_CONF OR CW_CONF_BLOCK OR CW_CONF_NOARGS) AND CW_DIRECT_CONF = 0"
  "(CW_MAIN_CONF OR CW_CONF_BLOCK OR CW_CONF_NOARGS) AND CW_CONF_BLOCK \<noteq> 0"
  by (simp_all add: conf_bits)

lemma nelts_cases:
  assumes "\<not> CW_CONF_MAX_ARGS < (n :: u64)" and "n \<noteq> 0"
  shows "n \<in> {1, 2, 3, 4, 5, 6, 7, 8}"
proof -
  have "unat n \<le> 8" "0 < unat n" using assms by (simp_all add: CW_CONF_MAX_ARGS_def word_le_nat_alt unat_gt_0 not_less)
  then have "unat n \<in> {1, 2, 3, 4, 5, 6, 7, 8}" by auto
  then have "of_nat (unat n) \<in> (of_nat ` {1, 2, 3, 4, 5, 6, 7, 8} :: u64 set)" by (rule imageI)
  then show ?thesis by simp
qed

text \<open>Exactly one argument for \<open>CW_CONF_TAKE1\<close>, none for \<open>CW_CONF_NOARGS\<close>.\<close>

lemma args_valid_take1:
  "n \<noteq> 0 \<Longrightarrow> args_valid (CW_MAIN_CONF OR CW_DIRECT_CONF OR CW_CONF_TAKE1) n \<longleftrightarrow> n = 2"
  using nelts_cases [of n]
  by (cases "CW_CONF_MAX_ARGS < n") (auto simp: args_valid_def argument_number_def conf_bits)

lemma args_valid_noargs:
  "n \<noteq> 0 \<Longrightarrow> args_valid (CW_MAIN_CONF OR CW_CONF_BLOCK OR CW_CONF_NOARGS) n \<longleftrightarrow> n = 1"
  using nelts_cases [of n]
  by (cases "CW_CONF_MAX_ARGS < n") (auto simp: args_valid_def argument_number_def conf_bits)

section \<open>The tables of the two modules keep the parser's contract\<close>

text \<open>
  The directives are read at the top level of the file, and the core configuration exists
  where the context points.
\<close>

definition core_ready :: "cw_conf \<Rightarrow> bool" where
  "core_ready cf \<longleftrightarrow> c_core cf (c_ptrs cf (c_ctx cf)) \<noteq> None \<and>
     c_module_type cf = CW_CORE_MODULE \<and> c_cmd_type cf = CW_MAIN_CONF"

lemma keeps_core: "args_ok rs cf \<Longrightarrow> keeps rs cf (cf\<lparr>c_core := core\<rparr>)"
  by (simp add: keeps_def args_ok_def steady_def)

lemma set_worker_processes_keeps:
  assumes "args_ok rs cf" and "a_nelts (c_args cf) = 2" and "core_ready cf"
    and "cw_set_worker_processes ncpu cf (c_ptrs cf (c_ctx cf)) = (cf', rv)"
  shows "keeps rs cf cf'" and "core_ready cf'" and "c_ptrs cf' = c_ptrs cf" and "c_ctx cf' = c_ctx cf"
  using assms keeps_core [OF assms(1)]
  by (auto simp: cw_set_worker_processes_def Let_def core_ready_def keeps_def split: option.splits if_splits)

lemma two_words:
  assumes "words_ok cf" and "c_words cf \<noteq> []"
    and "args_valid (CW_MAIN_CONF OR CW_DIRECT_CONF OR CW_CONF_TAKE1) (a_nelts (c_args cf))"
  shows "a_nelts (c_args cf) = 2"
proof -
  have "a_nelts (c_args cf) \<noteq> 0" using counted_empty [OF words_ok_counted [OF assms(1)]] assms(2) by simp
  then show ?thesis using args_valid_take1 assms(3) by blast
qed

lemma core_commands [simp]:
  "m_commands (cw_core_module ncpu) = cw_core_commands ncpu" "m_type (cw_core_module ncpu) = CW_CORE_MODULE"
  "m_commands cw_http_module = cw_http_commands" "m_type cw_http_module = CW_CORE_MODULE"
  by (simp_all add: cw_core_module_def cw_http_module_def)

definition core_modules :: "int \<Rightarrow> cw_module list" where
  "core_modules ncpu = fst (cw_preinit_modules [cw_core_module ncpu])"

definition http_modules :: "int \<Rightarrow> cw_module list" where
  "http_modules ncpu = fst (cw_preinit_modules [cw_core_module ncpu, cw_http_module])"

lemma modules_eq:
  "core_modules ncpu = [(cw_core_module ncpu)\<lparr>m_index := 0\<rparr>]"
  "http_modules ncpu = [(cw_core_module ncpu)\<lparr>m_index := 0\<rparr>, cw_http_module\<lparr>m_index := 1\<rparr>]"
  by (simp_all add: core_modules_def http_modules_def cw_preinit_modules_def)

lemma core_command:
  assumes "cw_core_commands ncpu = [cmd]"
  shows "cmd_type cmd = CW_MAIN_CONF OR CW_DIRECT_CONF OR CW_CONF_TAKE1"
    and "cmd_set cmd = cw_set_worker_processes ncpu"
    and "m_index m = 0 \<Longrightarrow> conf_context cf m cmd = c_ptrs cf (c_ctx cf)"
  using assms by (auto simp: cw_core_commands_def conf_context_def conf_bits)

lemma http_command:
  assumes "cw_http_commands = [cmd]"
  shows "cmd_set cmd = cw_http_block" and "m_index m = 1 \<Longrightarrow> conf_context cf m cmd = c_ctx cf + 8"
  using assms by (auto simp: cw_http_commands_def conf_context_def conf_bits)

interpretation core_table: directive_table "core_modules ncpu" core_ready rs for ncpu rs
proof unfold_locales
  fix m cmd cf cf' rv
  assume a: "m \<in> set (core_modules ncpu)" "cmd \<in> set (m_commands m)" "args_ok rs cf" "words_ok cf" "c_words cf \<noteq> []"
    "core_ready cf" "args_valid (cmd_type cmd) (a_nelts (c_args cf))"
    "cmd_set cmd cf (conf_context cf m cmd) = (cf', rv)"
  then have m: "m = (cw_core_module ncpu)\<lparr>m_index := 0\<rparr>" and cmd: "cw_core_commands ncpu = [cmd]"
    by (auto simp: modules_eq cw_core_commands_def)
  note t = core_command [OF cmd]
  have x: "conf_context cf m cmd = c_ptrs cf (c_ctx cf)" by (rule t(3)) (simp add: m)
  have "a_nelts (c_args cf) = 2" using two_words [OF a(4,5)] a(7) t(1) by simp
  from set_worker_processes_keeps [OF a(3) this a(6)] a(8) show "keeps rs cf cf' \<and> core_ready cf'"
    unfolding t(2) x by blast
next
  fix cf cf1
  assume "same_conf cf cf1" "core_ready cf"
  then show "core_ready cf1" by (simp add: same_conf_def core_ready_def)
qed

text \<open>
  With the http module: the context array has a cell for each module, in a region of the
  pool's that is one of the caller's.
\<close>

definition http_ready :: "region list \<Rightarrow> cw_conf \<Rightarrow> bool" where
  "http_ready rs cf \<longleftrightarrow> core_ready cf \<and> (\<exists>n. (c_ctx cf, n) \<in> set rs \<and> 0 < unat n)"

text \<open>What a directive that allocates from the configuration's pool relies on.\<close>

lemma args_ok_pcalloc:
  assumes ok: "args_ok rs cf" and p: "cw_pcalloc (c_heap cf) (c_pool cf) n = (h1, p1, a)"
  shows "args_ok rs (cf\<lparr>c_heap := h1, c_pool := p1, c_ptrs := ptrs\<rparr>)"
    and "others h1 p1 = others (c_heap cf) (c_pool cf)"
    and "a \<noteq> 0 \<Longrightarrow> r \<in> set rs \<Longrightarrow> rdisj (a, n) r" and "a \<noteq> 0 \<Longrightarrow> unat a + unat n < 2 ^ 64"
proof -
  obtain rs' where r: "array_inv (c_heap cf) (c_pool cf) (c_args cf) rs'" "set rs \<subseteq> set rs'"
    "\<forall>w\<in>set (c_words cf). word_in rs' w"
    using ok by (auto simp: args_ok_def)
  then have inv: "array_ok (c_args cf)" "pool_inv (c_heap cf) (c_pool cf) (arr_region (c_args cf) # rs')"
    by (simp_all add: array_inv_def)
  show "others h1 p1 = others (c_heap cf) (c_pool cf)" by (rule took_others [OF cw_pcalloc_took [OF inv(2) p]])
  have q: "pool_inv h1 p1 ((a, n) # arr_region (c_args cf) # rs')" if "a \<noteq> 0"
    by (rule cw_pcalloc_granted(1) [OF inv(2) p that])
  have "pool_inv h1 p1 (arr_region (c_args cf) # rs')"
    using cw_pcalloc_refused [OF inv(2)] p q [THEN pool_inv_drop] by (cases "a = 0") auto
  then show "args_ok rs (cf\<lparr>c_heap := h1, c_pool := p1, c_ptrs := ptrs\<rparr>)"
    unfolding args_ok_def using r inv(1) ok by (intro conjI exI [of _ rs']) (simp_all add: array_inv_def args_ok_def)
  show "rdisj (a, n) r" if "a \<noteq> 0" "r \<in> set rs" using pool_invD(4) [OF q [OF that(1)]] that(2) r(2) by auto
  show "unat a + unat n < 2 ^ 64" if "a \<noteq> 0" using pool_region_bound [OF q [OF that], of "(a, n)"] by simp
qed

lemma cleared_apart:
  assumes "rdisj (a, n) (c, k)" "unat a + unat n < 2 ^ 64" "0 < unat k"
  shows "clear_cells ptrs a n c = ptrs c"
proof -
  have "inside c (c, k)" using assms(3) by (simp add: inside_def)
  then have "\<not> inside c (a, n)" using inside_disjoint assms(1) rdisj_sym by blast
  then have "\<not> c - a < n" using assms(2) by (simp add: offset_less_iff)
  then show ?thesis by (simp add: clear_cells_def)
qed

lemma http_block_keeps:
  assumes ok: "args_ok rs cf" and rd: "http_ready rs cf"
    and c: "cw_http_block cf (c_ctx cf + 8) = (cf', rv)"
  shows "keeps rs cf cf' \<and> http_ready rs cf'" and "c_ptrs cf' (c_ctx cf) = c_ptrs cf (c_ctx cf)"
proof -
  obtain h1 p1 ctx where p: "cw_pcalloc (c_heap cf) (c_pool cf) sizeof_cw_http_conf_ctx = (h1, p1, ctx)"
    using prod_cases3 by blast
  note P = args_ok_pcalloc [OF ok p]
  obtain n where n: "(c_ctx cf, n) \<in> set rs" "0 < unat n" using rd by (auto simp: http_ready_def)
  let ?ptrs = "(clear_cells (c_ptrs cf) ctx sizeof_cw_http_conf_ctx)(c_ctx cf + 8 := ctx)"
  consider "cf' = cf"
    | ptrs where "cf' = cf\<lparr>c_heap := h1, c_pool := p1, c_ptrs := ptrs\<rparr>" "ptrs (c_ctx cf) = c_ptrs cf (c_ctx cf)"
  proof (cases "c_ptrs cf (c_ctx cf + 8) \<noteq> 0")
    case True
    then show thesis using c that(1) by (auto simp: cw_http_block_def)
  next
    case False
    then have eq: "cf' = (if ctx = 0 then cf\<lparr>c_heap := h1, c_pool := p1, c_ptrs := c_ptrs cf\<rparr>
        else cf\<lparr>c_heap := h1, c_pool := p1, c_ptrs := ?ptrs\<rparr>)"
      using c p by (auto simp: cw_http_block_def Let_def)
    have "?ptrs (c_ctx cf) = c_ptrs cf (c_ctx cf)" if "ctx \<noteq> 0"
      using cleared_apart [OF P(3) [OF that n(1)] P(4) [OF that] n(2)] by simp
    then show thesis using that(2) [of "if ctx = 0 then c_ptrs cf else ?ptrs"] eq by (cases "ctx = 0") auto
  qed
  then have "keeps rs cf cf' \<and> http_ready rs cf' \<and> c_ptrs cf' (c_ctx cf) = c_ptrs cf (c_ctx cf)"
  proof cases
    case 1
    then show ?thesis using ok rd by (simp add: keeps_def)
  next
    case 2
    then show ?thesis
      using P(1,2) rd by (simp add: keeps_def steady_def http_ready_def core_ready_def)
  qed
  then show "keeps rs cf cf' \<and> http_ready rs cf'" and "c_ptrs cf' (c_ctx cf) = c_ptrs cf (c_ctx cf)" by blast+
qed

interpretation http_table: directive_table "http_modules ncpu" "http_ready rs" rs for ncpu rs
proof unfold_locales
  fix m cmd cf cf' rv
  assume a: "m \<in> set (http_modules ncpu)" "cmd \<in> set (m_commands m)" "args_ok rs cf" "words_ok cf" "c_words cf \<noteq> []"
    "http_ready rs cf" "args_valid (cmd_type cmd) (a_nelts (c_args cf))"
    "cmd_set cmd cf (conf_context cf m cmd) = (cf', rv)"
  have core: "core_ready cf" using a(6) by (simp add: http_ready_def)
  from a(1,2) consider "m = (cw_core_module ncpu)\<lparr>m_index := 0\<rparr>" "cw_core_commands ncpu = [cmd]"
    | "m = cw_http_module\<lparr>m_index := 1\<rparr>" "cw_http_commands = [cmd]"
    by (auto simp: modules_eq cw_core_commands_def cw_http_commands_def)
  then show "keeps rs cf cf' \<and> http_ready rs cf'"
  proof cases
    case 1
    note t = core_command [OF 1(2)]
    have x: "conf_context cf m cmd = c_ptrs cf (c_ctx cf)" by (rule t(3)) (simp add: 1(1))
    have "a_nelts (c_args cf) = 2" using two_words [OF a(4,5)] a(7) t(1) by simp
    have c: "cw_set_worker_processes ncpu cf (c_ptrs cf (c_ctx cf)) = (cf', rv)" using a(8) unfolding t(2) x .
    note k = set_worker_processes_keeps [OF a(3) \<open>a_nelts (c_args cf) = 2\<close> core c]
    have "http_ready rs cf'" using k(2,4) a(6) unfolding http_ready_def by simp
    then show ?thesis using k(1) by blast
  next
    case 2
    note t = http_command [OF 2(2)]
    have x: "conf_context cf m cmd = c_ctx cf + 8" by (rule t(2)) (simp add: 2(1))
    show ?thesis by (rule http_block_keeps(1) [OF a(3,6)]) (use a(8) t(1) x in simp)
  qed
next
  fix cf cf1
  assume "same_conf cf cf1" "http_ready rs cf"
  then show "http_ready rs cf1" by (simp add: same_conf_def http_ready_def core_ready_def)
qed

end
