(* ===== verification/Core_Config.thy ===== *)
theory Core_Config
  imports Core_Module Conf_Language
begin

text \<open>
  What a configuration file means to the program: the step functions of the directives of the
  core module and of the http module, and the proofs that the code's directives implement them.
\<close>

section \<open>What the directives mean\<close>

definition wp_value :: "int \<Rightarrow> u8 list \<Rightarrow> int option" where
  "wp_value ncpu v =
     (if cstr v = auto_name then Some ncpu else if cw_atoi v = CW_ERROR then None else Some (cw_atoi v))"

text \<open>
  The core module: the number of worker processes, \<open>CW_CONF_UNSET\<close> until it is set, and
  it can be set once.
\<close>

definition core_step :: "int \<Rightarrow> int \<Rightarrow> int \<Rightarrow> u8 list list \<Rightarrow> int option" where
  "core_step ncpu wp rc ws =
     (if rc = CW_OK \<and> wp = CW_CONF_UNSET \<and> length ws = 2 \<and> ws ! 0 = worker_processes_name
      then wp_value ncpu (ws ! 1) else None)"

text \<open>
  With the http module: also whether \<open>http\<close> was seen.  The directive takes the opening
  brace as its end; what would be its block is read as directives of the file.
\<close>

definition http_step :: "int \<Rightarrow> int \<times> bool \<Rightarrow> int \<Rightarrow> u8 list list \<Rightarrow> (int \<times> bool) option" where
  "http_step ncpu st rc ws =
     (if rc = CW_CONF_BLOCK_START
      then if ws = [http_name] \<and> \<not> snd st then Some (fst st, True) else None
      else map_option (\<lambda>n. (n, snd st)) (core_step ncpu (fst st) rc ws))"

definition core_wp :: "cw_conf \<Rightarrow> int" where
  "core_wp cf = cc_worker_processes (the (c_core cf (c_ptrs cf (c_ctx cf))))"

definition http_view :: "cw_conf \<Rightarrow> int \<times> bool" where
  "http_view cf = (core_wp cf, c_ptrs cf (c_ctx cf + 8) \<noteq> 0)"

section \<open>The directives of a name\<close>

lemma clean_tables: "clean_names (core_modules ncpu)" "clean_names (http_modules ncpu)"
  using names_clean
  by (auto simp: clean_names_def modules_eq cw_core_commands_def cw_http_commands_def)

definition the_core :: "int \<Rightarrow> cw_module \<times> cw_command" where
  "the_core ncpu = ((cw_core_module ncpu)\<lparr>m_index := 0\<rparr>, hd (cw_core_commands ncpu))"

definition the_http :: "cw_module \<times> cw_command" where
  "the_http = (cw_http_module\<lparr>m_index := 1\<rparr>, hd cw_http_commands)"

lemma named_tables:
  "named cf (core_modules ncpu) = (if directive_name cf = worker_processes_name then [the_core ncpu] else [])"
  "named cf (http_modules ncpu) = (if directive_name cf = worker_processes_name then [the_core ncpu]
     else if directive_name cf = http_name then [the_http] else [])"
  using names_clean(3)
  by (auto simp: named_def modules_eq the_core_def the_http_def cw_core_commands_def cw_http_commands_def)

lemma placed_tables:
  assumes "core_ready cf"
  shows "placed cf (the_core ncpu)" "placed cf the_http"
  using assms
  by (simp_all add: placed_def the_core_def the_http_def core_ready_def cw_core_commands_def cw_http_commands_def conf_bits)

lemma word_count:
  assumes "words_ok cf" and "c_words cf \<noteq> []"
  shows "a_nelts (c_args cf) \<noteq> 0" and "unat (a_nelts (c_args cf)) = length (words_of cf)"
    and "k < length (words_of cf) \<Longrightarrow> s_bytes (arg_value cf k) = words_of cf ! k"
    and "directive_name cf = words_of cf ! 0"
proof -
  have c: "counted cf" by (rule words_ok_counted [OF assms(1)])
  show "a_nelts (c_args cf) \<noteq> 0" "unat (a_nelts (c_args cf)) = length (words_of cf)"
    using c assms(2) counted_empty [OF c] by (simp_all add: counted_def words_of_def)
  show v: "s_bytes (arg_value cf k) = words_of cf ! k" if "k < length (words_of cf)" for k
    using arg_value_word [OF assms(1), of k] that by (simp add: words_of_def)
  show "directive_name cf = words_of cf ! 0" using v [of 0] assms(2) by (simp add: directive_name_def words_of_def)
qed

section \<open>\<open>worker_processes\<close>\<close>

lemma run_core_eq:
  assumes cnt: "words_ok cf" and ne: "c_words cf \<noteq> []"
  shows "run_command cf lst (fst (the_core ncpu)) (snd (the_core ncpu)) =
     (if lst \<noteq> CW_OK then (CW_ERROR, logged (NotTerminated (directive_name cf)) cf)
      else if length (words_of cf) \<noteq> 2 then (CW_ERROR, logged (InvalidArgs (directive_name cf)) cf)
      else case cw_set_worker_processes ncpu cf (c_ptrs cf (c_ctx cf)) of
             (cf1, ConfOk) \<Rightarrow> (CW_OK, cf1)
           | (cf1, ConfError) \<Rightarrow> (CW_ERROR, cf1)
           | (cf1, ConfMsg msg) \<Rightarrow> (CW_ERROR, logged (DirectiveMsg (directive_name cf) msg) cf1))"
proof -
  have cmds: "cw_core_commands ncpu = [snd (the_core ncpu)]" by (simp add: the_core_def cw_core_commands_def)
  note t = core_command [OF cmds]
  note W = word_count [OF cnt ne]
  have ctx: "conf_context cf (fst (the_core ncpu)) (snd (the_core ncpu)) = c_ptrs cf (c_ctx cf)"
    by (rule t(3)) (simp add: the_core_def)
  have n2: "a_nelts (c_args cf) = 2 \<longleftrightarrow> length (words_of cf) = 2"
    using W(2) by (auto simp: word_unat_eq_iff)
  show ?thesis
    unfolding run_command_def Let_def ctx t(1,2) args_valid_take1 [OF W(1)] n2 by (simp add: type_bits(3))
qed

text \<open>The handler stores what the word stands for, unless the directive was given before.\<close>

lemma set_worker_processes_eq:
  assumes len: "a_nelts (c_args cf) = 2" and ccf: "c_core cf (c_ptrs cf (c_ctx cf)) = Some ccf"
    and v: "s_bytes (arg_value cf 1) = v" and unset: "cc_worker_processes ccf = CW_CONF_UNSET"
    and st: "\<And>n. st n = cf\<lparr>c_core := (c_core cf)(c_ptrs cf (c_ctx cf) \<mapsto> ccf\<lparr>cc_worker_processes := n\<rparr>)\<rparr>"
  shows "cw_set_worker_processes ncpu cf (c_ptrs cf (c_ctx cf)) =
    (case wp_value ncpu v of Some n \<Rightarrow> (st n, ConfOk) | None \<Rightarrow> (st CW_ERROR, ConfMsg ''invalid value''))"
  using len ccf v unset cstr_id [of auto_name]
  by (auto simp: cw_set_worker_processes_def wp_value_def cw_strcmp_eq_def auto_name_def Let_def st)

lemma run_core:
  assumes rdy: "core_ready cf" and cnt: "words_ok cf" and ne: "c_words cf \<noteq> []"
    and nm: "directive_name cf = worker_processes_name"
    and r: "run_command cf lst (fst (the_core ncpu)) (snd (the_core ncpu)) = (rc, cf')"
  shows "c_sys cf' = c_sys cf \<and> c_ptrs cf' = c_ptrs cf \<and> c_ctx cf' = c_ctx cf \<and>
    (case core_step ncpu (core_wp cf) lst (words_of cf) of
       Some n \<Rightarrow> rc = CW_OK \<and> core_wp cf' = n \<and> later cf cf'
     | None \<Rightarrow> rc = CW_ERROR)"
proof -
  note run = run_core_eq [OF cnt ne, of lst ncpu]
  note W = word_count [OF cnt ne]
  have n2: "a_nelts (c_args cf) = 2 \<longleftrightarrow> length (words_of cf) = 2"
    using W(2) by (auto simp: word_unat_eq_iff)
  obtain ccf where ccf: "c_core cf (c_ptrs cf (c_ctx cf)) = Some ccf"
    using rdy by (auto simp: core_ready_def)
  have wp: "core_wp cf = cc_worker_processes ccf" by (simp add: core_wp_def ccf)
  show ?thesis
  proof (cases "lst = CW_OK \<and> length (words_of cf) = 2 \<and> core_wp cf = CW_CONF_UNSET")
    case False
    then have "core_step ncpu (core_wp cf) lst (words_of cf) = None" by (auto simp: core_step_def)
    moreover have "length (words_of cf) = 2 \<Longrightarrow> \<not> a_nelts (c_args cf) < 2" using n2 by simp
    ultimately show ?thesis
      using r False ccf wp unfolding run by (auto simp: cw_set_worker_processes_def split: if_splits)
  next
    case all: True
    let ?v = "words_of cf ! 1"
    define st where "st = (\<lambda>n. cf\<lparr>c_core := (c_core cf)(c_ptrs cf (c_ctx cf) \<mapsto> ccf\<lparr>cc_worker_processes := n\<rparr>)\<rparr>)"
    have set: "cw_set_worker_processes ncpu cf (c_ptrs cf (c_ctx cf)) =
        (case wp_value ncpu ?v of Some n \<Rightarrow> (st n, ConfOk) | None \<Rightarrow> (st CW_ERROR, ConfMsg ''invalid value''))"
      using all n2 W(3) [of 1] wp by (intro set_worker_processes_eq [OF _ ccf]) (simp_all add: st_def)
    have step: "core_step ncpu (core_wp cf) lst (words_of cf) = wp_value ncpu ?v"
      using all nm W(4) by (simp add: core_step_def)
    have "core_wp (st n) = n" "later cf (st n)" "c_sys (st n) = c_sys cf" "c_ptrs (st n) = c_ptrs cf"
      "c_ctx (st n) = c_ctx cf" for n
      by (simp_all add: core_wp_def later_def st_def)
    then show ?thesis
      using r all unfolding run set step by (cases "wp_value ncpu ?v") auto
  qed
qed

lemma core_step_name: "core_step ncpu wp rc ws = Some n \<Longrightarrow> ws ! 0 = worker_processes_name \<and> rc = CW_OK"
  by (simp add: core_step_def split: if_splits)

lemma core_handler:
  assumes a: "args_ok rs cf" "words_ok cf" "c_words cf \<noteq> []" "core_ready cf"
    "cw_conf_handler (core_modules ncpu) cf lst = (rc, cf')"
  shows "c_sys cf' = c_sys cf \<and> (case core_step ncpu (core_wp cf) lst (words_of cf) of
      None \<Rightarrow> rc = CW_ERROR
    | Some st \<Rightarrow> rc = CW_OK \<and> core_wp cf' = st \<and> later cf cf')"
proof -
  note W = word_count [OF a(2,3)]
  have h: "(rc, cf') = (if directive_name cf = worker_processes_name
       then run_command cf lst (fst (the_core ncpu)) (snd (the_core ncpu))
       else (CW_ERROR, logged (UnknownDirective (directive_name cf)) cf))"
    using a(5) placed_tables(1) [OF a(4), of ncpu]
    by (simp add: handler_lookup [OF clean_tables(1)] named_tables split: prod.splits if_splits)
  show ?thesis
  proof (cases "directive_name cf = worker_processes_name")
    case True
    then show ?thesis using run_core [OF a(4,2,3) True, of lst ncpu rc cf'] h by (auto split: option.splits)
  next
    case False
    then have "core_step ncpu (core_wp cf) lst (words_of cf) = None" using W(4) by (simp add: core_step_def)
    then show ?thesis using h False by simp
  qed
qed

interpretation core_lang: directive_language "core_modules ncpu" core_ready rs core_wp "core_step ncpu" for ncpu rs
proof unfold_locales
  fix cf cf' lst rc
  assume a: "args_ok rs cf" "words_ok cf" "c_words cf \<noteq> []" "core_ready cf"
    "cw_conf_handler (core_modules ncpu) cf lst = (rc, cf')"
  show "c_sys cf' = c_sys cf \<and> (case core_step ncpu (core_wp cf) lst (words_of cf) of
      None \<Rightarrow> rc = CW_ERROR
    | Some st \<Rightarrow> rc = CW_OK \<and> core_wp cf' = st \<and> later cf cf' \<or> rc = CW_ERROR \<and> refusal (c_heap cf) (c_heap cf'))"
    using core_handler [OF a] by (simp split: option.splits)
next
  fix cf cf1
  assume "same_conf cf cf1"
  then show "core_wp cf1 = core_wp cf" by (simp add: same_conf_def core_wp_def)
qed

section \<open>\<open>http\<close>\<close>

lemma http_block_world:
  assumes "cw_http_block cf conf = (cf', rv)"
  shows "c_sys cf' = c_sys cf" "c_log cf' = c_log cf" "c_ctx cf' = c_ctx cf" "c_core cf' = c_core cf"
    "later cf cf'" "rv = ConfOk \<Longrightarrow> c_ptrs cf conf = 0 \<and> c_ptrs cf' conf \<noteq> 0"
    "c_ptrs cf conf \<noteq> 0 \<Longrightarrow> rv \<noteq> ConfOk"
proof -
  obtain h1 p1 ctx where p: "cw_pcalloc (c_heap cf) (c_pool cf) sizeof_cw_http_conf_ctx = (h1, p1, ctx)"
    using prod_cases3 by blast
  obtain h2 where q: "cw_palloc (c_heap cf) (c_pool cf) sizeof_cw_http_conf_ctx = (h2, p1, ctx)"
      and h: "h1 = (if ctx \<noteq> 0 then h2\<lparr>h_mem := cw_memset (h_mem h2) ctx 0 sizeof_cw_http_conf_ctx\<rparr> else h2)"
    using p by (auto simp: cw_pcalloc_def Let_def split: prod.splits)
  have "h_refused (c_heap cf) \<le> h_refused h1" "h_libc h1 = h_libc (c_heap cf)"
    using cw_palloc_counts [OF q] cw_palloc_frame [OF q] by (simp_all add: h)
  then show "c_sys cf' = c_sys cf" "c_log cf' = c_log cf" "c_ctx cf' = c_ctx cf" "c_core cf' = c_core cf"
    "later cf cf'" "rv = ConfOk \<Longrightarrow> c_ptrs cf conf = 0 \<and> c_ptrs cf' conf \<noteq> 0"
    "c_ptrs cf conf \<noteq> 0 \<Longrightarrow> rv \<noteq> ConfOk"
    using assms p by (auto simp: cw_http_block_def Let_def later_def split: if_splits)
qed

lemma http_block_fails:
  assumes ok: "args_ok rs cf" and z: "c_ptrs cf conf = 0" and c: "cw_http_block cf conf = (cf', rv)" and rv: "rv \<noteq> ConfOk"
  shows "rv = ConfError \<and> refusal (c_heap cf) (c_heap cf')"
proof -
  obtain h1 p1 ctx where p: "cw_pcalloc (c_heap cf) (c_pool cf) sizeof_cw_http_conf_ctx = (h1, p1, ctx)"
    using prod_cases3 by blast
  have ctx: "ctx = 0" "rv = ConfError" "c_heap cf' = h1"
    using c p z rv by (auto simp: cw_http_block_def Let_def split: if_splits)
  obtain rs' where "pool_inv (c_heap cf) (c_pool cf) rs'" using ok by (auto simp: args_ok_def array_inv_def)
  then have "refusal (c_heap cf) h1" by (rule cw_pcalloc_refused(4) [OF _ p [unfolded ctx(1)]])
  then show ?thesis using ctx by simp
qed

lemma http_command_args: "n \<noteq> 0 \<Longrightarrow> args_valid (cmd_type (snd the_http)) n \<longleftrightarrow> n = 1"
  using args_valid_noargs by (simp add: the_http_def cw_http_commands_def)

lemma run_http:
  assumes ok: "args_ok rs cf" and rdy: "http_ready rs cf" and cnt: "words_ok cf" and ne: "c_words cf \<noteq> []"
    and nm: "directive_name cf = http_name"
    and r: "run_command cf lst (fst the_http) (snd the_http) = (rc, cf')"
  shows "c_sys cf' = c_sys cf \<and>
    (case http_step ncpu (http_view cf) lst (words_of cf) of
       Some st \<Rightarrow> rc = CW_OK \<and> http_view cf' = st \<and> later cf cf' \<or> rc = CW_ERROR \<and> refusal (c_heap cf) (c_heap cf')
     | None \<Rightarrow> rc = CW_ERROR)"
proof -
  have cmds: "cw_http_commands = [snd the_http]" by (simp add: the_http_def cw_http_commands_def)
  note t = http_command [OF cmds]
  note W = word_count [OF cnt ne]
  have ty: "cmd_type (snd the_http) AND CW_CONF_BLOCK \<noteq> 0"
    by (simp add: the_http_def cw_http_commands_def conf_bits)
  have ctx: "conf_context cf (fst the_http) (snd the_http) = c_ctx cf + 8"
    by (rule t(2)) (simp add: the_http_def)
  have n1: "a_nelts (c_args cf) = 1 \<longleftrightarrow> words_of cf = [http_name]"
    using W(2,4) nm by (auto simp: word_unat_eq_iff length_Suc_conv)
  have run: "run_command cf lst (fst the_http) (snd the_http) =
     (if lst \<noteq> CW_CONF_BLOCK_START then (CW_ERROR, logged (NoOpening (directive_name cf)) cf)
      else if words_of cf \<noteq> [http_name] then (CW_ERROR, logged (InvalidArgs (directive_name cf)) cf)
      else case cw_http_block cf (c_ctx cf + 8) of
             (cf1, ConfOk) \<Rightarrow> (CW_OK, cf1)
           | (cf1, ConfError) \<Rightarrow> (CW_ERROR, cf1)
           | (cf1, ConfMsg msg) \<Rightarrow> (CW_ERROR, logged (DirectiveMsg (directive_name cf) msg) cf1))"
    unfolding run_command_def Let_def ctx t(1) http_command_args [OF W(1)] n1 using ty by simp
  have core: "core_step ncpu w lst (words_of cf) = None" for w
    using W(4) nm names_clean(3) by (simp add: core_step_def)
  obtain cf1 rv where b: "cw_http_block cf (c_ctx cf + 8) = (cf1, rv)" by fastforce
  note B = http_block_world [OF b]
  note P = http_block_keeps(2) [OF ok rdy b]
  have wp: "core_wp cf1 = core_wp cf" using P B(3,4) by (simp add: core_wp_def)
  show ?thesis
  proof (cases "lst = CW_CONF_BLOCK_START \<and> words_of cf = [http_name] \<and> c_ptrs cf (c_ctx cf + 8) = 0")
    case False
    have "http_step ncpu (http_view cf) lst (words_of cf) = None"
      using False core by (auto simp: http_step_def http_view_def)
    then show ?thesis using r False B(1,7) unfolding run b by (auto split: if_splits conf_rv.splits)
  next
    case True
    then have s: "http_step ncpu (http_view cf) lst (words_of cf) = Some (core_wp cf, True)"
      by (simp add: http_step_def http_view_def)
    have "http_view cf1 = (core_wp cf, True)" if "rv = ConfOk"
      using B(3,6) that wp by (simp add: http_view_def)
    then show ?thesis
      using r True B(1,5) http_block_fails [OF ok _ b] unfolding run b s by (cases rv) auto
  qed
qed

interpretation http_lang: directive_language "http_modules ncpu" "http_ready rs" rs http_view "http_step ncpu" for ncpu rs
proof unfold_locales
  fix cf cf' lst rc
  assume a: "args_ok rs cf" "words_ok cf" "c_words cf \<noteq> []" "http_ready rs cf"
    "cw_conf_handler (http_modules ncpu) cf lst = (rc, cf')"
  note W = word_count [OF a(2,3)]
  have core: "core_ready cf" using a(4) by (simp add: http_ready_def)
  have h: "(rc, cf') = (if directive_name cf = worker_processes_name
       then run_command cf lst (fst (the_core ncpu)) (snd (the_core ncpu))
       else if directive_name cf = http_name then run_command cf lst (fst the_http) (snd the_http)
       else (CW_ERROR, logged (UnknownDirective (directive_name cf)) cf))"
    unfolding a(5) [symmetric] using placed_tables(1) [OF core, of ncpu] placed_tables(2) [OF core]
    by (simp add: handler_lookup [OF clean_tables(2)] named_tables split_beta)
  show "c_sys cf' = c_sys cf \<and> (case http_step ncpu (http_view cf) lst (words_of cf) of
      None \<Rightarrow> rc = CW_ERROR
    | Some st \<Rightarrow> rc = CW_OK \<and> http_view cf' = st \<and> later cf cf' \<or> rc = CW_ERROR \<and> refusal (c_heap cf) (c_heap cf'))"
  proof (cases "directive_name cf = worker_processes_name")
    case True
    have "words_of cf \<noteq> [http_name]" using W(4) True names_clean(3) by auto
    then have s: "http_step ncpu (http_view cf) lst (words_of cf) =
        map_option (\<lambda>n. (n, snd (http_view cf))) (core_step ncpu (core_wp cf) lst (words_of cf))"
      by (auto simp: http_step_def http_view_def core_step_def conf_codes)
    have v: "c_ptrs cf' = c_ptrs cf \<Longrightarrow> c_ctx cf' = c_ctx cf \<Longrightarrow> http_view cf' = (core_wp cf', snd (http_view cf))"
      by (simp add: http_view_def)
    show ?thesis
      using run_core [OF core a(2,3) True, of lst ncpu rc cf'] h True v unfolding s by (auto split: option.splits)
  next
    case nc: False
    then have c0: "core_step ncpu w lst (words_of cf) = None" for w using W(4) by (simp add: core_step_def)
    show ?thesis
    proof (cases "directive_name cf = http_name")
      case True
      then have "run_command cf lst (fst the_http) (snd the_http) = (rc, cf')" using h nc by simp
      then show ?thesis by (rule run_http [OF a(1,4,2,3) True])
    next
      case False
      then have "http_step ncpu (http_view cf) lst (words_of cf) = None"
        using c0 W(4) by (auto simp: http_step_def)
      then show ?thesis using h nc False by simp
    qed
  qed
next
  fix cf cf1
  assume "same_conf cf cf1"
  then show "http_view cf1 = http_view cf" by (simp add: same_conf_def core_wp_def http_view_def)
qed

end
