(* ===== verification/Conf_Parse_Props.thy ===== *)
theory Conf_Parse_Props
  imports Core_Config Conf_Token_Props
begin

text \<open>
  The properties of the configuration parser: \<open>cw_conf_handler\<close>, \<open>cw_conf_parse\<close> and
  \<open>cw_conf_param\<close> with the tables of the program.
\<close>

section \<open>A state to parse in\<close>

definition demo_core :: cw_core_conf where
  "demo_core =
     \<lparr>cc_daemon = CW_CONF_UNSET, cc_master = CW_CONF_UNSET, cc_timer_resolution = -1, cc_shutdown_timeout = -1,
      cc_worker_processes = CW_CONF_UNSET, cc_debug_points = CW_CONF_UNSET, cc_rlimit_nofile = CW_CONF_UNSET,
      cc_rlimit_core = CW_CONF_UNSET, cc_priority = 0, cc_env = demo_array\<rparr>"

definition demo_main :: "u8 list \<Rightarrow> cw_conf" where
  "demo_main txt = (demo_conf txt)\<lparr>c_file := None, c_ptrs := (\<lambda>x. 0)(4192 := 32768),
     c_core := Map.empty(32768 \<mapsto> demo_core), c_ctx := 4192\<rparr>"

lemma demo_main_ready: "core_ready (demo_main txt)" "http_ready [(4192, 40)] (demo_main txt)"
  "core_wp (demo_main txt) = CW_CONF_UNSET" "http_view (demo_main txt) = (CW_CONF_UNSET, False)"
  by (auto simp: core_ready_def http_ready_def demo_main_def demo_conf_def core_wp_def demo_core_def http_view_def)

lemma demo_main_args: "args_ok [(4192, 40)] (demo_main txt)"
  using demo_conf_args [of "txt"] by (simp add: args_ok_def demo_main_def)

lemma demo_main_served: "served txt (c_sys (demo_main txt)) 3 name"
  by (auto simp: served_def demo_main_def demo_conf_def demo_sys_def CW_INVALID_FILE_def)

lemma demo_calm: "length txt < CW_CONF_BUFFER \<Longrightarrow> calm_sys txt 3 (demo_sys txt)"
  by (simp add: calm_sys_def reliable_def demo_sys_def CW_FILE_ERROR_def)

section \<open>Lookup\<close>

text \<open>
  C20: \<open>cw_conf_handler\<close> is a lookup: it runs the first directive, in the order of the
  modules and of their tables, that has the name and may stand here; if there is none, it
  reports an unknown directive when no table has the name, and one that is not allowed here
  otherwise.  In particular a directive found in the wrong place does not hide a later one.
\<close>

theorem cw_conf_handler_lookup:
  assumes "clean_names mods"
  shows "cw_conf_handler mods cf lst =
    (case find (placed cf) (named cf mods) of
       Some (m, c) \<Rightarrow> run_command cf lst m c
     | None \<Rightarrow>
         (CW_ERROR, logged (if named cf mods = [] then UnknownDirective (directive_name cf)
            else NotAllowed (directive_name cf)) cf))"
  using assms by (rule handler_lookup)

text \<open>The word \<open>http\<close> in memory, its structure in the first element of the array.\<close>

definition demo_http :: cw_conf where
  "demo_http = (demo_main [])\<lparr>c_heap := demo_heap\<lparr>h_mem := store_bytes (\<lambda>x. 0) 4232
     ([4, 0, 0, 0, 0, 0, 0, 0, 152, 16, 0, 0, 0, 0, 0, 0] @ http_name)\<rparr>\<rparr>"

lemma demo_http_name: "directive_name demo_http = http_name"
  by (simp add: directive_name_def arg_value_def demo_http_def demo_main_def demo_conf_def demo_array_def str_at_def
      load_word_def mem_bytes_def http_name_def store_bytes_def upt_rec sizeof_cw_str_def)

theorem cw_conf_handler_lookup_witness:
  "cw_conf_handler (core_modules 4) demo_http CW_OK = (CW_ERROR, logged (UnknownDirective http_name) demo_http)"
  using names_clean(3) demo_http_name
  by (simp add: cw_conf_handler_lookup [OF clean_tables(1)] named_tables)

text \<open>
  C21: the number of arguments.  For a directive that lists how many arguments it takes, the
  test reads bit \<open>nelts - 1\<close> of its type, and \<open>argument_number\<close> is never read past its
  eight entries.
\<close>

theorem cw_conf_handler_arguments:
  assumes "n \<noteq> 0" and "type AND (CW_CONF_ANY OR CW_CONF_FLAG OR CW_CONF_1MORE OR CW_CONF_2MORE) = 0"
  shows "args_valid type n \<longleftrightarrow> n \<le> CW_CONF_MAX_ARGS \<and> unat (n - 1) < length argument_number \<and> bit type (unat n - 1)"
proof -
  have "unat (n - 1) < 8" if "n \<le> CW_CONF_MAX_ARGS"
    using that assms(1) unat_gt_0 [of n]
    by (simp add: unat_minus_one word_le_nat_alt CW_CONF_MAX_ARGS_def)
  then show ?thesis using args_valid_bit [OF assms] by (auto simp: argument_number_def)
qed

theorem cw_conf_handler_arguments_witness:
  "args_valid (CW_MAIN_CONF OR CW_CONF_TAKE2) 3 \<and> \<not> args_valid (CW_MAIN_CONF OR CW_CONF_TAKE2) 2"
  using cw_conf_handler_arguments [of 3 "CW_MAIN_CONF OR CW_CONF_TAKE2"]
    cw_conf_handler_arguments [of 2 "CW_MAIN_CONF OR CW_CONF_TAKE2"]
  by (simp add: conf_bits argument_number_def bit_iff_odd)

section \<open>Files\<close>

text \<open>
  C22: \<open>cw_conf_parse\<close> on a file returns, whatever the file holds and whatever the C
  library and the system answer, and gives everything back: the descriptor it opened is
  closed, its buffer is freed, \<open>cf->conf_file\<close> is the caller's again, and no memory is
  held but the pool's.  Array, pool and heap keep their invariants.
\<close>

theorem cw_conf_parse_releases:
  assumes "args_ok rs cf" and "http_ready rs cf" and "mods = core_modules ncpu \<or> mods = http_modules ncpu"
  shows "\<exists>rv cf'. cw_conf_parse mods False junk None cf (Some name) = Some (rv, cf') \<and>
    rv \<in> {ConfOk, ConfError} \<and> released rs cf cf'"
proof -
  have "core_ready cf" using assms(2) by (simp add: http_ready_def)
  then show ?thesis
    using assms(3) core_table.parse_file_ends [OF assms(1), of ncpu junk name]
      http_table.parse_file_ends [OF assms(1,2), of ncpu junk name] by blast
qed

theorem cw_conf_parse_releases_witness:
  "\<exists>rv cf'. cw_conf_parse (http_modules 4) False (demo_file []) None (demo_main [104, 116, 116, 112, 123]) (Some [99]) = Some (rv, cf') \<and>
    sy_fds (c_sys cf') = []"
proof -
  let ?cf = "demo_main [104, 116, 116, 112, 123]"
  have "\<exists>rv cf'. cw_conf_parse (http_modules 4) False (demo_file []) None ?cf (Some [99]) = Some (rv, cf') \<and>
      rv \<in> {ConfOk, ConfError} \<and> released [(4192, 40)] ?cf cf'"
    by (rule cw_conf_parse_releases [OF demo_main_args demo_main_ready(2) disjI2 [OF refl]])
  then show ?thesis by (auto simp: released_def demo_main_def demo_conf_def demo_sys_def)
qed

text \<open>A call on the demonstration state, for the witnesses below.\<close>

lemma demo_parse:
  obtains rv cf' where "cw_conf_parse (http_modules ncpu) False junk None (demo_main bs) (Some name) = Some (rv, cf')"
    and "rv \<in> {ConfOk, ConfError}"
  using http_table.parse_file_ends [OF demo_main_args demo_main_ready(2)] by blast

text \<open>
  C23: the language of the program as it is built.  If \<open>cw_conf_parse\<close> accepts a file, the
  file is a sequence of well-formed directives, \<open>worker_processes\<close> at most once and with
  one argument, and the configuration holds the value it means.  Conversely such a file is
  accepted with that value, unless the C library refused memory, a read or the close failed,
  or a token filled the buffer.  Where reads and the close do what they are asked and the file is
  shorter than the buffer, a refused request for memory is the only reason.
\<close>

theorem cw_conf_parse_language:
  assumes "args_ok rs cf" and "core_ready cf" and "served content (c_sys cf) fd name"
    and "cw_conf_parse (core_modules ncpu) False junk None cf (Some name) = Some (rv, cf')"
  shows "(rv = ConfOk \<longrightarrow> accepts (core_step ncpu) (core_wp cf) content (core_wp cf')) \<and>
    (\<forall>wp. accepts (core_step ncpu) (core_wp cf) content wp \<longrightarrow>
       rv = ConfOk \<and> core_wp cf' = wp \<and> c_log cf' = c_log cf \<or>
       rv = ConfError \<and> parse_trouble cf cf' \<and> (calm_sys content fd (c_sys cf) \<longrightarrow> refusal (c_heap cf) (c_heap cf')))"
  using core_lang.parse_accepts [OF assms] core_lang.parse_refused [OF assms(1-3) _ _ assms(4)] by blast

text \<open>\<open>worker_processes 7;\<close>\<close>

definition demo_text :: "u8 list" where
  "demo_text = worker_processes_name @ [32, 55, 59]"

lemma demo_accepts: "accepts (core_step 4) CW_CONF_UNSET demo_text 7"
  by (simp add: accepts_meaning meaning.simps demo_text_def worker_processes_name_def is_space_def cw_sizes end_code_def
      core_step_def wp_value_def cstr_def auto_name_def cw_atoi_def CW_MAX_INT_T_VALUE_def conf_codes)

text \<open>Reading words back from memory, for evaluation: a byte is looked up in the stores.\<close>

lemma store_at: "store_bytes m a bs x = (if unat (x - a) < length bs then bs ! unat (x - a) else m x)"
  "store_word m a w x = (if unat (x - a) < 8 then word_bytes w ! unat (x - a) else m x)"
  by (simp_all add: store_bytes_def store_word_def)

lemma unat_top: "unat (- 1 :: u64) = 18446744073709551615"
  by (simp add: unsigned_minus_1_eq_mask mask_eq_exp_minus_1)

lemmas load_eval = load_word_def word_bytes_def mem_bytes_def store_at upt_rec unat_top worker_processes_name_def

text \<open>What the scanner stores for \<open>worker_processes 7;\<close>, the array at \<open>e\<close>, the words at \<open>d1\<close> and \<open>d2\<close>.\<close>

definition demo_stored :: "(addr \<Rightarrow> u8) \<Rightarrow> addr \<Rightarrow> addr \<Rightarrow> addr \<Rightarrow> (addr \<Rightarrow> u8)" where
  "demo_stored m e d1 d2 =
     store_word (store_bytes (store_word (store_word (store_bytes (store_word m (e + 8) d1) d1
       (worker_processes_name @ [0])) e 16) (e + 24) d2) d2 [55, 0]) (e + 16) 1"

lemma demo_stored_words:
  assumes "e = 4232 \<and> d1 = 4264 \<and> d2 = 4281 \<or> e = 5632 \<and> d1 = 5792 \<and> d2 = 5809"
  shows "s_bytes (str_at (demo_stored m e d1 d2) e) = worker_processes_name"
    and "s_bytes (str_at (demo_stored m e d1 d2) (e + 16)) = [55]"
proof -
  let ?m = "demo_stored m e d1 d2"
  have l: "load_word ?m e = 16" "load_word ?m (e + 8) = d1" "load_word ?m (e + 16) = 1" "load_word ?m (e + 24) = d2"
    by (use assms in \<open>elim disjE; simp add: demo_stored_def load_eval\<close>)+
  have "mem_bytes ?m d1 16 = worker_processes_name" "mem_bytes ?m d2 1 = [55]"
    by (use assms in \<open>elim disjE; simp add: demo_stored_def load_eval\<close>)+
  then show "s_bytes (str_at ?m e) = worker_processes_name" "s_bytes (str_at ?m (e + 16)) = [55]"
    by (simp_all add: str_at_def l add.assoc)
qed

text \<open>A file read to its end, and the run of a file of one directive.\<close>

definition at_end :: "cw_conf \<Rightarrow> bool" where
  "at_end cf \<longleftrightarrow> (\<exists>f. c_file cf = Some f \<and> bf_pos (cf_buffer f) = bf_last (cf_buffer f) \<and>
     f_size (cf_file f) \<le> f_offset (cf_file f) \<and> cf_dump f = 0)"

lemma read_token_at_end:
  assumes "at_end cf"
  obtains cf1 where "cw_conf_read_token cf = Some (CW_CONF_FILE_DONE, cf1)" "c_sys cf1 = c_sys cf"
  using assms
  by (auto simp: at_end_def cw_conf_read_token_def lex_loop.simps lex_step_def lex_refill_def lex_eof_def lex_init_def)

lemma core_directive:
  assumes "core_ready cf" "directive_name cf = worker_processes_name" "a_nelts (c_args cf) = 2"
    and "core_wp cf = CW_CONF_UNSET" "wp_value ncpu (s_bytes (arg_value cf 1)) = Some n"
  obtains cf' where "cw_conf_handler (core_modules ncpu) cf CW_OK = (CW_OK, cf')" "c_sys cf' = c_sys cf" "c_file cf' = c_file cf"
proof -
  have cmds: "cw_core_commands ncpu = [snd (the_core ncpu)]" by (simp add: the_core_def cw_core_commands_def)
  note t = core_command [OF cmds]
  have ctx: "conf_context cf (fst (the_core ncpu)) (snd (the_core ncpu)) = c_ptrs cf (c_ctx cf)"
    by (rule t(3)) (simp add: the_core_def)
  obtain ccf where ccf: "c_core cf (c_ptrs cf (c_ctx cf)) = Some ccf" using assms(1) by (auto simp: core_ready_def)
  let ?cf = "cf\<lparr>c_core := (c_core cf)(c_ptrs cf (c_ctx cf) \<mapsto> ccf\<lparr>cc_worker_processes := n\<rparr>)\<rparr>"
  have "cw_set_worker_processes ncpu cf (c_ptrs cf (c_ctx cf)) = (?cf, ConfOk)"
    using assms(3-5) ccf cstr_id [of auto_name]
    by (auto simp: cw_set_worker_processes_def core_wp_def wp_value_def cw_strcmp_eq_def auto_name_def Let_def split: if_splits)
  then have "run_command cf CW_OK (fst (the_core ncpu)) (snd (the_core ncpu)) = (CW_OK, ?cf)"
    using args_valid_take1 [of "a_nelts (c_args cf)"] assms(3)
    unfolding run_command_def Let_def ctx t(1,2) by (simp add: type_bits(3))
  then have "cw_conf_handler (core_modules ncpu) cf CW_OK = (CW_OK, ?cf)"
    using placed_tables(1) [OF assms(1), of ncpu] assms(2)
    by (simp add: handler_lookup [OF clean_tables(1)] named_tables split_beta)
  then show thesis by (rule that) simp_all
qed

lemma parse_one_directive:
  assumes op: "parse_open False junk cf name = (cf0, Some (fd, start))" "start \<noteq> 0"
    and t1: "cw_conf_read_token cf0 = Some (CW_OK, cf1)" "at_end cf1" "sy_close (c_sys cf1) = (\<lambda>t fd. 0)"
    and d: "core_ready cf1" "directive_name cf1 = worker_processes_name" "a_nelts (c_args cf1) = 2" "core_wp cf1 = CW_CONF_UNSET"
      "s_bytes (arg_value cf1 1) = [55]"
  obtains cf' where "cw_conf_parse (core_modules ncpu) False junk None cf (Some name) = Some (ConfOk, cf')"
proof -
  have "wp_value ncpu (s_bytes (arg_value cf1 1)) = Some 7"
    unfolding d(5)
    by (simp add: wp_value_def cstr_def auto_name_def cw_atoi_def atoi_loop.simps CW_MAX_INT_T_VALUE_def conf_codes)
  then obtain cf2 where h: "cw_conf_handler (core_modules ncpu) cf1 CW_OK = (CW_OK, cf2)" "c_sys cf2 = c_sys cf1" "c_file cf2 = c_file cf1"
    using core_directive [OF d(1-4)] by metis
  have "at_end cf2" using t1(2) h(3) by (simp add: at_end_def)
  then obtain cf3 where t2: "cw_conf_read_token cf2 = Some (CW_CONF_FILE_DONE, cf3)" "c_sys cf3 = c_sys cf2"
    by (rule read_token_at_end)
  have "parse_loop (core_modules ncpu) None ParseFile cf0 = Some (CW_CONF_FILE_DONE, cf3)"
    using t2(1) by (simp add: core_table.parse_loop_go [OF t1(1) _ h(1)] parse_loop.simps [of _ _ _ cf2] conf_codes)
  then show thesis
    using that t2(2) h(2) t1(3) op(2)
    by (simp add: parse_opened_eq [OF op(1)] loop_from_def parse_close_def cw_close_file_def conf_return_def conf_codes
        CW_FILE_ERROR_def)
qed

definition demo_opened :: cw_conf where
  "demo_opened = fst (parse_open False (demo_file []) (demo_main demo_text) [99])"

lemma demo_open: "parse_open False (demo_file []) (demo_main demo_text) [99] = (demo_opened, Some (3, 5152))"
  unfolding demo_opened_def
  by (simp add: parse_open_def cw_open_file_def cw_fd_info_def demo_main_def demo_conf_def demo_heap_def demo_text_def
      demo_sys_def CW_INVALID_FILE_def CW_CONF_BUFFER_def tick_def pool_eval)

lemma demo_first_token:
  obtains cf1 where "cw_conf_read_token demo_opened = Some (CW_OK, cf1)" "at_end cf1" "sy_close (c_sys cf1) = (\<lambda>t fd. 0)"
    "core_ready cf1" "core_wp cf1 = CW_CONF_UNSET" "a_nelts (c_args cf1) = 2" "a_elts (c_args cf1) = 4232"
    "h_mem (c_heap cf1) = demo_stored (h_mem demo_heap) 4232 4264 4281"
  by (simp add: demo_opened_def parse_open_def cw_open_file_def cw_fd_info_def demo_main_def demo_heap_def demo_text_def
      worker_processes_name_def lex_eval sizeof_cw_str_def new_conf_file_def core_wp_def demo_core_def at_end_def core_ready_def
      set_data_def set_len_def write_bytes_def demo_stored_def)

lemma demo_parsed:
  obtains cf' where "cw_conf_parse (core_modules 4) False (demo_file []) None (demo_main demo_text) (Some [99]) = Some (ConfOk, cf')"
proof -
  obtain cf1 where t: "cw_conf_read_token demo_opened = Some (CW_OK, cf1)" "at_end cf1" "sy_close (c_sys cf1) = (\<lambda>t fd. 0)"
    and d: "core_ready cf1" "core_wp cf1 = CW_CONF_UNSET" "a_nelts (c_args cf1) = 2" "a_elts (c_args cf1) = 4232"
      "h_mem (c_heap cf1) = demo_stored (h_mem demo_heap) 4232 4264 4281"
    by (rule demo_first_token)
  have w: "directive_name cf1 = worker_processes_name" "s_bytes (arg_value cf1 1) = [55]"
    using d(4,5) demo_stored_words [of 4232 4264 4281] by (simp_all add: directive_name_def arg_value_def sizeof_cw_str_def)
  show thesis by (rule parse_one_directive [OF demo_open _ t d(1) w(1) d(3,2) w(2)]) (auto intro: that)
qed

theorem cw_conf_parse_language_witness:
  "\<exists>cf'. cw_conf_parse (core_modules 4) False (demo_file []) None (demo_main demo_text) (Some [99]) =
      Some (ConfOk, cf') \<and> core_wp cf' = 7"
proof -
  obtain cf' where p: "cw_conf_parse (core_modules 4) False (demo_file []) None (demo_main demo_text) (Some [99]) = Some (ConfOk, cf')"
    by (rule demo_parsed)
  have "accepts (core_step 4) CW_CONF_UNSET demo_text (core_wp cf')"
    using cw_conf_parse_language [OF demo_main_args demo_main_ready(1) demo_main_served p, THEN conjunct1]
    unfolding demo_main_ready(3) by simp
  from accepts_unique [OF this demo_accepts] show ?thesis using p by blast
qed

text \<open>
  C24: the block of \<open>http\<close> is never read as a block.  After its opening brace the file goes
  on at the top level: a file with nothing after the brace is accepted, and one where the
  brace is closed is refused.
\<close>

theorem cw_conf_parse_http_block:
  assumes "args_ok rs cf" and "http_ready rs cf" and "served content (c_sys cf) fd name"
    and "cw_conf_parse (http_modules ncpu) False junk None cf (Some name) = Some (rv, cf')"
    and "scan Gap [] [] content = Tokens CW_CONF_BLOCK_START [http_name] rest"
  shows "(\<forall>r. scan Gap [] [] rest = Tokens CW_CONF_BLOCK_DONE [] r \<longrightarrow> rv \<noteq> ConfOk) \<and>
    (\<not> snd (http_view cf) \<and> scan Gap [] [] rest = Tokens CW_CONF_FILE_DONE [] [] \<longrightarrow>
       rv = ConfOk \<and> snd (http_view cf') \<or> rv = ConfError \<and> parse_trouble cf cf')"
proof -
  note A = http_lang.parse_accepts [OF assms(1-4)]
  note t = accepts_tokens [OF assms(5), of "http_step ncpu" "http_view cf"]
  have "\<not> accepts (http_step ncpu) (http_view cf) content w" if "scan Gap [] [] rest = Tokens CW_CONF_BLOCK_DONE [] r" for r w
    using accepts_tokens [OF that, of "http_step ncpu"] unfolding t by (simp add: conf_codes)
  moreover have "accepts (http_step ncpu) (http_view cf) content (fst (http_view cf), True)"
    if "\<not> snd (http_view cf)" "scan Gap [] [] rest = Tokens CW_CONF_FILE_DONE [] []"
    using that accepts_end [OF that(2)] unfolding t by (auto simp: conf_codes http_step_def)
  ultimately show ?thesis using A by (metis snd_conv)
qed

theorem cw_conf_parse_http_block_witness:
  "\<exists>cf'. cw_conf_parse (http_modules 4) False (demo_file []) None (demo_main [104, 116, 116, 112, 123, 125]) (Some [99]) =
      Some (ConfError, cf')"
proof -
  let ?txt = "[104, 116, 116, 112, 123, 125] :: u8 list"
  obtain rv cf' where p: "cw_conf_parse (http_modules 4) False (demo_file []) None (demo_main ?txt) (Some [99]) = Some (rv, cf')"
    and r: "rv \<in> {ConfOk, ConfError}"
    by (rule demo_parse)
  have s: "scan Gap [] [] ?txt = Tokens CW_CONF_BLOCK_START [http_name] [125]"
    by (simp add: is_space_def cw_sizes end_code_def http_name_def)
  have "scan Gap [] [] [125] = Tokens CW_CONF_BLOCK_DONE [] []" by (simp add: is_space_def cw_sizes)
  then have "rv \<noteq> ConfOk"
    using cw_conf_parse_http_block [OF demo_main_args demo_main_ready(2) demo_main_served p s] by blast
  then show ?thesis using p r by auto
qed

text \<open>The head of \<open>conf/cw.conf\<close>, as far as its first block.\<close>

definition shipped_head :: "u8 list" where
  "shipped_head = [10, 35, 117, 115, 101, 114, 32, 32, 110, 111, 98, 111, 100, 121, 59, 10, 119, 111, 114, 107,
    101, 114, 95, 112, 114, 111, 99, 101, 115, 115, 101, 115, 32, 32, 49, 59, 10, 10, 35, 101, 114,
    114, 111, 114, 95, 108, 111, 103, 32, 32, 108, 111, 103, 115, 47, 101, 114, 114, 111, 114, 46,
    108, 111, 103, 59, 10, 35, 101, 114, 114, 111, 114, 95, 108, 111, 103, 32, 32, 108, 111, 103,
    115, 47, 101, 114, 114, 111, 114, 46, 108, 111, 103, 32, 32, 110, 111, 116, 105, 99, 101, 59,
    10, 35, 101, 114, 114, 111, 114, 95, 108, 111, 103, 32, 32, 108, 111, 103, 115, 47, 101, 114,
    114, 111, 114, 46, 108, 111, 103, 32, 32, 105, 110, 102, 111, 59, 10, 10, 35, 112, 105, 100,
    32, 32, 32, 32, 32, 32, 32, 32, 108, 111, 103, 115, 47, 110, 103, 105, 110, 120, 46, 112, 105,
    100, 59, 10, 10, 10, 101, 118, 101, 110, 116, 115, 32, 123]"

text \<open>A directive that no module has: the handler says so, and changes nothing else.\<close>

lemma http_unknown:
  assumes r: "cw_conf_handler (http_modules ncpu) cf lst = (rc, cf')"
    and n: "directive_name cf \<noteq> worker_processes_name" "directive_name cf \<noteq> http_name"
  shows "rc = CW_ERROR" and "cf' = logged (UnknownDirective (directive_name cf)) cf"
  using r n by (simp_all add: handler_lookup [OF clean_tables(2)] named_tables)

lemma words_name: "words_ok cf \<Longrightarrow> c_words cf \<noteq> [] \<Longrightarrow> directive_name cf = hd (words_of cf)"
  using word_count(4) [of cf] by (simp add: words_of_def hd_conv_nth)

lemma closed_log:
  assumes l: "c_log cf2 = c_log cf @ [m]" and c: "parse_close fd name start prev rc cf2 = (rc', cf')"
  shows "c_log cf' = c_log cf @ [m] \<or> parse_trouble cf cf'"
proof -
  have "parse_trouble cf cf'" if "c_log cf' = c_log cf @ [m] @ [CloseFailed name]"
    unfolding parse_trouble_def using that by (intro disjI2 exI [of _ "CloseFailed name"] exI [of _ "[m, CloseFailed name]"]) simp
  then show ?thesis using assms by (auto simp: parse_close_def Let_def split: prod.splits if_splits)
qed

text \<open>The first two tokens of the shipped file.\<close>

definition events_name :: "u8 list" where
  "events_name = [101, 118, 101, 110, 116, 115]"

lemma shipped_tokens:
  "scan Gap [] [] (shipped_head @ bs) = Tokens CW_OK [worker_processes_name, [49]] (drop 36 shipped_head @ bs)"
  "scan Gap [] [] (drop 36 shipped_head @ bs) = Tokens CW_CONF_BLOCK_START [events_name] bs"
  by (simp_all add: shipped_head_def is_space_def cw_sizes end_code_def worker_processes_name_def events_name_def)

lemma events_unknown: "http_step ncpu st CW_CONF_BLOCK_START [events_name] = None"
  "events_name \<noteq> worker_processes_name" "events_name \<noteq> http_name"
  by (simp_all add: http_step_def http_name_def events_name_def worker_processes_name_def)

lemma one_worker: "http_step ncpu (CW_CONF_UNSET, b) CW_OK [worker_processes_name, [49]] = Some (1, b)"
  by (simp add: http_step_def core_step_def wp_value_def cstr_def auto_name_def cw_atoi_def atoi_loop.simps
      CW_MAX_INT_T_VALUE_def conf_codes worker_processes_name_def)

lemma shipped_loop:
  assumes r: "reading rs (shipped_head @ bs) cf f" and rdy: "http_ready rs cf" and u: "fst (http_view cf) = CW_CONF_UNSET"
    and i: "input_of (shipped_head @ bs) f = shipped_head @ bs"
    and p: "parse_loop (http_modules ncpu) None ParseFile cf = Some (rc, cf')"
  shows "rc = CW_ERROR" and "fst (http_view cf') = 1 \<and> c_log cf' = c_log cf @ [UnknownDirective events_name] \<or> trouble cf cf'"
proof -
  have st: "http_step ncpu (http_view cf) CW_OK [worker_processes_name, [49]] = Some (1, snd (http_view cf))"
    using one_worker [of ncpu "snd (http_view cf)"] u by (metis prod.collapse)
  note bl = any_trouble.blame_axioms [of rs "shipped_head @ bs"]
  have "rc = CW_ERROR \<and> (fst (http_view cf') = 1 \<and> c_log cf' = c_log cf @ [UnknownDirective events_name] \<or> trouble cf cf')"
  proof (cases rule: http_lang.loop_directive [OF bl r rdy TrueI p, unfolded i, OF shipped_tokens(1) disjI1 [OF refl] st])
    case 1
    then show ?thesis by simp
  next
    case ran: (2 cf2 f2)
    show ?thesis
    proof (cases rule: http_lang.loop_token [OF bl ran(1,2) TrueI ran(8), unfolded ran(6), OF shipped_tokens(2) disjI2 [OF refl]])
      case 1
      then show ?thesis using trouble_later [OF ran(5)] by simp
    next
      case h: (2 cf3 f3 rc3 cf4)
      have "directive_name cf3 = events_name" using words_name [OF h(9,10)] h(2) by simp
      then have e: "rc3 = CW_ERROR" "cf4 = logged (UnknownDirective events_name) cf3"
        using http_unknown [OF h(1)] events_unknown(2,3) by simp_all
      have "c_log cf3 = c_log cf" using ran(5) h(4) by (simp add: later_def)
      moreover have "http_view (logged (UnknownDirective events_name) cf3) = http_view cf3"
        by (simp add: http_view_def core_wp_def)
      ultimately show ?thesis using e h(3,12) ran(4) by auto
    qed
  qed
  then show "rc = CW_ERROR" and "fst (http_view cf') = 1 \<and> c_log cf' = c_log cf @ [UnknownDirective events_name] \<or> trouble cf cf'"
    by blast+
qed

text \<open>
  C25: the configuration file that comes with the sources, \<open>conf/cw.conf\<close>, is refused, and so
  is every file that begins like it.  What is wrong with it is its \<open>events\<close> block: the
  directive before it, \<open>worker_processes 1;\<close>, is accepted and the configuration holds its
  value, and the one message says that \<open>events\<close> is a directive no module has; unless the C
  library or the system refused something first.
\<close>

theorem cw_conf_parse_shipped:
  assumes "args_ok rs cf" and "http_ready rs cf" and "served (shipped_head @ tl_bytes) (c_sys cf) fd name"
    and "cw_conf_parse (http_modules ncpu) False junk None cf (Some name) = Some (rv, cf')"
  shows "rv \<noteq> ConfOk \<and> (fst (http_view cf) = CW_CONF_UNSET \<longrightarrow>
    fst (http_view cf') = 1 \<and> c_log cf' = c_log cf @ [UnknownDirective events_name] \<or> parse_trouble cf cf')"
proof -
  have "\<not> accepts (http_step ncpu) st (shipped_head @ tl_bytes) st'" for st st'
    unfolding accepts_tokens [OF shipped_tokens(1)] accepts_tokens [OF shipped_tokens(2)]
    using events_unknown(1) by (auto simp: conf_codes)
  then have "rv \<noteq> ConfOk" using http_lang.parse_accepts [OF assms] by blast
  moreover have "fst (http_view cf') = 1 \<and> c_log cf' = c_log cf @ [UnknownDirective events_name] \<or> parse_trouble cf cf'"
    if u: "fst (http_view cf) = CW_CONF_UNSET"
  proof (cases rule: http_lang.parse_served [OF assms])
    case c: (1 start rc rc' cf2)
    show ?thesis
      using c(5)
    proof
      assume "rc = CW_ERROR \<and> parse_trouble cf cf2"
      then show ?thesis using parse_trouble_closed c(1) by blast
    next
      assume "\<exists>cf1 f. reading rs (shipped_head @ tl_bytes) cf1 f \<and> http_ready rs cf1 \<and> http_view cf1 = http_view cf \<and> later cf cf1 \<and>
        input_of (shipped_head @ tl_bytes) f = shipped_head @ tl_bytes \<and>
        parse_loop (http_modules ncpu) None ParseFile cf1 = Some (rc, cf2)"
      then obtain cf1 f where o: "reading rs (shipped_head @ tl_bytes) cf1 f" "http_ready rs cf1" "http_view cf1 = http_view cf"
        "later cf cf1" "input_of (shipped_head @ tl_bytes) f = shipped_head @ tl_bytes"
        and pl: "parse_loop (http_modules ncpu) None ParseFile cf1 = Some (rc, cf2)" by blast
      have "c_log cf1 = c_log cf" using o(4) by (simp add: later_def)
      then show ?thesis
        using shipped_loop(2) [OF o(1,2) _ o(5) pl] u o(3) c(3) closed_log [OF _ c(1), of cf]
          parse_trouble_closed [OF trouble_parse [OF trouble_later [OF o(4)]] c(1)] by auto
    qed
  qed
  ultimately show ?thesis by blast
qed

theorem cw_conf_parse_shipped_witness:
  "\<exists>cf'. cw_conf_parse (http_modules 4) False (demo_file []) None (demo_main (shipped_head @ [125])) (Some [99]) = Some (ConfError, cf')"
proof -
  obtain rv cf' where p: "cw_conf_parse (http_modules 4) False (demo_file []) None (demo_main (shipped_head @ [125])) (Some [99]) = Some (rv, cf')"
    and r: "rv \<in> {ConfOk, ConfError}"
    by (rule demo_parse)
  have "rv \<noteq> ConfOk" using cw_conf_parse_shipped [OF demo_main_args demo_main_ready(2) demo_main_served p] by blast
  then show ?thesis using p r by auto
qed

section \<open>The \<open>-g\<close> option\<close>

text \<open>
  \<open>cw_conf_param\<close> returns on every string, opens nothing, keeps no memory but the
  pool's and leaves the invariants of array, pool and heap.
\<close>

theorem cw_conf_param_ends:
  assumes "args_ok rs cf" and "core_ready cf" and "length (s_bytes (c_param cf)) < 2 ^ 63"
  shows "\<exists>rv cf'. cw_conf_param (core_modules ncpu) dumping junk None cf = Some (rv, cf') \<and>
    rv \<in> {ConfOk, ConfError} \<and> args_ok rs cf' \<and> steady cf cf' \<and> core_ready cf'"
  using core_table.parse_param_ends [OF assms] by blast

theorem cw_conf_param_ends_witness:
  "\<exists>rv cf'. cw_conf_param (core_modules 4) False (demo_file []) None
     ((demo_main [])\<lparr>c_param := \<lparr>s_data = 4096, s_bytes = [123]\<rparr>\<rparr>) = Some (rv, cf') \<and> core_ready cf'"
proof -
  let ?cf = "(demo_main [])\<lparr>c_param := \<lparr>s_data = 4096, s_bytes = [123]\<rparr>\<rparr>"
  have "args_ok [(4192, 40)] ?cf" "core_ready ?cf" "length (s_bytes (c_param ?cf)) < 2 ^ 63"
    using demo_main_args [of "[]"] demo_main_ready(1) [of "[]"] by (simp_all add: args_ok_def core_ready_def)
  from cw_conf_param_ends [OF this] show ?thesis by blast
qed

end
