(* ===== verification/Sockets.thy ===== *)
theory Sockets
  imports Alloc "HOL-Library.Multiset"
begin

text \<open>
  \<open>src/os/unix/cw_socket.[ch]\<close>, \<open>src/os/unix/cw_channel.c\<close> and
  \<open>src/core/cw_connection.[ch]\<close>: sockets, the channel between processes and the listening
  sockets of a cycle.  As for files, \<open>net\<close> holds what the operating system answers to each
  call and the descriptors that are open.
\<close>

section \<open>The operating system\<close>

text \<open>
  A call that can fail answers with an error number, \<open>None\<close> when it succeeds.  Of the
  errors the code tells only \<open>EADDRINUSE\<close> apart.
\<close>

datatype errno = EADDRINUSE | EOTHER

record net =
  nt_socket :: "nat \<Rightarrow> int \<Rightarrow> int \<Rightarrow> int"
  nt_socketpair :: "nat \<Rightarrow> (int \<times> int) option"
  nt_setsockopt :: "nat \<Rightarrow> int \<Rightarrow> errno option"
  nt_ioctl :: "nat \<Rightarrow> int \<Rightarrow> nat \<Rightarrow> int \<Rightarrow> int"
  nt_fcntl :: "nat \<Rightarrow> int \<Rightarrow> nat \<Rightarrow> int \<Rightarrow> int"
  nt_bind :: "nat \<Rightarrow> int \<Rightarrow> addr \<Rightarrow> errno option"
  nt_listen :: "nat \<Rightarrow> int \<Rightarrow> int \<Rightarrow> errno option"
  nt_close :: "nat \<Rightarrow> int \<Rightarrow> errno option"
  nt_time :: nat
  nt_fds :: "int list"

definition nt_tick :: "net \<Rightarrow> net" where
  "nt_tick s = s\<lparr>nt_time := Suc (nt_time s)\<rparr>"

lemma nt_tick_fds [simp]: "nt_fds (nt_tick s) = nt_fds s"
  by (simp add: nt_tick_def)

section \<open>\<open>cw_socket.c\<close> and \<open>cw_socket.h\<close>\<close>

text \<open>\<open>cw_socket\<close> is \<open>socket\<close>, \<open>cw_close_socket\<close> is \<open>close\<close>.\<close>

definition cw_socket :: "net \<Rightarrow> int \<Rightarrow> int \<Rightarrow> net \<times> int" where
  "cw_socket s family type =
     (let fd = nt_socket s (nt_time s) family type; s1 = nt_tick s
      in if fd = -1 then (s1, -1) else (s1\<lparr>nt_fds := fd # nt_fds s1\<rparr>, fd))"

definition cw_close_socket :: "net \<Rightarrow> int \<Rightarrow> net \<times> int" where
  "cw_close_socket s fd =
     (let s1 = nt_tick s
      in (s1\<lparr>nt_fds := remove1 fd (nt_fds s1)\<rparr>, if nt_close s (nt_time s) fd = None then 0 else -1))"

definition FIONBIO :: nat where "FIONBIO = 0x5421"
definition FIOASYNC :: nat where "FIOASYNC = 0x5452"

definition sock_ioctl :: "net \<Rightarrow> int \<Rightarrow> nat \<Rightarrow> int \<Rightarrow> net \<times> int" where
  "sock_ioctl s fd req arg = (nt_tick s, nt_ioctl s (nt_time s) fd req arg)"

definition cw_nonblocking :: "net \<Rightarrow> int \<Rightarrow> net \<times> int" where
  "cw_nonblocking s fd = (let nb = 1 in sock_ioctl s fd FIONBIO nb)"

definition cw_blocking :: "net \<Rightarrow> int \<Rightarrow> net \<times> int" where
  "cw_blocking s fd = (let nb = 0 in sock_ioctl s fd FIONBIO nb)"

section \<open>\<open>cw_channel.c\<close>\<close>

text \<open>The two ends are closed, and a failure is only logged.\<close>

definition cw_close_channel :: "net \<Rightarrow> int \<times> int \<Rightarrow> net" where
  "cw_close_channel s fd =
     (let (s1, r0) = cw_close_socket s (fst fd); (s2, r1) = cw_close_socket s1 (snd fd) in s2)"

section \<open>Listening sockets\<close>

record cw_listening =
  ls_fd :: int
  ls_family :: int
  ls_sockaddr :: addr
  ls_type :: int
  ls_backlog :: int
  ls_ignore :: bool
  ls_listen :: bool

datatype ls_msg =
    SocketFailed
  | SetsockoptFailed
  | NonblockingFailed
  | BindFailed
  | ListenFailed
  | CloseSocketFailed

definition SOCK_STREAM :: int where "SOCK_STREAM = 1"

text \<open>\<open>cw_close_socket\<close> with the message of its failure.\<close>

definition close_logged :: "net \<Rightarrow> ls_msg list \<Rightarrow> int \<Rightarrow> net \<times> ls_msg list" where
  "close_logged s log fd =
     (let (s1, r) = cw_close_socket s fd in (s1, if r = -1 then log @ [CloseSocketFailed] else log))"

text \<open>One element of \<open>cycle->listening\<close>; the flag tells whether the loop goes on.\<close>

definition open_listening ::
    "net \<Rightarrow> ls_msg list \<Rightarrow> cw_listening \<Rightarrow> net \<times> ls_msg list \<times> cw_listening \<times> bool" where
  "open_listening s0 log ls =
     (if ls_ignore ls then (s0, log, ls, True)
      else if ls_fd ls \<noteq> -1 then (s0, log, ls, True)
      else let (s1, s) = cw_socket s0 (ls_family ls) (ls_type ls)
      in if s = -1 then (s1, log @ [SocketFailed], ls, False)
      else if nt_setsockopt s1 (nt_time s1) s \<noteq> None
      then let (s2, log2) = close_logged (nt_tick s1) (log @ [SetsockoptFailed]) s in (s2, log2, ls, False)
      else let (s3, r) = cw_nonblocking (nt_tick s1) s
      in if r = -1
      then let (s4, log4) = close_logged s3 (log @ [NonblockingFailed]) s in (s4, log4, ls, False)
      else case nt_bind s3 (nt_time s3) s (ls_sockaddr ls) of
        Some err \<Rightarrow>
          let log4 = (if err \<noteq> EADDRINUSE then log @ [BindFailed] else log);
              (s4, log5) = close_logged (nt_tick s3) log4 s
          in (s4, log5, ls, err = EADDRINUSE)
      | None \<Rightarrow>
          if ls_type ls \<noteq> SOCK_STREAM then (nt_tick s3, log, ls\<lparr>ls_fd := s\<rparr>, True)
          else let s4 = nt_tick s3
          in case nt_listen s4 (nt_time s4) s (ls_backlog ls) of
            Some err \<Rightarrow>
              let log4 = (if err \<noteq> EADDRINUSE then log @ [ListenFailed] else log);
                  (s5, log5) = close_logged (nt_tick s4) log4 s
              in (s5, log5, ls, err = EADDRINUSE)
          | None \<Rightarrow> (nt_tick s4, log, ls\<lparr>ls_listen := True, ls_fd := s\<rparr>, True))"

fun cw_open_listening_sockets ::
    "net \<Rightarrow> ls_msg list \<Rightarrow> cw_listening list \<Rightarrow> net \<times> ls_msg list \<times> cw_listening list \<times> int" where
  "cw_open_listening_sockets s log [] = (s, log, [], CW_OK)"
| "cw_open_listening_sockets s log (ls # rest) =
     (case open_listening s log ls of
        (s1, log1, ls1, False) \<Rightarrow> (s1, log1, ls1 # rest, CW_ERROR)
      | (s1, log1, ls1, True) \<Rightarrow>
          (case cw_open_listening_sockets s1 log1 rest of
             (s2, log2, rest2, rc) \<Rightarrow> (s2, log2, ls1 # rest2, rc)))"

section \<open>Descriptors\<close>

text \<open>The descriptors that \<open>after\<close> has and \<open>before\<close> had not.\<close>

definition opened :: "cw_listening list \<Rightarrow> cw_listening list \<Rightarrow> int list" where
  "opened before after =
     map (\<lambda>(l, l'). ls_fd l') (filter (\<lambda>(l, l'). ls_fd l' \<noteq> ls_fd l) (zip before after))"

lemma opened_simps [simp]:
  "opened [] [] = []" "opened (l # ls) (l' # ls') = (if ls_fd l' \<noteq> ls_fd l then [ls_fd l'] else []) @ opened ls ls'"
  "opened ls ls = []"
proof -
  show "opened ls ls = []" by (induction ls) (auto simp: opened_def)
qed (auto simp: opened_def)

lemma cw_socket_fds:
  "cw_socket s f t = (s1, fd) \<Longrightarrow> nt_fds s1 = (if fd = -1 then [] else [fd]) @ nt_fds s"
  by (auto simp: cw_socket_def Let_def split: if_splits)

lemma close_logged_fds:
  "close_logged s log fd = (s1, log1) \<Longrightarrow> nt_fds s1 = remove1 fd (nt_fds s)"
  by (auto simp: close_logged_def cw_close_socket_def Let_def)

lemma cw_nonblocking_fds: "cw_nonblocking s fd = (s1, r) \<Longrightarrow> nt_fds s1 = nt_fds s"
  by (auto simp: cw_nonblocking_def sock_ioctl_def)

text \<open>What one element can become.\<close>

definition listened :: "cw_listening \<Rightarrow> cw_listening \<Rightarrow> bool" where
  "listened l l' \<longleftrightarrow> l' = l \<or>
     \<not> ls_ignore l \<and> ls_fd l = -1 \<and>
     (\<exists>fd. fd \<noteq> -1 \<and> l' = (if ls_type l = SOCK_STREAM then l\<lparr>ls_listen := True, ls_fd := fd\<rparr> else l\<lparr>ls_fd := fd\<rparr>))"

lemma open_listening_cases:
  assumes "open_listening s log l = (s1, log1, l1, go)"
  shows "nt_fds s1 = (if ls_fd l1 \<noteq> ls_fd l then [ls_fd l1] else []) @ nt_fds s" and "listened l l1"
proof -
  have "nt_fds s1 = (if ls_fd l1 \<noteq> ls_fd l then [ls_fd l1] else []) @ nt_fds s \<and> listened l l1"
  proof (cases "ls_ignore l \<or> ls_fd l \<noteq> -1")
    case True
    then show ?thesis using assms by (auto simp: open_listening_def listened_def split: if_splits)
  next
    case False
    obtain s2 fd where so: "cw_socket s (ls_family l) (ls_type l) = (s2, fd)" by fastforce
    obtain s3 r where nb: "cw_nonblocking (nt_tick s2) fd = (s3, r)" by fastforce
    show ?thesis
      using False assms so nb cw_socket_fds [OF so] cw_nonblocking_fds [OF nb]
      by (auto simp: open_listening_def listened_def Let_def dest!: close_logged_fds
          split: if_splits option.splits prod.splits)
  qed
  then show "nt_fds s1 = (if ls_fd l1 \<noteq> ls_fd l then [ls_fd l1] else []) @ nt_fds s" and "listened l l1"
    by blast+
qed

lemma open_listening_all:
  "cw_open_listening_sockets s log lss = (s', log', lss', rc) \<Longrightarrow>
     mset (nt_fds s') = mset (opened lss lss') + mset (nt_fds s) \<and> list_all2 listened lss lss' \<and> rc \<in> {CW_OK, CW_ERROR}"
proof (induction lss arbitrary: s log s' log' lss' rc)
  case (Cons l lss)
  obtain s1 log1 l1 go where o: "open_listening s log l = (s1, log1, l1, go)" using prod_cases4 by blast
  note O = open_listening_cases [OF o]
  have refl: "list_all2 listened lss lss" by (rule list.rel_refl) (simp add: listened_def)
  show ?case
  proof (cases go)
    case False
    then show ?thesis using Cons.prems o O refl by (auto simp: o)
  next
    case True
    obtain s2 log2 rest2 rc2 where r: "cw_open_listening_sockets s1 log1 lss = (s2, log2, rest2, rc2)"
      using prod_cases4 by blast
    have "s' = s2" "lss' = l1 # rest2" "rc = rc2" using Cons.prems o True r by auto
    then show ?thesis using Cons.IH [OF r] O by auto
  qed
qed auto

section \<open>Properties\<close>

definition demo_net :: net where
  "demo_net =
     \<lparr>nt_socket = (\<lambda>t f ty. int t + 3), nt_socketpair = (\<lambda>t. Some (int t * 2 + 3, int t * 2 + 4)),
      nt_setsockopt = (\<lambda>t fd. None), nt_ioctl = (\<lambda>t fd req arg. 0), nt_fcntl = (\<lambda>t fd req arg. 0),
      nt_bind = (\<lambda>t fd a. if a = 99 then Some EADDRINUSE else None), nt_listen = (\<lambda>t fd n. None),
      nt_close = (\<lambda>t fd. None), nt_time = 0, nt_fds = []\<rparr>"

definition demo_listening :: "addr \<Rightarrow> cw_listening" where
  "demo_listening a =
     \<lparr>ls_fd = -1, ls_family = 2, ls_sockaddr = a, ls_type = SOCK_STREAM, ls_backlog = 511,
      ls_ignore = False, ls_listen = False\<rparr>"

text \<open>
  C26: \<open>cw_open_listening_sockets\<close> loses no descriptor.  On every path, errors included,
  the descriptors open afterwards are those open before and those recorded in the elements of
  \<open>cycle->listening\<close> that had none; an element is left alone or becomes a bound socket,
  listening if it is a stream.
\<close>

theorem cw_open_listening_sockets_fds:
  assumes "cw_open_listening_sockets s log lss = (s', log', lss', rc)"
  shows "mset (nt_fds s') = mset (opened lss lss') + mset (nt_fds s) \<and> list_all2 listened lss lss' \<and>
    rc \<in> {CW_OK, CW_ERROR}"
  using assms by (rule open_listening_all)

theorem cw_open_listening_sockets_fds_witness:
  "\<exists>s' log' lss' rc. cw_open_listening_sockets demo_net [] [demo_listening 99, demo_listening 7] = (s', log', lss', rc) \<and>
     mset (nt_fds s') = mset (opened [demo_listening 99, demo_listening 7] lss')"
proof -
  obtain s' log' lss' rc where c: "cw_open_listening_sockets demo_net [] [demo_listening 99, demo_listening 7] = (s', log', lss', rc)"
    using prod_cases4 by blast
  then show ?thesis using cw_open_listening_sockets_fds [OF c] by (auto simp: demo_net_def)
qed



end
