(* ===== verification/Process.thy ===== *)
theory Process
  imports Sockets
begin

text \<open>
  \<open>src/os/unix/cw_process.[ch]\<close>: the signals of the program and the table of child
  processes.  \<open>fork\<close> answers one process at a time: the answer 0 is what the child sees,
  a positive one what the parent sees.
\<close>

section \<open>Signals\<close>

definition SIGQUIT :: int where "SIGQUIT = 3"
definition SIGTERM :: int where "SIGTERM = 15"

record cw_signal =
  sg_signo :: int
  sg_signame :: "string option"
  sg_name :: string
  sg_handler :: bool

definition signals :: "cw_signal list" where
  "signals =
     [\<lparr>sg_signo = SIGQUIT, sg_signame = Some ''SIGQUIT'', sg_name = ''quit'', sg_handler = True\<rparr>,
      \<lparr>sg_signo = SIGTERM, sg_signame = Some ''SIGTERM'', sg_name = ''stop'', sg_handler = True\<rparr>,
      \<lparr>sg_signo = 0, sg_signame = None, sg_name = '''', sg_handler = False\<rparr>]"

text \<open>
  \<open>cw_init_signals\<close>: \<open>act\<close> is what \<open>sigaction\<close> answers for each signal.  The
  result lists the signals whose disposition was changed, those with a handler and those
  ignored.
\<close>

fun init_signals :: "(int \<Rightarrow> int) \<Rightarrow> cw_signal list \<Rightarrow> (int \<times> bool) list \<Rightarrow> (int \<times> bool) list \<times> int" where
  "init_signals act [] acts = (acts, CW_OK)"
| "init_signals act (sig # sigs) acts =
     (if sg_signo sig = 0 then (acts, CW_OK)
      else if act (sg_signo sig) = -1 then (acts, CW_ERROR)
      else init_signals act sigs (acts @ [(sg_signo sig, sg_handler sig)]))"

definition cw_init_signals :: "(int \<Rightarrow> int) \<Rightarrow> (int \<times> bool) list \<times> int" where
  "cw_init_signals act = init_signals act signals []"

text \<open>The flags \<open>cw_quit\<close> and \<open>cw_terminate\<close>, and the handler that sets them.\<close>

record sig_flags =
  g_quit :: int
  g_terminate :: int

datatype sig_notice = SignalFrom int "string option" int string | SignalPlain int "string option" string

fun find_signal :: "int \<Rightarrow> cw_signal list \<Rightarrow> cw_signal option" where
  "find_signal signo [] = None"
| "find_signal signo (sig # sigs) =
     (if sg_signo sig = 0 then Some sig
      else if sg_signo sig = signo then Some sig
      else find_signal signo sigs)"

definition cw_signal_handler :: "int \<Rightarrow> int option \<Rightarrow> sig_flags \<Rightarrow> sig_flags \<times> sig_notice" where
  "cw_signal_handler signo sender g =
     (let signame = (case find_signal signo signals of Some sig \<Rightarrow> sg_signame sig | None \<Rightarrow> None);
          (g1, action) =
            (if signo = SIGQUIT then (g\<lparr>g_quit := 1\<rparr>, '', shutting down'')
             else if signo = SIGTERM then (g\<lparr>g_terminate := 2\<rparr>, '', exiting'')
             else (g, ''''))
      in case sender of
           Some pid \<Rightarrow> if pid \<noteq> 0 then (g1, SignalFrom signo signame pid action)
                       else (g1, SignalPlain signo signame action)
         | None \<Rightarrow> (g1, SignalPlain signo signame action))"

section \<open>The table of processes\<close>

definition CW_INVALID_PID :: int where [cw_sizes]: "CW_INVALID_PID = -1"
definition CW_MAX_PROCESSES :: nat where [cw_sizes]: "CW_MAX_PROCESSES = 1024"
definition CW_PROCESS_NORESPAWN :: int where [cw_sizes]: "CW_PROCESS_NORESPAWN = -1"
definition CW_PROCESS_JUST_SPAWN :: int where [cw_sizes]: "CW_PROCESS_JUST_SPAWN = -2"
definition CW_PROCESS_RESPAWN :: int where [cw_sizes]: "CW_PROCESS_RESPAWN = -3"
definition CW_PROCESS_JUST_RESPAWN :: int where [cw_sizes]: "CW_PROCESS_JUST_RESPAWN = -4"
definition CW_PROCESS_DETACHED :: int where [cw_sizes]: "CW_PROCESS_DETACHED = -5"

record cw_process =
  pr_pid :: int
  pr_channel :: "int \<times> int"
  pr_proc :: addr
  pr_data :: int
  pr_name :: string
  pr_respawn :: bool
  pr_just_spawn :: bool
  pr_detached :: bool
  pr_exiting :: bool
  pr_exited :: bool

datatype spawn_msg =
    TooManyProcesses
  | SocketpairFailed
  | ChannelNonblockingFailed
  | FioasyncFailed
  | SetownFailed
  | CloexecFailed
  | ForkFailed
  | Started string int

text \<open>
  The globals of \<open>cw_process.c\<close> and the world they act on.  \<open>ps_fork\<close> answers the
  calls of \<open>fork\<close> in order, \<open>ps_getpid\<close> is what \<open>getpid\<close> answers after each; an index
  out of the array is a fault.
\<close>

record procs =
  ps_net :: net
  ps_fork :: "nat \<Rightarrow> int"
  ps_getpid :: "nat \<Rightarrow> int"
  ps_forks :: nat
  ps_table :: "nat \<Rightarrow> cw_process"
  ps_last :: nat
  ps_slot :: nat
  ps_channel :: int
  ps_pid :: int
  ps_log :: "spawn_msg list"
  ps_fault :: bool

definition set_process :: "nat \<Rightarrow> (cw_process \<Rightarrow> cw_process) \<Rightarrow> procs \<Rightarrow> procs" where
  "set_process s f ps =
     (if s < CW_MAX_PROCESSES then ps\<lparr>ps_table := (ps_table ps)(s := f (ps_table ps s))\<rparr>
      else ps\<lparr>ps_fault := True\<rparr>)"

definition ps_logged :: "spawn_msg \<Rightarrow> procs \<Rightarrow> procs" where
  "ps_logged m ps = ps\<lparr>ps_log := ps_log ps @ [m]\<rparr>"

section \<open>\<open>cw_spawn_process\<close>\<close>

text \<open>The search of the first entry that is free, from \<open>s\<close> on, over \<open>k\<close> entries.\<close>

fun free_slot :: "(nat \<Rightarrow> cw_process) \<Rightarrow> nat \<Rightarrow> nat \<Rightarrow> nat" where
  "free_slot tab s 0 = s"
| "free_slot tab s (Suc k) = (if pr_pid (tab s) = -1 then s else free_slot tab (Suc s) k)"

text \<open>The calls that prepare the channel, in order, each with the message of its failure.\<close>

datatype channel_setup = Nonblocking | Fioasync | Setown | Cloexec

definition F_SETOWN :: nat where "F_SETOWN = 8"
definition F_SETFD :: nat where "F_SETFD = 2"
definition FD_CLOEXEC :: int where "FD_CLOEXEC = 1"

fun channel_call :: "int \<Rightarrow> net \<Rightarrow> int \<Rightarrow> channel_setup \<Rightarrow> net \<times> int" where
  "channel_call pid s fd Nonblocking = cw_nonblocking s fd"
| "channel_call pid s fd Fioasync = sock_ioctl s fd FIOASYNC 1"
| "channel_call pid s fd Setown = (nt_tick s, nt_fcntl s (nt_time s) fd F_SETOWN pid)"
| "channel_call pid s fd Cloexec = (nt_tick s, nt_fcntl s (nt_time s) fd F_SETFD FD_CLOEXEC)"

fun channel_calls :: "int \<Rightarrow> net \<Rightarrow> (int \<times> channel_setup \<times> spawn_msg) list \<Rightarrow> net \<times> spawn_msg option" where
  "channel_calls pid s [] = (s, None)"
| "channel_calls pid s ((fd, c, msg) # cs) =
     (case channel_call pid s fd c of
        (s1, r) \<Rightarrow> if r = -1 then (s1, Some msg) else channel_calls pid s1 cs)"

definition prepare_channel :: "int \<times> int \<Rightarrow> (int \<times> channel_setup \<times> spawn_msg) list" where
  "prepare_channel ch =
     [(fst ch, Nonblocking, ChannelNonblockingFailed), (snd ch, Nonblocking, ChannelNonblockingFailed),
      (fst ch, Fioasync, FioasyncFailed), (fst ch, Setown, SetownFailed),
      (fst ch, Cloexec, CloexecFailed), (snd ch, Cloexec, CloexecFailed)]"

text \<open>The channel of the new process: \<open>None\<close> when a call failed.\<close>

definition spawn_channel :: "nat \<Rightarrow> int \<Rightarrow> procs \<Rightarrow> procs \<times> (int \<times> int) option" where
  "spawn_channel s respawn ps =
     (if respawn \<noteq> CW_PROCESS_DETACHED
      then (case nt_socketpair (ps_net ps) (nt_time (ps_net ps)) of
              None \<Rightarrow> (ps_logged SocketpairFailed (ps\<lparr>ps_net := nt_tick (ps_net ps)\<rparr>), None)
            | Some ch \<Rightarrow>
                let n1 = (nt_tick (ps_net ps))\<lparr>nt_fds := fst ch # snd ch # nt_fds (ps_net ps)\<rparr>;
                    ps1 = set_process s (\<lambda>p. p\<lparr>pr_channel := ch\<rparr>) ps
                in case channel_calls (ps_pid ps) n1 (prepare_channel ch) of
                     (n2, Some msg) \<Rightarrow> (ps_logged msg (ps1\<lparr>ps_net := cw_close_channel n2 ch\<rparr>), None)
                   | (n2, None) \<Rightarrow> (ps1\<lparr>ps_net := n2, ps_channel := snd ch\<rparr>, Some ch))
      else (set_process s (\<lambda>p. p\<lparr>pr_channel := (-1, -1)\<rparr>) ps, Some (-1, -1)))"

text \<open>The kind of process, from the argument \<open>respawn\<close>.\<close>

definition set_kind :: "int \<Rightarrow> cw_process \<Rightarrow> cw_process" where
  "set_kind respawn p =
     (if respawn = CW_PROCESS_NORESPAWN then p\<lparr>pr_respawn := False, pr_just_spawn := False, pr_detached := False\<rparr>
      else if respawn = CW_PROCESS_JUST_SPAWN then p\<lparr>pr_respawn := False, pr_just_spawn := True, pr_detached := False\<rparr>
      else if respawn = CW_PROCESS_RESPAWN then p\<lparr>pr_respawn := True, pr_just_spawn := False, pr_detached := False\<rparr>
      else if respawn = CW_PROCESS_JUST_RESPAWN then p\<lparr>pr_respawn := True, pr_just_spawn := True, pr_detached := False\<rparr>
      else if respawn = CW_PROCESS_DETACHED then p\<lparr>pr_respawn := False, pr_just_spawn := False, pr_detached := True\<rparr>
      else p)"

text \<open>The code after \<open>switch (pid)\<close>: the entry is filled in.\<close>

definition register_process :: "nat \<Rightarrow> addr \<Rightarrow> int \<Rightarrow> string \<Rightarrow> int \<Rightarrow> int \<Rightarrow> procs \<Rightarrow> procs" where
  "register_process s proc data name respawn pid ps =
     (let ps1 = ps_logged (Started name pid) ps;
          ps2 = set_process s (\<lambda>p. p\<lparr>pr_pid := pid, pr_exited := False\<rparr>) ps1
      in if respawn \<ge> 0 then ps2
         else let ps3 = set_process s (\<lambda>p. set_kind respawn
                    (p\<lparr>pr_proc := proc, pr_data := data, pr_name := name, pr_exiting := False\<rparr>)) ps2
              in if s = ps_last ps3 then ps3\<lparr>ps_last := Suc (ps_last ps3)\<rparr> else ps3)"

text \<open>
  The function the child runs is an argument beside its address: \<open>run data ps\<close> is
  \<open>None\<close> when it does not return.  \<open>Child\<close> is the state of a child that is inside it
  for good.
\<close>

datatype spawn_result = Returned procs int | Child procs

definition cw_spawn_process ::
    "(int \<Rightarrow> procs \<Rightarrow> procs option) \<Rightarrow> addr \<Rightarrow> int \<Rightarrow> string \<Rightarrow> int \<Rightarrow> procs \<Rightarrow> spawn_result" where
  "cw_spawn_process run proc data name respawn ps =
     (let s = (if respawn \<ge> 0 then nat respawn else free_slot (ps_table ps) 0 (ps_last ps))
      in if respawn < 0 \<and> s = CW_MAX_PROCESSES then Returned (ps_logged TooManyProcesses ps) CW_INVALID_PID
         else case spawn_channel s respawn ps of
           (ps1, None) \<Rightarrow> Returned ps1 CW_INVALID_PID
         | (ps1, Some ch) \<Rightarrow>
             let pid = ps_fork ps1 (ps_forks ps1);
                 ps2 = ps1\<lparr>ps_slot := s, ps_forks := Suc (ps_forks ps1)\<rparr>
             in if pid = -1
                then Returned (ps_logged ForkFailed (ps2\<lparr>ps_net := cw_close_channel (ps_net ps2) ch\<rparr>)) CW_INVALID_PID
                else if pid = 0
                then (case run data (ps2\<lparr>ps_pid := ps_getpid ps2 (ps_forks ps2)\<rparr>) of
                        None \<Rightarrow> Child (ps2\<lparr>ps_pid := ps_getpid ps2 (ps_forks ps2)\<rparr>)
                      | Some ps3 \<Rightarrow> Returned (register_process s proc data name respawn pid ps3) pid)
                else Returned (register_process s proc data name respawn pid ps2) pid)"

section \<open>The search\<close>

lemma free_slot_range: "s \<le> free_slot tab s k \<and> free_slot tab s k \<le> s + k"
proof (induction k arbitrary: s)
  case (Suc k)
  have "Suc s \<le> free_slot tab (Suc s) k \<and> free_slot tab (Suc s) k \<le> Suc s + k" by (rule Suc.IH)
  then show ?case by auto
qed simp

lemma free_slot_taken: "s \<le> i \<Longrightarrow> i < free_slot tab s k \<Longrightarrow> pr_pid (tab i) \<noteq> -1"
proof (induction k arbitrary: s)
  case (Suc k)
  then show ?case using Suc.IH [of "Suc s"] by (cases "i = s") (auto split: if_splits)
qed simp

lemma free_slot_free: "free_slot tab s k < s + k \<Longrightarrow> pr_pid (tab (free_slot tab s k)) = -1"
  by (induction k arbitrary: s) auto

section \<open>The children, abstractly\<close>

definition children :: "procs \<Rightarrow> nat \<Rightarrow> int option" where
  "children ps s = (if s < ps_last ps \<and> pr_pid (ps_table ps s) \<noteq> -1 then Some (pr_pid (ps_table ps s)) else None)"

definition procs_ok :: "procs \<Rightarrow> bool" where
  "procs_ok ps \<longleftrightarrow> ps_last ps \<le> CW_MAX_PROCESSES \<and> \<not> ps_fault ps \<and> -1 \<notin> set (nt_fds (ps_net ps))"

abbreviation fds_of :: "procs \<Rightarrow> int multiset" where
  "fds_of ps \<equiv> mset (nt_fds (ps_net ps))"

text \<open>Two tables that differ at most in the channel of the entry \<open>s\<close>.\<close>

definition channel_only :: "nat \<Rightarrow> (nat \<Rightarrow> cw_process) \<Rightarrow> (nat \<Rightarrow> cw_process) \<Rightarrow> bool" where
  "channel_only s tab tab' \<longleftrightarrow> (\<exists>ch. tab' = tab(s := (tab s)\<lparr>pr_channel := ch\<rparr>))"

text \<open>The part of the state that setting up a channel leaves alone.\<close>

definition same_table :: "nat \<Rightarrow> procs \<Rightarrow> procs \<Rightarrow> bool" where
  "same_table s ps ps' \<longleftrightarrow>
     ps_last ps' = ps_last ps \<and> ps_fork ps' = ps_fork ps \<and> ps_forks ps' = ps_forks ps \<and>
     ps_fault ps' = (ps_fault ps \<or> CW_MAX_PROCESSES \<le> s \<and> ps_fault ps') \<and>
     channel_only s (ps_table ps) (ps_table ps')"

lemma channel_only_pid: "channel_only s tab tab' \<Longrightarrow> pr_pid (tab' i) = pr_pid (tab i)"
  by (auto simp: channel_only_def)

lemma channel_only_refl [simp]: "channel_only s tab tab"
  unfolding channel_only_def by (intro exI [of _ "pr_channel (tab s)"]) (simp add: fun_eq_iff)

lemma channel_only_set [simp]: "channel_only s tab (tab(s := (tab s)\<lparr>pr_channel := ch\<rparr>))"
  unfolding channel_only_def by (rule exI, rule refl)

lemma same_table_children: "same_table s ps ps' \<Longrightarrow> children ps' = children ps"
  using channel_only_pid by (auto simp: same_table_def children_def fun_eq_iff)

lemma children_cong: "ps_last ps = ps_last ps' \<Longrightarrow> ps_table ps = ps_table ps' \<Longrightarrow> children ps = children ps'"
  by (simp add: children_def fun_eq_iff)

lemma channel_calls_fds: "channel_calls pid s cs = (s1, r) \<Longrightarrow> nt_fds s1 = nt_fds s"
proof (induction cs arbitrary: s)
  case (Cons x cs)
  obtain fd c msg where x: "x = (fd, c, msg)" using prod_cases3 by blast
  obtain s2 r2 where c: "channel_call pid s fd c = (s2, r2)" by fastforce
  then have "nt_fds s2 = nt_fds s" by (cases c) (auto simp: cw_nonblocking_def sock_ioctl_def)
  then show ?case using Cons x c by (auto split: if_splits)
qed simp

lemma cw_close_channel_fds: "nt_fds (cw_close_channel s fd) = remove1 (snd fd) (remove1 (fst fd) (nt_fds s))"
  by (simp add: cw_close_channel_def cw_close_socket_def Let_def)

lemma spawn_channel_cases:
  assumes "spawn_channel s respawn ps = (ps1, r)" and "s < CW_MAX_PROCESSES"
  shows "same_table s ps ps1"
    and "r = None \<Longrightarrow> fds_of ps1 = fds_of ps"
    and "r = Some ch \<Longrightarrow> respawn \<noteq> CW_PROCESS_DETACHED \<Longrightarrow>
      fds_of ps1 = {# fst ch, snd ch #} + fds_of ps \<and> nt_socketpair (ps_net ps) (nt_time (ps_net ps)) = Some ch \<and>
      ps_channel ps1 = snd ch"
    and "r = Some ch \<Longrightarrow> respawn = CW_PROCESS_DETACHED \<Longrightarrow> ch = (-1, -1) \<and> ps_net ps1 = ps_net ps"
    and "r = Some ch \<Longrightarrow> pr_channel (ps_table ps1 s) = ch"
    and "if r = None then \<exists>msg. ps_log ps1 = ps_log ps @ [msg] else ps_log ps1 = ps_log ps"
proof -
  have "same_table s ps ps1 \<and> (r = None \<longrightarrow> fds_of ps1 = fds_of ps) \<and>
    (if r = None then \<exists>msg. ps_log ps1 = ps_log ps @ [msg] else ps_log ps1 = ps_log ps) \<and>
    (\<forall>ch. r = Some ch \<longrightarrow> pr_channel (ps_table ps1 s) = ch \<and>
       (if respawn \<noteq> CW_PROCESS_DETACHED
        then fds_of ps1 = {# fst ch, snd ch #} + fds_of ps \<and> nt_socketpair (ps_net ps) (nt_time (ps_net ps)) = Some ch \<and>
          ps_channel ps1 = snd ch
        else ch = (-1, -1) \<and> ps_net ps1 = ps_net ps))"
  proof (cases "respawn \<noteq> CW_PROCESS_DETACHED")
    case False
    then show ?thesis using assms by (auto simp: spawn_channel_def set_process_def same_table_def)
  next
    case det: True
    show ?thesis
    proof (cases "nt_socketpair (ps_net ps) (nt_time (ps_net ps))")
      case None
      then show ?thesis using det assms by (auto simp: spawn_channel_def same_table_def ps_logged_def)
    next
      case (Some ch)
      obtain n2 m where c: "channel_calls (ps_pid ps)
          ((nt_tick (ps_net ps))\<lparr>nt_fds := fst ch # snd ch # nt_fds (ps_net ps)\<rparr>) (prepare_channel ch) = (n2, m)"
        by fastforce
      have f: "nt_fds n2 = fst ch # snd ch # nt_fds (ps_net ps)" using channel_calls_fds [OF c] by simp
      show ?thesis
        using det assms Some c f
        by (cases m) (auto simp: spawn_channel_def set_process_def same_table_def ps_logged_def cw_close_channel_fds Let_def)
    qed
  qed
  then show "same_table s ps ps1"
    and "r = None \<Longrightarrow> fds_of ps1 = fds_of ps"
    and "r = Some ch \<Longrightarrow> respawn \<noteq> CW_PROCESS_DETACHED \<Longrightarrow>
      fds_of ps1 = {# fst ch, snd ch #} + fds_of ps \<and> nt_socketpair (ps_net ps) (nt_time (ps_net ps)) = Some ch \<and>
      ps_channel ps1 = snd ch"
    and "r = Some ch \<Longrightarrow> respawn = CW_PROCESS_DETACHED \<Longrightarrow> ch = (-1, -1) \<and> ps_net ps1 = ps_net ps"
    and "r = Some ch \<Longrightarrow> pr_channel (ps_table ps1 s) = ch"
    and "if r = None then \<exists>msg. ps_log ps1 = ps_log ps @ [msg] else ps_log ps1 = ps_log ps"
    by (auto split: if_splits)
qed

section \<open>Spawning\<close>

lemma set_process_simps:
  assumes "s < CW_MAX_PROCESSES"
  shows "set_process s f ps = ps\<lparr>ps_table := (ps_table ps)(s := f (ps_table ps s))\<rparr>"
  using assms by (simp add: set_process_def)

lemma set_kind_simps [simp]:
  "pr_pid (set_kind k p) = pr_pid p" "pr_channel (set_kind k p) = pr_channel p" "pr_exiting (set_kind k p) = pr_exiting p"
  "pr_exited (set_kind k p) = pr_exited p" "pr_data (set_kind k p) = pr_data p" "pr_proc (set_kind k p) = pr_proc p"
  by (simp_all add: set_kind_def)

lemma register_process_children:
  assumes s: "s < CW_MAX_PROCESSES" "s \<le> ps_last ps" and k: "respawn < 0" and pid: "pid \<noteq> -1"
    and r: "ps' = register_process s proc data name respawn pid ps"
  shows "children ps' = (children ps)(s \<mapsto> pid)" and "ps_last ps' \<le> max (ps_last ps) (Suc s)"
    and "ps_net ps' = ps_net ps" and "ps_fault ps' = ps_fault ps"
    and "pr_channel (ps_table ps' s) = pr_channel (ps_table ps s)" and "pr_data (ps_table ps' s) = data"
    and "ps_slot ps' = ps_slot ps" and "ps_channel ps' = ps_channel ps"
proof -
  have R: "ps' = (if s = ps_last ps then ps1\<lparr>ps_last := Suc s\<rparr> else ps1)"
    if "ps1 = ps\<lparr>ps_log := ps_log ps @ [Started name pid],
      ps_table := (ps_table ps)(s := set_kind respawn ((ps_table ps s)\<lparr>pr_pid := pid, pr_exited := False,
        pr_proc := proc, pr_data := data, pr_name := name, pr_exiting := False\<rparr>))\<rparr>" for ps1
    using s(1) k unfolding r that by (simp add: register_process_def set_process_simps ps_logged_def Let_def)
  note R = R [OF refl]
  have "s < ps_last ps" if "s \<noteq> ps_last ps" using s(2) that by simp
  then show "children ps' = (children ps)(s \<mapsto> pid)"
    using pid by (cases "s = ps_last ps") (simp_all add: R children_def fun_eq_iff less_Suc_eq)
  show "ps_last ps' \<le> max (ps_last ps) (Suc s)"
    and "ps_net ps' = ps_net ps" and "ps_fault ps' = ps_fault ps"
    and "pr_channel (ps_table ps' s) = pr_channel (ps_table ps s)" and "pr_data (ps_table ps' s) = data"
    and "ps_slot ps' = ps_slot ps" and "ps_channel ps' = ps_channel ps"
    by (simp_all add: R)
qed

text \<open>The slot that is chosen: the first one that is free.\<close>

lemma chosen_slot:
  fixes ps :: procs
  defines "s \<equiv> free_slot (ps_table ps) 0 (ps_last ps)"
  shows "s \<le> ps_last ps" and "children ps s = None" and "i < s \<Longrightarrow> children ps i \<noteq> None"
proof -
  show r: "s \<le> ps_last ps" using free_slot_range [of 0 "ps_table ps" "ps_last ps"] by (simp add: s_def)
  show "children ps s = None"
    using free_slot_free [of "ps_table ps" 0 "ps_last ps"] unfolding s_def [symmetric] by (simp add: children_def)
  show "children ps i \<noteq> None" if "i < s"
    using free_slot_taken [of 0 i "ps_table ps" "ps_last ps"] that r by (simp add: s_def children_def)
qed

text \<open>The table is full exactly when the search runs to its end.\<close>

lemma full_table:
  assumes "procs_ok ps"
  shows "free_slot (ps_table ps) 0 (ps_last ps) = CW_MAX_PROCESSES \<longleftrightarrow> (\<forall>i<CW_MAX_PROCESSES. children ps i \<noteq> None)"
proof
  assume f: "free_slot (ps_table ps) 0 (ps_last ps) = CW_MAX_PROCESSES"
  then show "\<forall>i<CW_MAX_PROCESSES. children ps i \<noteq> None" using chosen_slot(3) by metis
next
  assume a: "\<forall>i<CW_MAX_PROCESSES. children ps i \<noteq> None"
  have "free_slot (ps_table ps) 0 (ps_last ps) \<le> CW_MAX_PROCESSES"
    using chosen_slot(1) [of ps] assms by (simp add: procs_ok_def)
  then show "free_slot (ps_table ps) 0 (ps_last ps) = CW_MAX_PROCESSES"
    using a chosen_slot(2) [of ps] by (meson le_neq_implies_less)
qed

text \<open>The calls of \<open>cw_spawn_process\<close> with the search: what it can return.\<close>

text \<open>The channel opened for a child that could not be forked is closed again.\<close>

lemma unforked:
  assumes ok: "procs_ok ps" and s: "s < CW_MAX_PROCESSES" and sp: "spawn_channel s respawn ps = (ps1, Some ch)"
    and ps': "ps' = ps_logged ForkFailed (ps1\<lparr>ps_slot := s, ps_forks := n, ps_net := cw_close_channel (ps_net ps1) ch\<rparr>)"
  shows "children ps' = children ps1" and "fds_of ps' = fds_of ps"
proof -
  note S = spawn_channel_cases [OF sp s]
  show "children ps' = children ps1" by (rule children_cong) (simp_all add: ps' ps_logged_def)
  have "fds_of ps' = fds_of ps1 - {# fst ch #} - {# snd ch #}"
    by (simp add: ps' ps_logged_def cw_close_channel_fds)
  also have "\<dots> = fds_of ps"
  proof (cases "respawn = CW_PROCESS_DETACHED")
    case True
    then have "ch = (-1, -1)" "ps_net ps1 = ps_net ps" using S(4) by blast+
    then show ?thesis using ok by (simp add: procs_ok_def)
  next
    case False
    then show ?thesis using S(3) by simp
  qed
  finally show "fds_of ps' = fds_of ps" .
qed

lemma spawn_failure:
  assumes ok: "procs_ok ps" and k: "respawn < 0"
    and c: "cw_spawn_process run proc data name respawn ps = Returned ps' (-1)"
  shows "children ps' = children ps \<and> ps_last ps' = ps_last ps \<and> fds_of ps' = fds_of ps \<and> \<not> ps_fault ps' \<and>
    channel_only (free_slot (ps_table ps) 0 (ps_last ps)) (ps_table ps) (ps_table ps') \<and>
    (\<exists>msg. ps_log ps' = ps_log ps @ [msg])"
proof -
  define s where "s = free_slot (ps_table ps) 0 (ps_last ps)"
  show ?thesis
  proof (cases "s = CW_MAX_PROCESSES")
    case True
    then show ?thesis
      using c k ok by (auto simp: cw_spawn_process_def s_def [symmetric] ps_logged_def children_def procs_ok_def fun_eq_iff)
  next
    case False
    then have s: "s < CW_MAX_PROCESSES" using chosen_slot(1) [of ps] ok by (simp add: s_def procs_ok_def)
    obtain ps1 r where sp: "spawn_channel s respawn ps = (ps1, r)" by fastforce
    note S = spawn_channel_cases [OF sp s]
    note C = same_table_children [OF S(1)]
    have f1: "\<not> ps_fault ps1" "ps_last ps1 = ps_last ps" "channel_only s (ps_table ps) (ps_table ps1)"
      using S(1) ok s by (auto simp: same_table_def procs_ok_def)
    show ?thesis
    proof (cases r)
      case None
      then have "ps' = ps1" using c k False sp by (simp add: cw_spawn_process_def s_def [symmetric])
      then show ?thesis using C f1 S(2,6) None by (simp flip: s_def)
    next
      case (Some ch)
      have "ps' = ps_logged ForkFailed (ps1\<lparr>ps_slot := s, ps_forks := Suc (ps_forks ps1), ps_net := cw_close_channel (ps_net ps1) ch\<rparr>)"
        using c k False sp Some
        by (auto simp: cw_spawn_process_def s_def [symmetric] Let_def split: option.splits if_splits)
      then show ?thesis using unforked [OF ok s sp [unfolded Some]] C f1 S(6) Some
        by (auto simp: ps_logged_def simp flip: s_def)
    qed
  qed
qed

lemma spawn_parent:
  assumes ok: "procs_ok ps" and k: "respawn < 0" and fork: "0 < ps_fork ps (ps_forks ps)"
    and c: "cw_spawn_process run proc data name respawn ps = Returned ps' pid" and ret: "pid \<noteq> -1"
  obtains s ch where "s < CW_MAX_PROCESSES" and "children ps s = None" and "\<forall>i < s. children ps i \<noteq> None"
    and "pid = ps_fork ps (ps_forks ps)" and "children ps' = (children ps)(s \<mapsto> pid)"
    and "ps_last ps' \<le> CW_MAX_PROCESSES" and "\<not> ps_fault ps'" and "pr_channel (ps_table ps' s) = ch"
    and "pr_data (ps_table ps' s) = data" and "ps_slot ps' = s"
    and "respawn \<noteq> CW_PROCESS_DETACHED \<Longrightarrow> fds_of ps' = {# fst ch, snd ch #} + fds_of ps \<and> ps_channel ps' = snd ch"
    and "respawn = CW_PROCESS_DETACHED \<Longrightarrow> fds_of ps' = fds_of ps"
proof -
  define s where "s = free_slot (ps_table ps) 0 (ps_last ps)"
  have ns: "s \<noteq> CW_MAX_PROCESSES"
    using c k ret by (auto simp: cw_spawn_process_def s_def [symmetric] cw_sizes)
  then have s: "s < CW_MAX_PROCESSES" using chosen_slot(1) [of ps] ok by (simp add: s_def procs_ok_def)
  obtain ps1 r where sp: "spawn_channel s respawn ps = (ps1, r)" by fastforce
  note S = spawn_channel_cases [OF sp s]
  have f: "\<not> ps_fault ps1" "ps_last ps1 = ps_last ps" "ps_fork ps1 (ps_forks ps1) = ps_fork ps (ps_forks ps)"
    using S(1) ok s by (auto simp: same_table_def procs_ok_def)
  obtain ch where r: "r = Some ch"
    using c k ns sp ret by (cases r) (auto simp: cw_spawn_process_def s_def [symmetric] cw_sizes)
  let ?ps2 = "ps1\<lparr>ps_slot := s, ps_forks := Suc (ps_forks ps1)\<rparr>"
  have pid: "pid = ps_fork ps (ps_forks ps)" and ps': "ps' = register_process s proc data name respawn pid ?ps2"
    using c k ns sp r f(3) fork by (auto simp: cw_spawn_process_def s_def [symmetric] Let_def)
  have le: "s \<le> ps_last ?ps2" using chosen_slot(1) [of ps] f(2) by (simp add: s_def)
  note R = register_process_children [OF s le k ret ps']
  have "children ?ps2 = children ps1" by (rule children_cong) simp_all
  then have "children ?ps2 = children ps" using same_table_children [OF S(1)] by simp
  then have ch': "children ps' = (children ps)(s \<mapsto> pid)" using R(1) by simp
  show ?thesis
  proof (rule that [of s ch])
    show "children ps s = None" and "\<forall>i < s. children ps i \<noteq> None" using chosen_slot by (auto simp: s_def)
    show "ps_last ps' \<le> CW_MAX_PROCESSES" using R(2) f(2) s ok by (auto simp: procs_ok_def max_def split: if_splits)
    show "\<not> ps_fault ps'" "pr_channel (ps_table ps' s) = ch" "pr_data (ps_table ps' s) = data" "ps_slot ps' = s"
      using R f(1) S(5) r by simp_all
    show "respawn \<noteq> CW_PROCESS_DETACHED \<Longrightarrow> fds_of ps' = {# fst ch, snd ch #} + fds_of ps \<and> ps_channel ps' = snd ch"
      using R(3,8) S(3) r by simp
    show "respawn = CW_PROCESS_DETACHED \<Longrightarrow> fds_of ps' = fds_of ps" using R(3) S(4) r by simp
  qed (use s pid ch' in simp_all)
qed

end
