(* ===== verification/Process_Cycle.thy ===== *)
theory Process_Cycle
  imports Process
begin

text \<open>
  \<open>src/os/unix/cw_process_cycle.c\<close> and \<open>src/event/cw_event.[ch]\<close>: the master process
  and its workers, as state machines whose steps are the rounds of their loops and the
  signals that arrive.
\<close>

section \<open>Transition systems\<close>

text \<open>
  A process is a step relation; \<open>steps\<close> are its runs.  The interface
  \<open>transition_system\<close> asks what a step keeps: an invariant, and a mark that is never lost.
\<close>

inductive steps :: "('s \<Rightarrow> 's \<Rightarrow> bool) \<Rightarrow> 's \<Rightarrow> 's \<Rightarrow> bool" for step where
  steps_refl: "steps step s s"
| steps_more: "steps step s s1 \<Longrightarrow> step s1 s2 \<Longrightarrow> steps step s s2"

locale transition_system =
  fixes step :: "'s \<Rightarrow> 's \<Rightarrow> bool" and inv :: "'s \<Rightarrow> bool" and marked :: "'s \<Rightarrow> bool"
  assumes step_inv: "inv s \<Longrightarrow> step s s' \<Longrightarrow> inv s'"
    and step_marked: "inv s \<Longrightarrow> step s s' \<Longrightarrow> marked s \<Longrightarrow> marked s'"
begin

lemma run:
  assumes "steps step s s'" and "inv s"
  shows "inv s' \<and> (marked s \<longrightarrow> marked s')"
  using assms by (induction rule: steps.induct) (auto intro: step_inv step_marked)

end

section \<open>Starting the workers\<close>

text \<open>
  \<open>run\<close> is the worker's function; a child never comes back from it, and the loop ends with
  \<open>Inl\<close> the state it is in.
\<close>

fun start_workers ::
    "(int \<Rightarrow> procs \<Rightarrow> procs option) \<Rightarrow> addr \<Rightarrow> int \<Rightarrow> nat \<Rightarrow> nat \<Rightarrow> procs \<Rightarrow> procs + procs" where
  "start_workers run proc type i 0 ps = Inr ps"
| "start_workers run proc type i (Suc n) ps =
     (case cw_spawn_process run proc (int i) ''worker process'' type ps of
        Child ps1 \<Rightarrow> Inl ps1
      | Returned ps1 pid \<Rightarrow> start_workers run proc type (Suc i) n ps1)"

definition cw_start_worker_processes ::
    "(int \<Rightarrow> procs \<Rightarrow> procs option) \<Rightarrow> addr \<Rightarrow> int \<Rightarrow> int \<Rightarrow> procs \<Rightarrow> procs + procs" where
  "cw_start_worker_processes run proc n type ps = start_workers run proc type 0 (nat n) ps"

section \<open>The master\<close>

datatype master_msg = DebugSigsuspend | DoTerminate | DoQuit | MasterExit

text \<open>
  Where the master is: at the head of its loop, before \<open>sigsuspend\<close>; in \<open>sigsuspend\<close>; or
  after it, before the tests.  The signals are not blocked anywhere.  \<open>MasterExited\<close> and
  \<open>MasterKilled\<close> are the ends: the call of \<open>exit\<close>, and the default action of a signal.
\<close>

datatype master_pc = AtHead | Suspended | Woken | MasterExited int | MasterKilled int

text \<open>
  \<open>ms_cycle\<close> is the argument \<open>cycle\<close>; \<open>ms_zlog\<close> says that the logging library is running, and
  \<open>ms_freed\<close> lists what was passed to \<open>free\<close>.
\<close>

record master =
  ms_pc :: master_pc
  ms_cycle :: addr
  ms_flags :: sig_flags
  ms_live :: u64
  ms_notices :: "sig_notice list"
  ms_log :: "master_msg list"
  ms_zlog :: bool
  ms_freed :: "addr list"

text \<open>The loop is entered with \<open>live\<close> set, and with the logging library that \<open>main\<close> started.\<close>

definition master_start :: "addr \<Rightarrow> sig_flags \<Rightarrow> master" where
  "master_start cycle g =
     \<lparr>ms_pc = AtHead, ms_cycle = cycle, ms_flags = g, ms_live = 1, ms_notices = [], ms_log = [], ms_zlog = True, ms_freed = []\<rparr>"

text \<open>
  \<open>cw_master_process_cycle\<close> up to its loop: two workers are started, whatever
  \<open>worker_processes\<close> says.  \<open>Inl\<close> is a child, which never gets to the loop.
\<close>

definition cw_master_process_cycle ::
    "(int \<Rightarrow> procs \<Rightarrow> procs option) \<Rightarrow> addr \<Rightarrow> addr \<Rightarrow> sig_flags \<Rightarrow> procs \<Rightarrow> procs + procs \<times> master" where
  "cw_master_process_cycle run proc cycle g ps =
     (case cw_start_worker_processes run proc 2 CW_PROCESS_RESPAWN ps of
        Inl ps1 \<Rightarrow> Inl ps1
      | Inr ps1 \<Rightarrow> Inr (ps1, master_start cycle g))"

text \<open>A signal runs the handler, wherever the process is.\<close>

definition deliver :: "int \<Rightarrow> int option \<Rightarrow> master \<Rightarrow> master" where
  "deliver signo sender m =
     (let (g, n) = cw_signal_handler signo sender (ms_flags m)
      in m\<lparr>ms_flags := g, ms_notices := ms_notices m @ [n]\<rparr>)"

text \<open>The call of \<open>sigsuspend\<close>.\<close>

definition master_suspend :: "master \<Rightarrow> master" where
  "master_suspend m = m\<lparr>ms_pc := Suspended, ms_log := ms_log m @ [DebugSigsuspend]\<rparr>"

text \<open>
  The rest of the loop's body, and \<open>cw_master_process_exit\<close>, which stops the logging library, frees
  the cycle and ends the process.
\<close>

definition cw_master_process_exit :: "master \<Rightarrow> master" where
  "cw_master_process_exit m =
     m\<lparr>ms_log := ms_log m @ [MasterExit], ms_zlog := False, ms_freed := ms_freed m @ [ms_cycle m], ms_pc := MasterExited 0\<rparr>"

definition master_round :: "master \<Rightarrow> master" where
  "master_round m =
     (let g = ms_flags m;
          again = (\<lambda>msgs. m\<lparr>ms_pc := AtHead, ms_log := ms_log m @ msgs\<rparr>)
      in if ms_live m = 0 \<and> (g_terminate g \<noteq> 0 \<or> g_quit g \<noteq> 0) then cw_master_process_exit m
         else if g_terminate g \<noteq> 0 then again [DoTerminate]
         else if g_quit g \<noteq> 0 then again [DoQuit]
         else again [])"

text \<open>
  The process as a step relation: \<open>handled\<close> are the signals with a handler.  A signal wakes
  the process from \<open>sigsuspend\<close> or arrives while it runs, before or after the tests.
\<close>

inductive master_step :: "int set \<Rightarrow> master \<Rightarrow> master \<Rightarrow> bool" for handled where
  master_wake: "ms_pc m = Suspended \<Longrightarrow> signo \<in> handled \<Longrightarrow>
    master_step handled m ((deliver signo sender m)\<lparr>ms_pc := Woken\<rparr>)"
| master_signal: "ms_pc m = AtHead \<or> ms_pc m = Woken \<Longrightarrow> signo \<in> handled \<Longrightarrow> master_step handled m (deliver signo sender m)"
| master_head: "ms_pc m = AtHead \<Longrightarrow> master_step handled m (master_suspend m)"
| master_body: "ms_pc m = Woken \<Longrightarrow> master_step handled m (master_round m)"

abbreviation master_steps :: "int set \<Rightarrow> master \<Rightarrow> master \<Rightarrow> bool" where
  "master_steps handled \<equiv> steps (master_step handled)"

inductive_cases master_stepE: "master_step handled m m'"

text \<open>
  The process as the system runs it: \<open>fatal\<close> are the signals whose default action ends a process, which
  they do when no handler is installed for them.
\<close>

inductive master_process :: "int set \<Rightarrow> int set \<Rightarrow> master \<Rightarrow> master \<Rightarrow> bool" for handled fatal where
  process_step: "master_step handled m m' \<Longrightarrow> master_process handled fatal m m'"
| process_killed: "ms_pc m = AtHead \<or> ms_pc m = Suspended \<or> ms_pc m = Woken \<Longrightarrow> signo \<in> fatal \<Longrightarrow> signo \<notin> handled \<Longrightarrow>
    master_process handled fatal m (m\<lparr>ms_pc := MasterKilled signo\<rparr>)"

inductive_cases master_processE: "master_process handled fatal m m'"

section \<open>The worker\<close>

text \<open>
  \<open>cw_event_actions\<close> is a table of function pointers.  Of its entries the code calls
  \<open>process_events\<close>, so that one is a function on the world of the process; the others are
  addresses.  \<open>None\<close> and 0 are NULL, the value the global starts with.
\<close>

record 'e event_actions =
  ea_add :: addr
  ea_del :: addr
  ea_enable :: addr
  ea_disable :: addr
  ea_add_conn :: addr
  ea_del_conn :: addr
  ea_notify :: addr
  ea_process_events :: "('e \<Rightarrow> 'e) option"
  ea_init :: addr
  ea_done :: addr

definition cw_event_actions :: "'e event_actions" where
  "cw_event_actions =
     \<lparr>ea_add = 0, ea_del = 0, ea_enable = 0, ea_disable = 0, ea_add_conn = 0, ea_del_conn = 0, ea_notify = 0,
      ea_process_events = None, ea_init = 0, ea_done = 0\<rparr>"

text \<open>
  The table of \<open>src/event/modules/cw_epoll_module.c\<close>, and \<open>cw_epoll_init\<close>, which makes it the
  global one.  The functions it names are in no file of the sources: \<open>fn\<close> gives their
  addresses and \<open>process\<close> is \<open>cw_epoll_process_events\<close>.  Nothing in the sources calls
  \<open>cw_epoll_init\<close>.
\<close>

definition cw_epoll_actions :: "(string \<Rightarrow> addr) \<Rightarrow> ('e \<Rightarrow> 'e) \<Rightarrow> 'e event_actions" where
  "cw_epoll_actions fn process =
     \<lparr>ea_add = fn ''cw_epoll_add_event'', ea_del = fn ''cw_epoll_del_event'',
      ea_enable = fn ''cw_epoll_add_event'', ea_disable = fn ''cw_epoll_del_event'',
      ea_add_conn = fn ''cw_epoll_add_connection'', ea_del_conn = fn ''cw_epoll_del_connection'',
      ea_notify = fn ''cw_epoll_notify'', ea_process_events = Some process,
      ea_init = fn ''cw_epoll_init'', ea_done = fn ''cw_epoll_done''\<rparr>"

definition cw_epoll_init :: "(string \<Rightarrow> addr) \<Rightarrow> ('e \<Rightarrow> 'e) \<Rightarrow> 'e event_actions \<Rightarrow> 'e event_actions \<times> int" where
  "cw_epoll_init fn process actions = (cw_epoll_actions fn process, CW_OK)"

datatype worker_msg = WorkerCycle | Exiting

datatype worker_pc = InEvents | InCheck | WorkerExited int | Crashed

record 'e worker =
  wk_pc :: worker_pc
  wk_flags :: sig_flags
  wk_world :: 'e
  wk_log :: "worker_msg list"

text \<open>
  \<open>cw_process_events_and_timers\<close> calls \<open>process_events\<close> with no timer and no flags;
  a call through NULL ends the process.
\<close>

definition cw_process_events_and_timers :: "'e event_actions \<Rightarrow> 'e worker \<Rightarrow> 'e worker" where
  "cw_process_events_and_timers acts w =
     (case ea_process_events acts of
        None \<Rightarrow> w\<lparr>wk_pc := Crashed\<rparr>
      | Some f \<Rightarrow> w\<lparr>wk_pc := InCheck, wk_world := f (wk_world w)\<rparr>)"

definition cw_worker_process_exit :: "'e worker \<Rightarrow> 'e worker" where
  "cw_worker_process_exit w = w"

definition worker_check :: "'e worker \<Rightarrow> 'e worker" where
  "worker_check w =
     (let w1 = (if g_terminate (wk_flags w) \<noteq> 0 then cw_worker_process_exit (w\<lparr>wk_log := wk_log w @ [Exiting]\<rparr>) else w)
      in w1\<lparr>wk_pc := InEvents, wk_log := wk_log w1 @ [WorkerCycle]\<rparr>)"

text \<open>
  \<open>cw_worker_process_init\<close> calls the \<open>init_process\<close> of every module that has one (the
  list holds the pointers), and leaves with code 2 when one fails.
\<close>

fun cw_worker_process_init :: "('e \<Rightarrow> 'e \<times> int) option list \<Rightarrow> 'e worker \<Rightarrow> 'e worker" where
  "cw_worker_process_init [] w = w\<lparr>wk_pc := InEvents, wk_log := wk_log w @ [WorkerCycle]\<rparr>"
| "cw_worker_process_init (None # hooks) w = cw_worker_process_init hooks w"
| "cw_worker_process_init (Some f # hooks) w =
     (let (e, rc) = f (wk_world w); w1 = w\<lparr>wk_world := e\<rparr>
      in if rc = CW_ERROR then w1\<lparr>wk_pc := WorkerExited 2\<rparr> else cw_worker_process_init hooks w1)"

definition worker_deliver :: "int \<Rightarrow> int option \<Rightarrow> 'e worker \<Rightarrow> 'e worker" where
  "worker_deliver signo sender w = w\<lparr>wk_flags := fst (cw_signal_handler signo sender (wk_flags w))\<rparr>"

inductive worker_step :: "int set \<Rightarrow> 'e event_actions \<Rightarrow> 'e worker \<Rightarrow> 'e worker \<Rightarrow> bool" for handled acts where
  worker_signal: "wk_pc w = InEvents \<or> wk_pc w = InCheck \<Longrightarrow> signo \<in> handled \<Longrightarrow>
    worker_step handled acts w (worker_deliver signo sender w)"
| worker_events: "wk_pc w = InEvents \<Longrightarrow> worker_step handled acts w (cw_process_events_and_timers acts w)"
| worker_body: "wk_pc w = InCheck \<Longrightarrow> worker_step handled acts w (worker_check w)"

abbreviation worker_steps :: "int set \<Rightarrow> 'e event_actions \<Rightarrow> 'e worker \<Rightarrow> 'e worker \<Rightarrow> bool" where
  "worker_steps handled acts \<equiv> steps (worker_step handled acts)"

inductive_cases worker_stepE: "worker_step handled acts w w'"

section \<open>Invariants\<close>

lemma deliver_simps [simp]:
  "ms_pc (deliver signo sender m) = ms_pc m" "ms_log (deliver signo sender m) = ms_log m" "ms_live (deliver signo sender m) = ms_live m"
  "ms_flags (deliver signo sender m) = fst (cw_signal_handler signo sender (ms_flags m))"
  "ms_zlog (deliver signo sender m) = ms_zlog m" "ms_freed (deliver signo sender m) = ms_freed m"
  by (simp_all add: deliver_def split: prod.splits)

text \<open>A flag that is set stays set.\<close>

definition stopping :: "sig_flags \<Rightarrow> bool" where
  "stopping g \<longleftrightarrow> g_terminate g \<noteq> 0 \<or> g_quit g \<noteq> 0"

lemma handler_flags:
  "g_terminate g \<noteq> 0 \<Longrightarrow> g_terminate (fst (cw_signal_handler signo sender g)) \<noteq> 0"
  "g_quit g \<noteq> 0 \<Longrightarrow> g_quit (fst (cw_signal_handler signo sender g)) \<noteq> 0"
  "signo = SIGTERM \<Longrightarrow> g_terminate (fst (cw_signal_handler signo sender g)) = 2"
  "signo = SIGQUIT \<Longrightarrow> g_quit (fst (cw_signal_handler signo sender g)) = 1"
  by (auto simp: cw_signal_handler_def Let_def SIGTERM_def SIGQUIT_def split: option.splits)

definition master_alive :: "master \<Rightarrow> bool" where
  "master_alive m \<longleftrightarrow> ms_live m = 1 \<and> ms_pc m \<in> {AtHead, Suspended, Woken}"

interpretation master_loop: transition_system "master_step handled" master_alive "\<lambda>m. stopping (ms_flags m)" for handled
proof
  show "master_alive m'" if "master_alive m" "master_step handled m m'" for m m'
    using that(2,1) by (elim master_stepE) (auto simp: master_alive_def master_round_def master_suspend_def Let_def)
  show "stopping (ms_flags m')" if "master_alive m" "master_step handled m m'" "stopping (ms_flags m)" for m m'
    using that(2,1,3) by (elim master_stepE) (auto simp: master_alive_def master_round_def master_suspend_def Let_def stopping_def handler_flags)
qed

text \<open>
  \<open>turns log\<close>: every answer to a signal comes right after the line that \<open>sigsuspend\<close> is called; so
  between two answers the master has gone to sleep, and it never says that it exits.
\<close>

definition turn_at :: "master_msg list \<Rightarrow> nat \<Rightarrow> bool" where
  "turn_at log i \<longleftrightarrow> log ! i = DebugSigsuspend \<or>
     0 < i \<and> log ! (i - 1) = DebugSigsuspend \<and> (log ! i = DoTerminate \<or> log ! i = DoQuit)"

definition turns :: "master_msg list \<Rightarrow> bool" where
  "turns log \<longleftrightarrow> (\<forall>i<length log. turn_at log i)"

lemma turns_Nil [simp]: "turns []"
  by (simp add: turns_def)

lemma turns_snoc:
  "turns (log @ [x]) \<longleftrightarrow> turns log \<and>
     (x \<noteq> DebugSigsuspend \<longrightarrow> log \<noteq> [] \<and> last log = DebugSigsuspend \<and> (x = DoTerminate \<or> x = DoQuit))"
proof -
  have "turn_at (log @ [x]) i \<longleftrightarrow> turn_at log i" if "i < length log" for i
    using that by (simp add: turn_at_def nth_append less_imp_diff_less)
  moreover have "turn_at (log @ [x]) (length log) \<longleftrightarrow>
      (x \<noteq> DebugSigsuspend \<longrightarrow> log \<noteq> [] \<and> last log = DebugSigsuspend \<and> (x = DoTerminate \<or> x = DoQuit))"
    by (cases log rule: rev_cases) (auto simp: turn_at_def nth_append)
  ultimately show ?thesis by (auto simp: turns_def All_less_Suc)
qed

text \<open>The message of a round, and the invariant of the process.\<close>

definition answer :: "sig_flags \<Rightarrow> master_msg list" where
  "answer g = (if g_terminate g \<noteq> 0 then [DoTerminate] else if g_quit g \<noteq> 0 then [DoQuit] else [])"

lemma master_round_alive:
  "ms_live m \<noteq> 0 \<Longrightarrow> master_round m = m\<lparr>ms_pc := AtHead, ms_log := ms_log m @ answer (ms_flags m)\<rparr>"
  by (simp add: master_round_def answer_def Let_def)

definition process_alive :: "int set \<Rightarrow> int set \<Rightarrow> master \<Rightarrow> bool" where
  "process_alive handled fatal m \<longleftrightarrow>
     ms_live m = 1 \<and> ms_zlog m \<and> ms_freed m = [] \<and> turns (ms_log m) \<and>
     (ms_pc m = Suspended \<or> ms_pc m = Woken \<longrightarrow> ms_log m \<noteq> [] \<and> last (ms_log m) = DebugSigsuspend) \<and>
     (\<forall>code. ms_pc m \<noteq> MasterExited code) \<and> (\<forall>signo. ms_pc m = MasterKilled signo \<longrightarrow> signo \<in> fatal - handled)"

lemma turns_answer:
  "turns (log @ answer g) \<longleftrightarrow> turns log \<and> (stopping g \<longrightarrow> log \<noteq> [] \<and> last log = DebugSigsuspend)"
  by (auto simp: answer_def stopping_def turns_snoc)

lemma process_alive_step:
  assumes "process_alive handled fatal m" and "master_step handled m m'"
  shows "process_alive handled fatal m' \<and> (stopping (ms_flags m) \<longrightarrow> stopping (ms_flags m'))"
  using assms(2,1)
  by (cases rule: master_step.cases)
    (auto simp: process_alive_def master_round_alive master_suspend_def turns_snoc turns_answer stopping_def handler_flags)

interpretation process_loop: transition_system "master_process handled fatal" "process_alive handled fatal"
    "\<lambda>m. stopping (ms_flags m)" for handled fatal
proof
  show "process_alive handled fatal m'" if "process_alive handled fatal m" "master_process handled fatal m m'" for m m'
    using that(2)
  proof (cases rule: master_process.cases)
    case process_step
    then show ?thesis using process_alive_step [OF that(1)] by blast
  next
    case process_killed
    then show ?thesis using that(1) by (simp add: process_alive_def)
  qed
  show "stopping (ms_flags m')"
    if "process_alive handled fatal m" "master_process handled fatal m m'" "stopping (ms_flags m)" for m m'
    using that(2)
  proof (cases rule: master_process.cases)
    case process_step
    then show ?thesis using process_alive_step [OF that(1)] that(3) by blast
  next
    case process_killed
    then show ?thesis using that(3) by simp
  qed
qed

text \<open>The worker: it runs on for ever, or calls through NULL.\<close>

definition worker_alive :: "'e event_actions \<Rightarrow> 'e worker \<Rightarrow> bool" where
  "worker_alive acts w \<longleftrightarrow>
     (if ea_process_events acts = None then wk_pc w = InEvents \<or> wk_pc w = Crashed
      else wk_pc w = InEvents \<or> wk_pc w = InCheck)"

interpretation worker_loop: transition_system "worker_step handled acts" "worker_alive acts"
    "\<lambda>w. g_terminate (wk_flags w) \<noteq> 0" for handled and acts :: "'e event_actions"
proof
  note defs = worker_alive_def worker_deliver_def worker_check_def cw_worker_process_exit_def handler_flags
    cw_process_events_and_timers_def Let_def
  show "worker_alive acts w'" if "worker_alive acts w" "worker_step handled acts w w'" for w w' :: "'e worker"
    using that(2,1) by (elim worker_stepE) (auto simp: defs split: option.splits if_splits)
  show "g_terminate (wk_flags w') \<noteq> 0"
    if "worker_alive acts w" "worker_step handled acts w w'" "g_terminate (wk_flags w) \<noteq> 0" for w w' :: "'e worker"
    using that(2,1,3) by (elim worker_stepE) (auto simp: defs split: option.splits if_splits)
qed

text \<open>The hooks run before the loop.\<close>

lemma worker_init_pc: "wk_pc (cw_worker_process_init hooks w) \<in> {InEvents, WorkerExited 2}"
  by (induction hooks w rule: cw_worker_process_init.induct) (auto simp: Let_def split: prod.splits)

end
