(* ===== verification/Process_Props.thy ===== *)
theory Process_Props
  imports Process_Cycle
begin

text \<open>
  The properties of signals, of the table of processes, and of the master and the workers.
\<close>

section \<open>A table to evaluate on\<close>

definition demo_procs :: "(nat \<Rightarrow> int) \<Rightarrow> procs" where
  "demo_procs fork =
     \<lparr>ps_net = demo_net, ps_fork = fork, ps_getpid = (\<lambda>t. 500 + int t), ps_forks = 0,
      ps_table = (\<lambda>s. \<lparr>pr_pid = 0, pr_channel = (0, 0), pr_proc = 0, pr_data = 0, pr_name = '''', pr_respawn = False,
        pr_just_spawn = False, pr_detached = False, pr_exiting = False, pr_exited = False\<rparr>),
      ps_last = 0, ps_slot = 0, ps_channel = 0, ps_pid = 500, ps_log = [], ps_fault = False\<rparr>"

lemma demo_procs_ok: "procs_ok (demo_procs f)"
  by (simp add: procs_ok_def demo_procs_def demo_net_def)

text \<open>A worker's function never returns.\<close>

definition no_return :: "int \<Rightarrow> procs \<Rightarrow> procs option" where
  "no_return data ps = None"

lemmas spawn_eval = cw_spawn_process_def spawn_channel_def set_process_def register_process_def set_kind_def
  prepare_channel_def cw_nonblocking_def sock_ioctl_def nt_tick_def ps_logged_def cw_close_channel_def cw_close_socket_def
  demo_procs_def demo_net_def no_return_def CW_PROCESS_NORESPAWN_def CW_PROCESS_JUST_SPAWN_def CW_PROCESS_RESPAWN_def
  CW_PROCESS_JUST_RESPAWN_def CW_PROCESS_DETACHED_def CW_MAX_PROCESSES_def CW_INVALID_PID_def

section \<open>The table of processes\<close>



text \<open>
  C29: a spawn that succeeds records the child in the first free entry, below the 1024 of the
  table, and nowhere else; the entry holds its channel, whose two ends are the only new
  descriptors, and \<open>cw_channel\<close> is the child's end.
\<close>

theorem cw_spawn_process_records:
  assumes "procs_ok ps" and "respawn < 0" and "respawn \<noteq> CW_PROCESS_DETACHED" and "0 < ps_fork ps (ps_forks ps)"
    and "cw_spawn_process run proc data name respawn ps = Returned ps' pid" and "pid \<noteq> CW_INVALID_PID"
  shows "\<exists>s ch. s < CW_MAX_PROCESSES \<and> children ps s = None \<and> (\<forall>i < s. children ps i \<noteq> None) \<and>
    children ps' = (children ps)(s \<mapsto> pid) \<and> ps_last ps' \<le> CW_MAX_PROCESSES \<and> \<not> ps_fault ps' \<and>
    pr_channel (ps_table ps' s) = ch \<and> ps_channel ps' = snd ch \<and> pr_data (ps_table ps' s) = data \<and>
    mset (nt_fds (ps_net ps')) = {# fst ch, snd ch #} + mset (nt_fds (ps_net ps))"
  using spawn_parent [OF assms(1,2,4,5)] assms(3,6) unfolding CW_INVALID_PID_def by metis

theorem cw_spawn_process_records_witness:
  "\<exists>ps' s. cw_spawn_process no_return 4096 7 ''worker process'' CW_PROCESS_RESPAWN (demo_procs (\<lambda>t. 600)) =
     Returned ps' 600 \<and> children ps' = [s \<mapsto> 600]"
proof -
  obtain ps' where c: "cw_spawn_process no_return 4096 7 ''worker process'' CW_PROCESS_RESPAWN (demo_procs (\<lambda>t. 600)) =
      Returned ps' 600"
    by (simp add: spawn_eval)
  have k: "CW_PROCESS_RESPAWN < 0" "CW_PROCESS_RESPAWN \<noteq> CW_PROCESS_DETACHED"
    by (simp_all add: CW_PROCESS_RESPAWN_def CW_PROCESS_DETACHED_def)
  have f: "0 < ps_fork (demo_procs (\<lambda>t. 600)) (ps_forks (demo_procs (\<lambda>t. 600)))" by (simp add: demo_procs_def)
  have e: "children (demo_procs (\<lambda>t. 600)) = Map.empty" by (simp add: children_def demo_procs_def fun_eq_iff)
  show ?thesis
    using cw_spawn_process_records [OF demo_procs_ok k f c] c unfolding e by (auto simp: CW_INVALID_PID_def)
qed

text \<open>When the system refuses nothing, a spawn succeeds.\<close>

definition net_serves :: "net \<Rightarrow> bool" where
  "net_serves s \<longleftrightarrow>
     (\<forall>t. \<exists>a b. nt_socketpair s t = Some (a, b) \<and> a \<noteq> -1 \<and> b \<noteq> -1) \<and>
     (\<forall>t fd req arg. nt_ioctl s t fd req arg \<noteq> -1 \<and> nt_fcntl s t fd req arg \<noteq> -1)"

definition serving :: "procs \<Rightarrow> bool" where
  "serving ps \<longleftrightarrow> (\<forall>t. 0 < ps_fork ps t) \<and> net_serves (ps_net ps)"

lemma channel_calls_serve:
  assumes "\<forall>t fd req arg. nt_ioctl s t fd req arg \<noteq> -1 \<and> nt_fcntl s t fd req arg \<noteq> -1"
  shows "\<exists>s1. channel_calls pid s cs = (s1, None) \<and> nt_socketpair s1 = nt_socketpair s \<and> nt_ioctl s1 = nt_ioctl s \<and>
    nt_fcntl s1 = nt_fcntl s"
  using assms
proof (induction cs arbitrary: s)
  case (Cons x cs)
  obtain fd c msg where x: "x = (fd, c, msg)" using prod_cases3 by blast
  obtain s2 r where c: "channel_call pid s fd c = (s2, r)" by fastforce
  have s2: "r \<noteq> -1" "nt_socketpair s2 = nt_socketpair s" "nt_ioctl s2 = nt_ioctl s" "nt_fcntl s2 = nt_fcntl s"
    using c Cons.prems by (cases c; auto simp: cw_nonblocking_def sock_ioctl_def nt_tick_def)+
  then show ?case using Cons.IH [of s2] Cons.prems x c by auto
qed simp

text \<open>The channel of a spawn, when the system refuses nothing; its two ends are new.\<close>

lemma channel_served:
  assumes "net_serves (ps_net ps)" "respawn \<noteq> CW_PROCESS_DETACHED" "s < CW_MAX_PROCESSES"
  shows "\<exists>ps1 ch. spawn_channel s respawn ps = (ps1, Some ch) \<and> net_serves (ps_net ps1) \<and> ps_fork ps1 = ps_fork ps \<and>
    ps_forks ps1 = ps_forks ps \<and> ps_getpid ps1 = ps_getpid ps \<and>
    nt_fds (ps_net ps1) = fst ch # snd ch # nt_fds (ps_net ps) \<and> fst ch \<noteq> -1 \<and> snd ch \<noteq> -1"
proof -
  obtain a b where ch: "nt_socketpair (ps_net ps) (nt_time (ps_net ps)) = Some (a, b)" "a \<noteq> -1" "b \<noteq> -1"
    using assms(1) unfolding net_serves_def by blast
  let ?n = "(nt_tick (ps_net ps))\<lparr>nt_fds := a # b # nt_fds (ps_net ps)\<rparr>"
  obtain n2 where n2: "channel_calls (ps_pid ps) ?n (prepare_channel (a, b)) = (n2, None)"
      "nt_socketpair n2 = nt_socketpair (ps_net ps)" "nt_ioctl n2 = nt_ioctl (ps_net ps)" "nt_fcntl n2 = nt_fcntl (ps_net ps)"
    using channel_calls_serve [of ?n "ps_pid ps" "prepare_channel (a, b)"] assms(1)
    by (auto simp: net_serves_def nt_tick_def)
  have "nt_fds n2 = a # b # nt_fds (ps_net ps)" using channel_calls_fds [OF n2(1)] by simp
  then show ?thesis
    using assms ch n2 by (simp add: spawn_channel_def set_process_def net_serves_def Let_def)
qed

text \<open>The parent's side of a spawn.\<close>

lemma register_process_world [simp]:
  "ps_net (register_process s proc data name respawn pid ps) = ps_net ps"
  "ps_fork (register_process s proc data name respawn pid ps) = ps_fork ps"
  "ps_forks (register_process s proc data name respawn pid ps) = ps_forks ps"
  "ps_getpid (register_process s proc data name respawn pid ps) = ps_getpid ps"
  by (simp_all add: register_process_def set_process_def ps_logged_def Let_def)

lemma spawn_serves:
  assumes "procs_ok ps" "net_serves (ps_net ps)" "0 < ps_fork ps (ps_forks ps)" "respawn < 0" "respawn \<noteq> CW_PROCESS_DETACHED"
    and free: "s < CW_MAX_PROCESSES" "children ps s = None" "\<forall>i < s. children ps i \<noteq> None"
  shows "\<exists>ps'. cw_spawn_process run proc data name respawn ps = Returned ps' (ps_fork ps (ps_forks ps)) \<and>
    net_serves (ps_net ps') \<and> ps_fork ps' = ps_fork ps \<and> ps_forks ps' = Suc (ps_forks ps) \<and> procs_ok ps' \<and>
    children ps' = (children ps)(s \<mapsto> ps_fork ps (ps_forks ps)) \<and> ps_getpid ps' = ps_getpid ps \<and>
    length (nt_fds (ps_net ps')) = length (nt_fds (ps_net ps)) + 2"
proof -
  let ?s = "free_slot (ps_table ps) 0 (ps_last ps)"
  have s: "?s < CW_MAX_PROCESSES"
    using full_table [OF assms(1)] free(1,2) chosen_slot(1) [of ps] assms(1) by (auto simp: procs_ok_def nat_less_le)
  obtain ps1 ch where c1: "spawn_channel ?s respawn ps = (ps1, Some ch)" "net_serves (ps_net ps1)" "ps_fork ps1 = ps_fork ps"
      "ps_forks ps1 = ps_forks ps" "ps_getpid ps1 = ps_getpid ps" "nt_fds (ps_net ps1) = fst ch # snd ch # nt_fds (ps_net ps)"
      "fst ch \<noteq> -1" "snd ch \<noteq> -1"
    using channel_served [OF assms(2,5) s] by blast
  define ps' where "ps' = register_process ?s proc data name respawn (ps_fork ps (ps_forks ps))
    (ps1\<lparr>ps_slot := ?s, ps_forks := Suc (ps_forks ps)\<rparr>)"
  have c: "cw_spawn_process run proc data name respawn ps = Returned ps' (ps_fork ps (ps_forks ps))"
    using assms(3,4) c1(1,3,4) s by (simp add: cw_spawn_process_def ps'_def Let_def)
  have p: "ps_net ps' = ps_net ps1" "ps_fork ps' = ps_fork ps" "ps_forks ps' = Suc (ps_forks ps)" "ps_getpid ps' = ps_getpid ps"
    using c1(3-5) by (simp_all add: ps'_def)
  obtain s' where P: "children ps s' = None" "\<forall>i < s'. children ps i \<noteq> None" "ps_last ps' \<le> CW_MAX_PROCESSES" "\<not> ps_fault ps'"
      "children ps' = (children ps)(s' \<mapsto> ps_fork ps (ps_forks ps))"
    by (rule spawn_parent [OF assms(1,4,3) c]) (use assms(3) in simp_all)
  have "s' = s" using P(1,2) free(2,3) by (metis linorder_neqE_nat)
  moreover have "procs_ok ps'" using P(3,4) assms(1) c1 p(1) by (auto simp: procs_ok_def)
  ultimately show ?thesis using c p c1(2,6) P(5) by (intro exI [of _ ps']) simp
qed

text \<open>
  The child's side: in the child \<open>fork\<close> answers 0.  \<open>child_view k ps\<close> is what the process
  forked by the \<open>k\<close>-th call from now sees of the calls up to its own birth.
\<close>

definition child_view :: "nat \<Rightarrow> procs \<Rightarrow> procs" where
  "child_view k ps = ps\<lparr>ps_fork := (ps_fork ps)(ps_forks ps + k := 0)\<rparr>"

lemma spawn_child:
  assumes "procs_ok ps" "net_serves (ps_net ps)" "ps_fork ps (ps_forks ps) = 0" "respawn < 0" "respawn \<noteq> CW_PROCESS_DETACHED"
    and free: "s < CW_MAX_PROCESSES" "children ps s = None" "\<forall>i < s. children ps i \<noteq> None"
  shows "\<exists>ps'. cw_spawn_process no_return proc data name respawn ps = Child ps' \<and> ps_slot ps' = s \<and>
    ps_pid ps' = ps_getpid ps (Suc (ps_forks ps)) \<and> children ps' = children ps \<and>
    length (nt_fds (ps_net ps')) = length (nt_fds (ps_net ps)) + 2"
proof -
  let ?s = "free_slot (ps_table ps) 0 (ps_last ps)"
  have s: "?s < CW_MAX_PROCESSES"
    using full_table [OF assms(1)] free(1,2) chosen_slot(1) [of ps] assms(1) by (auto simp: procs_ok_def nat_less_le)
  have "?s = s" using chosen_slot(2) [of ps] chosen_slot(3) [of _ ps] free(2,3) by (metis linorder_neqE_nat)
  obtain ps1 ch where c1: "spawn_channel ?s respawn ps = (ps1, Some ch)" "ps_fork ps1 = ps_fork ps"
      "ps_forks ps1 = ps_forks ps" "ps_getpid ps1 = ps_getpid ps" "nt_fds (ps_net ps1) = fst ch # snd ch # nt_fds (ps_net ps)"
    using channel_served [OF assms(2,5) s] by blast
  have "children ps1 = children ps"
    by (rule same_table_children [OF spawn_channel_cases(1) [OF c1(1) s]])
  moreover let ?c = "ps1\<lparr>ps_slot := s, ps_forks := Suc (ps_forks ps), ps_pid := ps_getpid ps (Suc (ps_forks ps))\<rparr>"
  have "cw_spawn_process no_return proc data name respawn ps = Child ?c"
    using assms(3,4) c1(1-4) s \<open>?s = s\<close> by (simp add: cw_spawn_process_def no_return_def Let_def)
  moreover have "children ?c = children ps1" by (rule children_cong) simp_all
  ultimately show ?thesis using c1(5) by (intro exI [of _ ?c]) simp
qed

text \<open>The first \<open>i\<close> entries hold the processes forked so far.\<close>

definition first_children :: "(nat \<Rightarrow> int) \<Rightarrow> nat \<Rightarrow> nat \<Rightarrow> int option" where
  "first_children pids i j = (if j < i then Some (pids j) else None)"

lemma first_children_Suc: "(first_children pids i)(i \<mapsto> pids i) = first_children pids (Suc i)"
  by (auto simp: first_children_def fun_eq_iff less_Suc_eq)

lemma start_one:
  assumes "procs_ok ps" "net_serves (ps_net ps)" "0 < ps_fork ps (ps_forks ps)" "type < 0" "type \<noteq> CW_PROCESS_DETACHED"
    and "i < CW_MAX_PROCESSES" "children ps = first_children pids i" "pids i = ps_fork ps (ps_forks ps)"
  shows "\<exists>ps1. start_workers run proc type i (Suc n) ps = start_workers run proc type (Suc i) n ps1 \<and>
    procs_ok ps1 \<and> net_serves (ps_net ps1) \<and> ps_fork ps1 = ps_fork ps \<and> ps_forks ps1 = Suc (ps_forks ps) \<and>
    children ps1 = first_children pids (Suc i) \<and> ps_getpid ps1 = ps_getpid ps \<and>
    length (nt_fds (ps_net ps1)) = length (nt_fds (ps_net ps)) + 2"
proof -
  have free: "children ps i = None" "\<forall>j<i. children ps j \<noteq> None" by (simp_all add: assms(7) first_children_def)
  show ?thesis
    using spawn_serves [OF assms(1-6) free, of run proc "int i" "''worker process''"] assms(7,8)
    by (auto simp: first_children_Suc [symmetric])
qed

lemma start_workers_children:
  assumes "procs_ok ps" "serving ps" "i + n \<le> CW_MAX_PROCESSES" "type < 0" "type \<noteq> CW_PROCESS_DETACHED"
    and "children ps = first_children pids i"
    and "\<And>j. i \<le> j \<Longrightarrow> pids j = ps_fork ps (ps_forks ps + (j - i))"
  shows "\<exists>ps'. start_workers run proc type i n ps = Inr ps' \<and> procs_ok ps' \<and> children ps' = first_children pids (i + n)"
  using assms
proof (induction n arbitrary: i ps)
  case (Suc n)
  have S: "net_serves (ps_net ps)" "0 < ps_fork ps (ps_forks ps)" "i < CW_MAX_PROCESSES" "pids i = ps_fork ps (ps_forks ps)"
    using Suc.prems(2,3) Suc.prems(7) [of i] by (simp_all add: serving_def)
  obtain ps1 where p: "start_workers run proc type i (Suc n) ps = start_workers run proc type (Suc i) n ps1"
      "procs_ok ps1" "net_serves (ps_net ps1)" "ps_fork ps1 = ps_fork ps" "ps_forks ps1 = Suc (ps_forks ps)"
      "children ps1 = first_children pids (Suc i)"
    using start_one [OF Suc.prems(1) S(1,2) Suc.prems(4,5) S(3) Suc.prems(6) S(4)] by blast
  have pids: "pids j = ps_fork ps1 (ps_forks ps1 + (j - Suc i))" if "Suc i \<le> j" for j
    using Suc.prems(7) [of j] that p(4,5) by (simp add: Suc_diff_Suc)
  have sv: "serving ps1" using Suc.prems(2) p(3,4) by (simp add: serving_def)
  show ?case
    unfolding p(1) using Suc.IH [OF p(2) sv _ Suc.prems(4,5) p(6) pids] Suc.prems(3) by simp
qed simp

lemma start_workers_child:
  assumes "procs_ok ps" "net_serves (ps_net ps)" "i + n \<le> CW_MAX_PROCESSES" "type < 0" "type \<noteq> CW_PROCESS_DETACHED"
    and "children ps = first_children pids i" and "d < n" and "ps_fork ps (ps_forks ps + d) = 0"
    and "\<And>j. i \<le> j \<Longrightarrow> j < i + d \<Longrightarrow> pids j = ps_fork ps (ps_forks ps + (j - i)) \<and> 0 < pids j"
  shows "\<exists>ps'. start_workers no_return proc type i n ps = Inl ps' \<and> ps_slot ps' = i + d \<and>
    ps_pid ps' = ps_getpid ps (Suc (ps_forks ps + d)) \<and> children ps' = first_children pids (i + d) \<and>
    length (nt_fds (ps_net ps')) = length (nt_fds (ps_net ps)) + 2 * Suc d"
  using assms
proof (induction d arbitrary: i ps n)
  case 0
  have free: "i < CW_MAX_PROCESSES" "children ps i = None" "\<forall>j<i. children ps j \<noteq> None"
    using "0.prems"(3,6,7) by (simp_all add: first_children_def)
  have f: "ps_fork ps (ps_forks ps) = 0" using "0.prems"(8) by simp
  obtain n' where n: "n = Suc n'" using "0.prems"(7) by (cases n) auto
  show ?case
    using spawn_child [OF "0.prems"(1,2) f "0.prems"(4,5) free, of proc "int i" "''worker process''"] "0.prems"(6)
    by (auto simp: n)
next
  case (Suc d)
  obtain n' where n: "n = Suc n'" "d < n'" using Suc.prems(7) by (cases n) auto
  have S: "0 < ps_fork ps (ps_forks ps)" "i < CW_MAX_PROCESSES" "pids i = ps_fork ps (ps_forks ps)"
    using Suc.prems(3) Suc.prems(9) [of i] by (simp_all add: n)
  obtain ps1 where p: "start_workers no_return proc type i n ps = start_workers no_return proc type (Suc i) n' ps1"
      "procs_ok ps1" "net_serves (ps_net ps1)" "ps_fork ps1 = ps_fork ps" "ps_forks ps1 = Suc (ps_forks ps)"
      "children ps1 = first_children pids (Suc i)" "ps_getpid ps1 = ps_getpid ps"
      "length (nt_fds (ps_net ps1)) = length (nt_fds (ps_net ps)) + 2"
    using start_one [OF Suc.prems(1,2) S(1) Suc.prems(4,5) S(2) Suc.prems(6) S(3)] n(1) by blast
  have pids: "pids j = ps_fork ps1 (ps_forks ps1 + (j - Suc i)) \<and> 0 < pids j" if "Suc i \<le> j" "j < Suc i + d" for j
    using Suc.prems(9) [of j] that p(4,5) by (simp add: Suc_diff_Suc)
  have z: "ps_fork ps1 (ps_forks ps1 + d) = 0" "Suc i + n' \<le> CW_MAX_PROCESSES" using Suc.prems(3,8) p(4,5) n by simp_all
  show ?case
    unfolding p(1) using Suc.IH [OF p(2,3) z(2) Suc.prems(4,5) p(6) n(2) z(1) pids] p(5,7,8) by simp
qed

lemma start_workers_empty:
  assumes "procs_ok ps" and "serving ps" and "ps_last ps = 0" and "0 \<le> n" and "n \<le> int CW_MAX_PROCESSES"
  shows "\<exists>ps'. cw_start_worker_processes run proc n CW_PROCESS_RESPAWN ps = Inr ps' \<and> procs_ok ps' \<and>
    children ps' = first_children (\<lambda>j. ps_fork ps (ps_forks ps + j)) (nat n)"
proof -
  have e: "children ps = first_children (\<lambda>j. ps_fork ps (ps_forks ps + j)) 0"
    using assms(3) by (simp add: children_def first_children_def fun_eq_iff)
  show ?thesis
    using start_workers_children [OF assms(1,2) _ _ _ e, of "nat n" CW_PROCESS_RESPAWN run proc] assms(4,5)
    by (simp add: cw_start_worker_processes_def CW_PROCESS_RESPAWN_def CW_PROCESS_DETACHED_def nat_le_iff)
qed

lemma start_workers_born:
  assumes "procs_ok ps" and "serving ps" and "ps_last ps = 0" and "0 \<le> n" and "n \<le> int CW_MAX_PROCESSES" and "k < nat n"
  shows "\<exists>ps'. cw_start_worker_processes no_return proc n CW_PROCESS_RESPAWN (child_view k ps) = Inl ps' \<and>
    ps_slot ps' = k \<and> ps_pid ps' = ps_getpid ps (Suc (ps_forks ps + k)) \<and>
    children ps' = first_children (\<lambda>j. ps_fork ps (ps_forks ps + j)) k \<and>
    length (nt_fds (ps_net ps')) = length (nt_fds (ps_net ps)) + 2 * Suc k"
proof -
  let ?pids = "\<lambda>j. ps_fork ps (ps_forks ps + j)"
  have v: "procs_ok (child_view k ps)" "net_serves (ps_net (child_view k ps))" "0 + nat n \<le> CW_MAX_PROCESSES"
    "children (child_view k ps) = first_children ?pids 0"
    "ps_fork (child_view k ps) (ps_forks (child_view k ps) + k) = 0"
    using assms(1-3,5) by (simp_all add: child_view_def procs_ok_def serving_def children_def first_children_def fun_eq_iff nat_le_iff)
  have "CW_PROCESS_RESPAWN < 0" "CW_PROCESS_RESPAWN \<noteq> CW_PROCESS_DETACHED"
    by (simp_all add: CW_PROCESS_RESPAWN_def CW_PROCESS_DETACHED_def)
  from start_workers_child [OF v(1-3) this v(4) assms(6) v(5), of proc] assms(2)
  show ?thesis by (simp add: cw_start_worker_processes_def child_view_def serving_def)
qed

text \<open>
  C30: starting the workers, when the system refuses nothing and the table is empty.  In the
  master \<open>cw_start_worker_processes\<close> fills the first \<open>n\<close> entries with the processes forked,
  in order, and leaves the rest free.  The child of the \<open>k\<close>-th fork is in the worker's function
  for good, knows its slot, its number and its elder siblings, and holds both ends of its own channel and
  of all of theirs: no code closes the ends that are not the child's.
\<close>

theorem cw_start_worker_processes_children:
  assumes "procs_ok ps" and "serving ps" and "ps_last ps = 0" and "0 \<le> n" and "n \<le> int CW_MAX_PROCESSES"
  shows "(\<exists>ps'. cw_start_worker_processes run proc n CW_PROCESS_RESPAWN ps = Inr ps' \<and> procs_ok ps' \<and>
      children ps' = first_children (\<lambda>j. ps_fork ps (ps_forks ps + j)) (nat n)) \<and>
    (\<forall>k < nat n. \<exists>ps'. cw_start_worker_processes no_return proc n CW_PROCESS_RESPAWN (child_view k ps) = Inl ps' \<and>
      ps_slot ps' = k \<and> ps_pid ps' = ps_getpid ps (Suc (ps_forks ps + k)) \<and>
      children ps' = first_children (\<lambda>j. ps_fork ps (ps_forks ps + j)) k \<and>
      length (nt_fds (ps_net ps')) = length (nt_fds (ps_net ps)) + 2 * Suc k)"
  using start_workers_empty [OF assms] start_workers_born [OF assms] by blast

theorem cw_start_worker_processes_children_witness:
  "(\<exists>ps'. cw_start_worker_processes no_return 4096 2 CW_PROCESS_RESPAWN (demo_procs (\<lambda>t. 600 + int t)) = Inr ps' \<and>
      children ps' 0 = Some 600 \<and> children ps' 1 = Some 601 \<and> children ps' 2 = None) \<and>
   (\<exists>ps'. cw_start_worker_processes no_return 4096 2 CW_PROCESS_RESPAWN (child_view 1 (demo_procs (\<lambda>t. 600 + int t))) = Inl ps' \<and>
      ps_slot ps' = 1 \<and> ps_pid ps' = 502 \<and> children ps' 0 = Some 600 \<and> length (nt_fds (ps_net ps')) = 4)"
proof -
  have sv: "serving (demo_procs (\<lambda>t. 600 + int t))" by (simp add: serving_def net_serves_def demo_procs_def demo_net_def)
  have n: "ps_last (demo_procs (\<lambda>t. 600 + int t)) = 0" "(0 :: int) \<le> 2" "(2 :: int) \<le> int CW_MAX_PROCESSES"
    by (simp_all add: demo_procs_def CW_MAX_PROCESSES_def)
  have d: "ps_fork (demo_procs f) = f" "ps_forks (demo_procs f) = 0" "ps_getpid (demo_procs f) t = 500 + int t"
    "nt_fds (ps_net (demo_procs f)) = []" for f t
    by (simp_all add: demo_procs_def demo_net_def)
  note W = cw_start_worker_processes_children [OF demo_procs_ok sv n, of no_return 4096, unfolded d]
  show ?thesis
    using W [THEN conjunct1] W [THEN conjunct2, rule_format, of 1] by (auto simp: first_children_def)
qed

section \<open>Signals\<close>

text \<open>
  \<open>cw_init_signals\<close> installs the handler for the signals of the table up to the first
  refusal, and for no other; so the handler, whose table lookup then succeeds, never prints a
  NULL name.
\<close>

theorem cw_init_signals_named:
  "case cw_init_signals act of (hs, rc) \<Rightarrow>
     set hs \<subseteq> {(SIGQUIT, True), (SIGTERM, True)} \<and>
     (rc = CW_OK \<longleftrightarrow> act SIGQUIT \<noteq> -1 \<and> act SIGTERM \<noteq> -1) \<and>
     (rc = CW_OK \<longrightarrow> hs = [(SIGQUIT, True), (SIGTERM, True)]) \<and>
     (\<forall>(signo, h) \<in> set hs. \<exists>sg. find_signal signo signals = Some sg \<and> sg_signame sg \<noteq> None)"
  by (auto simp: cw_init_signals_def signals_def SIGQUIT_def SIGTERM_def cw_sizes)

theorem cw_init_signals_named_witness:
  "cw_init_signals (\<lambda>signo. if signo = SIGTERM then -1 else 0) = ([(SIGQUIT, True)], CW_ERROR)"
  using cw_init_signals_named [of "\<lambda>signo. if signo = SIGTERM then -1 else 0"]
  by (simp add: cw_init_signals_def signals_def SIGQUIT_def SIGTERM_def)

section \<open>The master and the workers\<close>

lemma demo_master:
  "\<exists>ps1. cw_master_process_cycle no_return 4096 cycle g (demo_procs (\<lambda>t. 600 + int t)) = Inr (ps1, master_start cycle g)"
proof -
  have "serving (demo_procs (\<lambda>t. 600 + int t))" by (simp add: serving_def net_serves_def demo_procs_def demo_net_def)
  then have "\<exists>ps1. cw_start_worker_processes no_return 4096 2 CW_PROCESS_RESPAWN (demo_procs (\<lambda>t. 600 + int t)) = Inr ps1"
    using start_workers_empty [OF demo_procs_ok, of _ 2 no_return 4096]
    by (auto simp: demo_procs_def CW_MAX_PROCESSES_def)
  then show ?thesis by (auto simp: cw_master_process_cycle_def)
qed

text \<open>
  C31: the master never exits of itself.  \<open>live\<close> is set once and no code clears it, so whatever
  signals arrive, and in whatever order, \<open>cw_master_process_exit\<close> is never reached: the
  logging library stays up, the cycle is not freed, and the process ends only by a signal for
  which it has no handler and whose default action ends it.  Each time it wakes, its next own step
  takes it to the head of the loop, with the one message its flags ask for, and the one after that to
  \<open>sigsuspend\<close>; between any two such messages it has called \<open>sigsuspend\<close>, so it never
  spins; and once it was told to stop, it only says so whenever it wakes.
\<close>

theorem cw_master_process_cycle_stays:
  assumes "cw_master_process_cycle run proc cycle g ps = Inr (ps1, m0)" and "steps (master_process handled fatal) m0 m"
  shows "(\<forall>code. ms_pc m \<noteq> MasterExited code) \<and> ms_zlog m \<and> ms_freed m = [] \<and>
    (\<forall>signo. ms_pc m = MasterKilled signo \<longrightarrow> signo \<in> fatal - handled) \<and>
    turns (ms_log m) \<and> (stopping g \<longrightarrow> stopping (ms_flags m)) \<and>
    (ms_pc m = Woken \<longrightarrow>
       (\<forall>m'. master_step handled m m' \<longrightarrow>
          (\<exists>signo sender. signo \<in> handled \<and> m' = deliver signo sender m) \<or>
          ms_pc m' = AtHead \<and> ms_flags m' = ms_flags m \<and>
          ms_log m' = ms_log m @ (if g_terminate (ms_flags m) \<noteq> 0 then [DoTerminate]
                                  else if g_quit (ms_flags m) \<noteq> 0 then [DoQuit] else [])) \<and>
       master_step handled m (master_round m)) \<and>
    (ms_pc m = AtHead \<longrightarrow>
       (\<forall>m'. master_step handled m m' \<longrightarrow>
          (\<exists>signo sender. signo \<in> handled \<and> m' = deliver signo sender m) \<or>
          ms_pc m' = Suspended \<and> ms_log m' = ms_log m @ [DebugSigsuspend]) \<and>
       master_step handled m (master_suspend m))"
proof -
  have m0: "m0 = master_start cycle g" using assms(1) by (auto simp: cw_master_process_cycle_def split: sum.splits)
  have a0: "process_alive handled fatal m0" by (simp add: m0 master_start_def process_alive_def)
  have "process_alive handled fatal m" and st: "stopping g \<longrightarrow> stopping (ms_flags m)"
    using process_loop.run [OF assms(2) a0] by (simp_all add: m0 master_start_def)
  then have L: "ms_live m = 1" "ms_zlog m" "ms_freed m = []" "turns (ms_log m)" "\<forall>code. ms_pc m \<noteq> MasterExited code"
    "\<forall>signo. ms_pc m = MasterKilled signo \<longrightarrow> signo \<in> fatal - handled"
    by (simp_all add: process_alive_def)
  have "ms_pc m' = AtHead \<and> ms_flags m' = ms_flags m \<and> ms_log m' = ms_log m @ answer (ms_flags m)"
    if "ms_pc m = Woken" "master_step handled m m'" "\<not> (\<exists>signo sender. signo \<in> handled \<and> m' = deliver signo sender m)" for m'
    using that(2,1,3) L(1) by (elim master_stepE) (auto simp: master_round_alive)
  moreover have "ms_pc m' = Suspended \<and> ms_log m' = ms_log m @ [DebugSigsuspend]"
    if "ms_pc m = AtHead" "master_step handled m m'" "\<not> (\<exists>signo sender. signo \<in> handled \<and> m' = deliver signo sender m)" for m'
    using that(2,1,3) by (elim master_stepE) (auto simp: master_suspend_def)
  ultimately show ?thesis using L st master_head master_body unfolding answer_def by blast
qed

theorem cw_master_process_cycle_stays_witness:
  "\<exists>ps1 m0 m. cw_master_process_cycle no_return 4096 8192 \<lparr>g_quit = 0, g_terminate = 0\<rparr> (demo_procs (\<lambda>t. 600 + int t)) = Inr (ps1, m0) \<and>
     steps (master_process {SIGQUIT, SIGTERM} {9}) m0 m \<and> ms_pc m = Woken \<and> g_terminate (ms_flags m) = 2 \<and>
     ms_pc (master_round m) = AtHead \<and> ms_log (master_round m) = [DebugSigsuspend, DoTerminate]"
proof -
  let ?g = "\<lparr>g_quit = 0, g_terminate = 0\<rparr>" and ?h = "{SIGQUIT, SIGTERM}"
  let ?m1 = "master_suspend (master_start 8192 ?g)"
  let ?m2 = "(deliver SIGTERM None ?m1)\<lparr>ms_pc := Woken\<rparr>"
  obtain ps1 where c: "cw_master_process_cycle no_return 4096 8192 ?g (demo_procs (\<lambda>t. 600 + int t)) = Inr (ps1, master_start 8192 ?g)"
    using demo_master by blast
  have "master_process ?h {9} (master_start 8192 ?g) ?m1"
    by (intro process_step master_head) (simp add: master_start_def)
  moreover have "master_process ?h {9} ?m1 ?m2" by (intro process_step master_wake) (simp_all add: master_suspend_def)
  ultimately have "steps (master_process ?h {9}) (master_start 8192 ?g) ?m2"
    by (blast intro: steps_refl steps_more)
  then obtain m where m: "m = ?m2" and s: "steps (master_process ?h {9}) (master_start 8192 ?g) m" by blast
  have f: "ms_pc m = Woken" "g_terminate (ms_flags m) = 2" "ms_log m = [DebugSigsuspend]" "ms_live m = 1"
    unfolding m by (simp_all add: handler_flags(3)) (simp_all add: master_suspend_def master_start_def)
  have a: "ms_pc (master_round m) = AtHead" using f(4) by (simp add: master_round_alive)
  then have l: "\<not> (\<exists>signo sender. signo \<in> ?h \<and> master_round m = deliver signo sender m)"
    using f(1) deliver_simps(1) by (metis master_pc.distinct(3))
  have "master_step ?h m (master_round m)" using cw_master_process_cycle_stays [OF c s] f(1) by blast
  then have "ms_log (master_round m) =
      ms_log m @ (if g_terminate (ms_flags m) \<noteq> 0 then [DoTerminate] else if g_quit (ms_flags m) \<noteq> 0 then [DoQuit] else [])"
    using cw_master_process_cycle_stays [OF c s] f(1) l by blast
  then have "ms_log (master_round m) = ms_log m @ [DoTerminate]" using f(2) by simp
  then show ?thesis using s c f a by (intro exI [of _ ps1] exI [of _ m] exI) simp
qed

text \<open>
  C38: the master can miss a signal.  Signals are not blocked while it runs, so one that
  arrives at the head of the loop, after the tests and before \<open>sigsuspend\<close>, sets its flag and
  the master goes to sleep all the same, without a word in the log; nothing but another signal
  can wake it.  One that arrives while it sleeps is answered in the round it starts.
\<close>

theorem cw_master_process_cycle_misses:
  assumes "cw_master_process_cycle run proc cycle g ps = Inr (ps1, m0)" and "master_steps handled m0 m"
    and "signo \<in> handled" and "signo = SIGTERM \<or> signo = SIGQUIT"
  shows "(ms_pc m = AtHead \<longrightarrow>
      (\<exists>m'. master_steps handled m m' \<and> ms_pc m' = Suspended \<and> stopping (ms_flags m') \<and>
         ms_log m' = ms_log m @ [DebugSigsuspend] \<and>
         (\<forall>m''. master_step handled m' m'' \<longrightarrow> (\<exists>s p. s \<in> handled \<and> m'' = (deliver s p m')\<lparr>ms_pc := Woken\<rparr>)))) \<and>
    (ms_pc m = Suspended \<longrightarrow>
      (let m' = master_round ((deliver signo sender m)\<lparr>ms_pc := Woken\<rparr>)
       in ms_pc m' = AtHead \<and> ms_log m' \<in> {ms_log m @ [DoTerminate], ms_log m @ [DoQuit]}))"
proof -
  have m0: "m0 = master_start cycle g" using assms(1) by (auto simp: cw_master_process_cycle_def split: sum.splits)
  have alive: "master_alive m"
    using master_loop.run [OF assms(2)] by (simp add: m0 master_start_def master_alive_def)
  show ?thesis
  proof (intro conjI impI)
    assume pc: "ms_pc m = AtHead"
    let ?m' = "master_suspend (deliver signo sender m)"
    have "master_step handled m (deliver signo sender m)" by (rule master_signal) (simp_all add: pc assms(3))
    moreover have "master_step handled (deliver signo sender m) ?m'" by (rule master_head) (simp add: pc)
    ultimately have "master_steps handled m ?m'" by (blast intro: steps_refl steps_more)
    moreover have "stopping (ms_flags ?m')"
      using assms(4) by (auto simp: master_suspend_def stopping_def handler_flags)
    moreover have "\<exists>s p. s \<in> handled \<and> m'' = (deliver s p ?m')\<lparr>ms_pc := Woken\<rparr>" if "master_step handled ?m' m''" for m''
      using that by (cases rule: master_stepE) (auto simp: master_suspend_def)
    ultimately show "\<exists>m'. master_steps handled m m' \<and> ms_pc m' = Suspended \<and> stopping (ms_flags m') \<and>
         ms_log m' = ms_log m @ [DebugSigsuspend] \<and>
         (\<forall>m''. master_step handled m' m'' \<longrightarrow> (\<exists>s p. s \<in> handled \<and> m'' = (deliver s p m')\<lparr>ms_pc := Woken\<rparr>))"
      by (intro exI [of _ ?m']) (auto simp: master_suspend_def)
  next
    assume "ms_pc m = Suspended"
    have "stopping (ms_flags (deliver signo sender m))" using assms(4) by (auto simp: stopping_def handler_flags)
    then show "let m' = master_round ((deliver signo sender m)\<lparr>ms_pc := Woken\<rparr>)
       in ms_pc m' = AtHead \<and> ms_log m' \<in> {ms_log m @ [DoTerminate], ms_log m @ [DoQuit]}"
      using alive by (auto simp: master_round_def master_alive_def stopping_def Let_def)
  qed
qed

theorem cw_master_process_cycle_misses_witness:
  "\<exists>ps1 m0 m'. cw_master_process_cycle no_return 4096 8192 \<lparr>g_quit = 0, g_terminate = 0\<rparr> (demo_procs (\<lambda>t. 600 + int t)) = Inr (ps1, m0) \<and>
     master_steps {SIGTERM} m0 m' \<and> ms_pc m' = Suspended \<and> stopping (ms_flags m') \<and> ms_log m' = [DebugSigsuspend]"
proof -
  obtain ps1 where c: "cw_master_process_cycle no_return 4096 8192 \<lparr>g_quit = 0, g_terminate = 0\<rparr> (demo_procs (\<lambda>t. 600 + int t)) =
      Inr (ps1, master_start 8192 \<lparr>g_quit = 0, g_terminate = 0\<rparr>)"
    using demo_master by blast
  have "ms_pc (master_start 8192 \<lparr>g_quit = 0, g_terminate = 0\<rparr>) = AtHead" "ms_log (master_start 8192 \<lparr>g_quit = 0, g_terminate = 0\<rparr>) = []"
    by (simp_all add: master_start_def)
  then show ?thesis
    using cw_master_process_cycle_misses [OF c steps_refl, of SIGTERM "{SIGTERM}" None] c by auto
qed

text \<open>
  C32: a worker never leaves its loop either: \<open>cw_worker_process_exit\<close> returns, so a worker
  that was told to terminate goes on processing events, and \<open>cw_quit\<close> is never looked at.
  With \<open>cw_epoll_init\<close> called first it goes on for ever; but nothing calls that in the program
  as it is built, no module sets \<open>cw_event_actions\<close>, and then the only other thing a worker can
  do is the call of \<open>process_events\<close> through NULL, which ends it.
\<close>

theorem cw_worker_process_cycle_stays:
  assumes "wk_pc w = InEvents" and "worker_steps handled acts w w'"
  shows "(ea_process_events acts \<noteq> None \<or> acts = fst (cw_epoll_init fn f old) \<longrightarrow> wk_pc w' \<in> {InEvents, InCheck}) \<and>
    (acts = cw_event_actions \<longrightarrow> wk_pc w' \<in> {InEvents, Crashed} \<and>
       wk_pc (cw_process_events_and_timers acts w') = Crashed)"
  using worker_loop.run [OF assms(2)] assms(1)
  by (auto simp: worker_alive_def cw_event_actions_def cw_epoll_init_def cw_epoll_actions_def cw_process_events_and_timers_def)

theorem cw_worker_process_cycle_stays_witness:
  "\<exists>w'. worker_steps {SIGTERM} (fst (cw_epoll_init (\<lambda>s. 4096) Suc cw_event_actions))
     \<lparr>wk_pc = InEvents, wk_flags = \<lparr>g_quit = 0, g_terminate = 2\<rparr>, wk_world = 0, wk_log = []\<rparr> w' \<and>
     wk_world w' = 2 \<and> wk_log w' = [Exiting, WorkerCycle] \<and> wk_pc w' \<in> {InEvents, InCheck}"
proof -
  let ?acts = "fst (cw_epoll_init (\<lambda>s. 4096) Suc cw_event_actions)"
  let ?w0 = "\<lparr>wk_pc = InEvents, wk_flags = \<lparr>g_quit = 0, g_terminate = 2\<rparr>, wk_world = 0, wk_log = []\<rparr>"
  let ?w1 = "cw_process_events_and_timers ?acts ?w0"
  let ?w2 = "worker_check ?w1"
  let ?w3 = "cw_process_events_and_timers ?acts ?w2"
  note epoll = cw_epoll_init_def cw_epoll_actions_def
  have "worker_step {SIGTERM} ?acts ?w0 ?w1" by (rule worker_events) simp
  moreover have "worker_step {SIGTERM} ?acts ?w1 ?w2" by (rule worker_body) (simp add: cw_process_events_and_timers_def epoll)
  moreover have "worker_step {SIGTERM} ?acts ?w2 ?w3" by (rule worker_events) (simp add: worker_check_def Let_def)
  ultimately have s: "worker_steps {SIGTERM} ?acts ?w0 ?w3" by (blast intro: steps_refl steps_more)
  have v: "wk_world ?w3 = 2" "wk_log ?w3 = [Exiting, WorkerCycle]"
    by (simp_all add: cw_process_events_and_timers_def worker_check_def cw_worker_process_exit_def epoll)
  show ?thesis using cw_worker_process_cycle_stays [OF _ s, of "\<lambda>s. 4096" Suc cw_event_actions] s v
    by (intro exI [of _ ?w3]) simp
qed

end
