(* ===== verification/Cycle.thy ===== *)
theory Cycle
  imports Core_Config Sockets
begin

text \<open>
  \<open>src/core/cw_cycle.[ch]\<close> and \<open>cw_cycle_modules\<close> of \<open>src/core/cw_module.c\<close>: the cycle,
  which holds the modules, their configurations and the listening sockets, and
  \<open>cw_init_cycle\<close>, which builds one from a configuration file.
\<close>

section \<open>Data\<close>

definition sizeof_cw_cycle :: u64 where [cw_sizes]: "sizeof_cw_cycle = 112"
definition CW_CYCLE_POOL_SIZE :: u64 where [cw_sizes]: "CW_CYCLE_POOL_SIZE = CW_DEFAULT_POOL_SIZE"

text \<open>\<open>modules\<close> is an array that ends in NULL: its address and the list of its entries.\<close>

record cw_cycle =
  y_addr :: addr
  y_pool :: cw_pool
  y_conf_ctx :: addr
  y_modules_at :: addr
  y_modules :: "cw_module list"
  y_modules_n :: u64
  y_listening :: "cw_listening list"
  y_conf_file :: cw_str
  y_conf_param :: cw_str

text \<open>The world of a process: memory, files, sockets, the cells of the contexts and the messages.\<close>

record world =
  w_heap :: heap
  w_sys :: sys
  w_net :: net
  w_ptrs :: "addr \<Rightarrow> addr"
  w_core :: "addr \<Rightarrow> cw_core_conf option"
  w_log :: "conf_msg list"
  w_ls_log :: "ls_msg list"
  w_environ :: addr

section \<open>\<open>cw_cycle_modules\<close>\<close>

definition cw_cycle_modules ::
    "cw_module list \<Rightarrow> u64 \<Rightarrow> u64 \<Rightarrow> heap \<Rightarrow> cw_pool \<Rightarrow> heap \<times> cw_pool \<times> (addr \<times> cw_module list \<times> u64) option" where
  "cw_cycle_modules mods modules_n max_module h pool =
     (let (h1, pool1, a) = cw_pcalloc h pool ((max_module + 1) * 8)
      in if a = 0 then (h1, pool1, None)
         else (h1, pool1, Some (a, take (unat modules_n) mods, modules_n)))"

section \<open>\<open>cw_init_cycle\<close>\<close>

text \<open>The loop over the modules that creates their configurations; \<open>False\<close> when one returns NULL.\<close>

fun create_confs ::
    "addr \<Rightarrow> cw_module list \<Rightarrow> heap \<Rightarrow> cw_pool \<Rightarrow> (addr \<Rightarrow> addr) \<Rightarrow> (addr \<Rightarrow> cw_core_conf option)
     \<Rightarrow> heap \<times> cw_pool \<times> (addr \<Rightarrow> addr) \<times> (addr \<Rightarrow> cw_core_conf option) \<times> bool" where
  "create_confs ctx [] h pool ptrs core = (h, pool, ptrs, core, True)"
| "create_confs ctx (m # ms) h pool ptrs core =
     (if m_type m \<noteq> CW_CORE_MODULE then create_confs ctx ms h pool ptrs core
      else case m_create m of
        None \<Rightarrow> create_confs ctx ms h pool ptrs core
      | Some create \<Rightarrow>
          (case create h pool core of
             (h1, pool1, core1, rv) \<Rightarrow>
               if rv = 0 then (h1, pool1, ptrs, core1, False)
               else create_confs ctx ms h1 pool1 (ptrs(ctx + 8 * m_index m := rv)) core1))"

text \<open>
  \<open>cw_destroy_cycle_pools\<close>, after the assignment \<open>environ = senv\<close>: \<open>senv\<close> is NULL from its
  declaration on.
\<close>

definition world_of :: "cw_conf \<Rightarrow> world \<Rightarrow> world" where
  "world_of cf w =
     w\<lparr>w_heap := c_heap cf, w_sys := c_sys cf, w_ptrs := c_ptrs cf, w_core := c_core cf, w_log := c_log cf\<rparr>"

definition cw_destroy_cycle_pools :: "cw_conf \<Rightarrow> cw_pool \<Rightarrow> world \<Rightarrow> world" where
  "cw_destroy_cycle_pools cf temp_pool w =
     (let h1 = fst (cw_destroy_pool (c_heap cf) temp_pool);
          h2 = fst (cw_destroy_pool h1 (c_pool cf))
      in (world_of cf w)\<lparr>w_heap := h2\<rparr>)"

text \<open>
  The part from \<open>cw_conf_param\<close> on.  The name of the file is the text copied to \<open>conf_file\<close>, which is
  still there in memory (\<open>name_at_open\<close> in theory \<open>Cycle_Name\<close>).
\<close>

definition cycle_configure ::
    "cw_module list \<Rightarrow> cw_conf_file \<Rightarrow> cw_conf \<Rightarrow> cw_pool \<Rightarrow> cw_cycle \<Rightarrow> world \<Rightarrow> (world \<times> cw_cycle option) option" where
  "cycle_configure mods junk conf temp_pool cycle w =
     (case cw_conf_param mods False junk None conf of
        None \<Rightarrow> None
      | Some (rv, conf1) \<Rightarrow>
          if rv \<noteq> ConfOk
          then Some ((cw_destroy_cycle_pools conf1 temp_pool w)\<lparr>w_environ := 0\<rparr>, None)
          else (case cw_conf_parse mods False junk None conf1 (Some (cstr (s_bytes (y_conf_file cycle)))) of
                  None \<Rightarrow> None
                | Some (rv, conf2) \<Rightarrow>
                    if rv \<noteq> ConfOk
                    then Some ((cw_destroy_cycle_pools conf2 temp_pool w)\<lparr>w_environ := 0\<rparr>, None)
                    else (case cw_open_listening_sockets (w_net w) (w_ls_log w) (y_listening cycle) of
                            (net, ls_log, ls, rc) \<Rightarrow>
                              let w1 = (world_of conf2 w)\<lparr>w_net := net, w_ls_log := ls_log\<rparr>
                              in if rc \<noteq> CW_OK then Some (w1, None)
                                 else Some (w1, Some (cycle\<lparr>y_pool := c_pool conf2, y_listening := ls\<rparr>)))))"

text \<open>The part from the creation of the configurations on; \<open>mods\<close> is \<open>cycle->modules\<close>.\<close>

definition cycle_create ::
    "cw_module list \<Rightarrow> cw_conf_file \<Rightarrow> cw_cycle \<Rightarrow> heap \<Rightarrow> (addr \<Rightarrow> addr) \<Rightarrow> world \<Rightarrow> (world \<times> cw_cycle option) option" where
  "cycle_create mods junk cycle h ptrs w =
     (let failed = (\<lambda>h pool. Some (w\<lparr>w_heap := fst (cw_destroy_pool h pool)\<rparr>, None))
      in case create_confs (y_conf_ctx cycle) mods h (y_pool cycle) ptrs (w_core w) of
           (h1, pool1, ptrs1, core1, False) \<Rightarrow> failed h1 pool1
         | (h1, pool1, ptrs1, core1, True) \<Rightarrow>
             (case cw_array_create h1 pool1 10 sizeof_cw_str of
                (h2, pool2, None) \<Rightarrow> failed h2 pool2
              | (h2, pool2, Some (at, args)) \<Rightarrow>
                  (case cw_create_pool h2 CW_CYCLE_POOL_SIZE of
                     (h3, None) \<Rightarrow> failed h3 pool2
                   | (h3, Some temp_pool) \<Rightarrow>
                       cycle_configure mods junk
                         \<lparr>c_heap = h3, c_sys = w_sys w, c_log = w_log w, c_ptrs = ptrs1, c_core = core1, c_args = args,
                          c_words = [], c_param = y_conf_param cycle, c_pool = pool2, c_file = None,
                          c_ctx = y_conf_ctx cycle, c_module_type = CW_CORE_MODULE, c_cmd_type = CW_MAIN_CONF\<rparr>
                         temp_pool cycle w)))"

text \<open>
  The whole: \<open>mods\<close>, \<open>modules_n\<close> and \<open>max_module\<close> are the globals that
  \<open>cw_preinit_modules\<close> sets, \<open>old_file\<close> is \<open>old_cycle->conf_file\<close>.  The outer option is
  that of the parser's loop.
\<close>

definition cw_init_cycle ::
    "cw_module list \<Rightarrow> u64 \<Rightarrow> u64 \<Rightarrow> cw_conf_file \<Rightarrow> cw_str \<Rightarrow> world \<Rightarrow> (world \<times> cw_cycle option) option" where
  "cw_init_cycle mods modules_n max_module junk old_file w =
     (let failed = (\<lambda>h pool. Some (w\<lparr>w_heap := fst (cw_destroy_pool h pool)\<rparr>, None))
      in case cw_create_pool (w_heap w) CW_CYCLE_POOL_SIZE of
           (h, None) \<Rightarrow> Some (w\<lparr>w_heap := h\<rparr>, None)
         | (h, Some pool) \<Rightarrow>
             let (h1, pool1, cycle) = cw_pcalloc h pool sizeof_cw_cycle
             in if cycle = 0 then failed h1 pool1
             else let (h2, pool2, conf_ctx) = cw_pcalloc h1 pool1 (max_module * 8)
             in if conf_ctx = 0 then failed h2 pool2
             else let len = of_nat (length (s_bytes old_file));
                      (h3, pool3, data) = cw_pnalloc h2 pool2 (len + 1)
             in if data = 0 then failed h3 pool3
             else let h4 = h3\<lparr>h_mem := fst (cw_cpystrn (h_mem h3) data (s_data old_file) (len + 1))\<rparr>
             in case cw_cycle_modules mods modules_n max_module h4 pool3 of
                  (h5, pool5, None) \<Rightarrow> Some (w\<lparr>w_heap := h5\<rparr>, None)
                | (h5, pool5, Some (at, ms, n)) \<Rightarrow>
                    cycle_create ms junk
                      \<lparr>y_addr = cycle, y_pool = pool5, y_conf_ctx = conf_ctx, y_modules_at = at, y_modules = ms,
                       y_modules_n = n, y_listening = [],
                       y_conf_file = \<lparr>s_data = data, s_bytes = mem_bytes (h_mem h4) data (length (s_bytes old_file))\<rparr>,
                       y_conf_param = \<lparr>s_data = 0, s_bytes = []\<rparr>\<rparr>
                      h5 (clear_cells (w_ptrs w) conf_ctx (max_module * 8)) w)"

end
