(* ===== verification/Cycle_Life.thy ===== *)
theory Cycle_Life
  imports Cycle
begin

text \<open>
  What \<open>cw_init_cycle\<close> takes from the C library and gives back: each stage keeps the pool's
  invariant and leaves the regions of others alone, so that destroying the pool restores the
  heap.
\<close>

section \<open>A pool that is being filled\<close>

text \<open>
  \<open>boot live g h p rs\<close>: the pool is well formed, \<open>live\<close> are the live regions that are not its
  own, and the heap has gone on from \<open>g\<close>.
\<close>

definition boot :: "region list \<Rightarrow> heap \<Rightarrow> heap \<Rightarrow> cw_pool \<Rightarrow> region list \<Rightarrow> bool" where
  "boot live g h p rs \<longleftrightarrow> pool_inv h p rs \<and> others h p = live \<and> h_refused g \<le> h_refused h"

lemma create_pool_counts: "cw_create_pool h sz = (h', r) \<Longrightarrow> h_refused h \<le> h_refused h'"
  by (auto simp: cw_create_pool_def cw_memalign_eq Let_def dest: libc_request_counts split: prod.splits if_splits)

lemma create_pool_refused: "cw_create_pool h sz = (h', None) \<Longrightarrow> refusal h h'"
  by (auto simp: cw_create_pool_def cw_memalign_eq Let_def dest: libc_request_refusal split: prod.splits if_splits)

lemma boot_create:
  assumes ok: "heap_ok g" and c: "cw_create_pool g CW_CYCLE_POOL_SIZE = (h, Some p)"
  shows "boot (h_live g) g h p []"
proof -
  have sz: "80 \<le> unat CW_CYCLE_POOL_SIZE" "unat CW_CYCLE_POOL_SIZE mod 8 = 0" by (simp_all add: cw_sizes)
  note P = cw_create_pool_ok [OF ok c sz]
  have hok: "heap_ok h" using P(1) by (simp add: pool_inv_def)
  have "distinct (map fst (h_live h))" using hok by (simp add: heap_ok_def)
  then have "b_addr (hd (p_blocks p)) \<notin> fst ` set (h_live g)" by (simp add: P(2))
  then have "others h p = h_live g"
    unfolding others_def P(2,3) by (force simp: filter_id_conv)
  then show ?thesis using P(1) create_pool_counts [OF c] by (simp add: boot_def)
qed

lemma pool_op_counts: "pool_op_run h p x = (h', p', a) \<Longrightarrow> h_refused h \<le> h_refused h'"
  by (cases x) (auto simp: cw_pcalloc_def Let_def dest: cw_palloc_counts cw_pnalloc_counts split: prod.splits if_splits)

lemma pool_op_refused: "pool_inv h p rs \<Longrightarrow> pool_op_run h p x = (h', p', 0) \<Longrightarrow> refusal h h'"
  by (cases x) (simp_all add: cw_palloc_refused(4) cw_pnalloc_refused(4) cw_pcalloc_refused(4))

lemma boot_op:
  assumes b: "boot live g h p rs" and c: "pool_op_run h p x = (h', p', a)"
  shows "boot live g h' p' (if a = 0 then rs else (a, op_size x) # rs)" and "a = 0 \<Longrightarrow> refusal g h'"
proof -
  show "boot live g h' p' (if a = 0 then rs else (a, op_size x) # rs)"
    using pool_op_keeps [OF _ c] b took_others pool_op_counts [OF c] unfolding boot_def by (metis le_trans)
  show "a = 0 \<Longrightarrow> refusal g h'" using b c pool_op_refused [of h p rs x] by (auto simp: boot_def refusal_def)
qed

lemmas boot_pcalloc = boot_op [where x = "Pcalloc n" for n, simplified]
lemmas boot_palloc = boot_op [where x = "Palloc n" for n, simplified]
lemmas boot_pnalloc = boot_op [where x = "Pnalloc n" for n, simplified]

lemma boot_mem: "boot live g h p rs \<Longrightarrow> boot live g (h\<lparr>h_mem := m\<rparr>) p rs"
  by (simp add: boot_def pool_inv_mem others_def)

lemma destroy_pool_refused [simp]: "h_refused (fst (cw_destroy_pool h p)) = h_refused h"
proof -
  have "h_refused (fold (\<lambda>a h. cw_free h a) as h) = h_refused h" for as
    by (induction as arbitrary: h) (simp_all add: cw_frame)
  then show ?thesis by (simp only: destroy_as_frees)
qed

lemma boot_destroy: "boot live g h p rs \<Longrightarrow> h_live (fst (cw_destroy_pool h p)) = live"
  using cw_destroy_pool_frees(2) by (auto simp: boot_def)

text \<open>The array of the arguments, and the environment of the core configuration.\<close>

lemma boot_array_init:
  assumes "boot live g h p rs" and "cw_array_init h p n sz = (h', p', arr, rc)"
  shows "\<exists>rs'. boot live g h' p' (rs' @ rs)" and "rc \<noteq> CW_OK \<Longrightarrow> refusal g h'"
proof -
  obtain e where e: "cw_palloc h p (n * sz) = (h', p', e)" "rc = (if e = 0 then CW_ERROR else CW_OK)"
    using assms(2) by (auto simp: cw_array_init_def Let_def split: prod.splits)
  note B = boot_palloc [OF assms(1) e(1)]
  show "\<exists>rs'. boot live g h' p' (rs' @ rs)"
    using B(1) by (intro exI [of _ "if e = 0 then [] else [(e, n * sz)]"]) (simp split: if_splits)
  show "rc \<noteq> CW_OK \<Longrightarrow> refusal g h'" using B(2) e(2) by (simp split: if_splits)
qed

lemma boot_array_create:
  assumes b: "boot live g h p rs" and c: "cw_array_create h p n sz = (h', p', r)"
  shows "\<exists>rs'. boot live g h' p' (rs' @ rs)" and "r = None \<Longrightarrow> refusal g h'"
proof -
  obtain h1 p1 a where c1: "cw_palloc h p sizeof_cw_array = (h1, p1, a)" using prod_cases3 by blast
  note b1 = boot_palloc [OF b c1]
  have "(\<exists>rs'. boot live g h' p' (rs' @ rs)) \<and> (r = None \<longrightarrow> refusal g h')"
  proof (cases "a = 0")
    case True
    then have "h' = h1" "p' = p1" using c c1 by (simp_all add: cw_array_create_def)
    then show ?thesis using b1 True by (intro conjI exI [of _ "[]"]) simp_all
  next
    case False
    obtain arr rc where i: "cw_array_init h1 p1 n sz = (h', p', arr, rc)" "r = None \<longrightarrow> rc \<noteq> CW_OK"
      using c c1 False by (auto simp: cw_array_create_def Let_def split: prod.splits)
    note I = boot_array_init [OF b1(1) i(1)]
    obtain rs' where "boot live g h' p' (rs' @ (a, sizeof_cw_array) # rs)" using I(1) False by auto
    then show ?thesis using I(2) i(2) by (intro conjI exI [of _ "rs' @ [(a, sizeof_cw_array)]"]) auto
  qed
  then show "\<exists>rs'. boot live g h' p' (rs' @ rs)" and "r = None \<Longrightarrow> refusal g h'" by simp_all
qed

section \<open>The configurations\<close>

lemma core_create_conf:
  assumes b: "boot live g h p rs" and c: "cw_core_module_create_conf h p core = (h', p', core', rv)"
  shows "\<exists>rs'. boot live g h' p' (rs' @ rs)" and "rv = 0 \<Longrightarrow> refusal g h'"
    and "rv \<noteq> 0 \<Longrightarrow> \<exists>ccf. core' rv = Some ccf \<and> cc_worker_processes ccf = CW_CONF_UNSET"
proof -
  obtain h1 p1 a where c1: "cw_pcalloc h p sizeof_cw_core_conf = (h1, p1, a)" using prod_cases3 by blast
  note b1 = boot_pcalloc [OF b c1]
  obtain h2 p2 env rc where c2: "cw_array_init h1 p1 1 sizeof_cw_str = (h2, p2, env, rc)" using prod_cases4 by blast
  have "(\<exists>rs'. boot live g h' p' (rs' @ rs)) \<and> (rv = 0 \<longrightarrow> refusal g h')"
  proof (cases "a = 0")
    case True
    then show ?thesis using c c1 b1 by (intro conjI exI [of _ "[]"]) (simp_all add: cw_core_module_create_conf_def)
  next
    case False
    then have e: "h' = h2" "p' = p2" "rv = 0 \<longrightarrow> rc \<noteq> CW_OK"
      using c c1 c2 by (auto simp: cw_core_module_create_conf_def Let_def split: if_splits)
    note I = boot_array_init [OF b1(1) c2]
    obtain rs' where "boot live g h2 p2 (rs' @ (a, sizeof_cw_core_conf) # rs)" using I(1) False by auto
    then show ?thesis using I(2) e by (intro conjI exI [of _ "rs' @ [(a, sizeof_cw_core_conf)]"]) auto
  qed
  then show "\<exists>rs'. boot live g h' p' (rs' @ rs)" and "rv = 0 \<Longrightarrow> refusal g h'" by simp_all
  show "rv \<noteq> 0 \<Longrightarrow> \<exists>ccf. core' rv = Some ccf \<and> cc_worker_processes ccf = CW_CONF_UNSET"
    using c c1 c2 by (auto simp: cw_core_module_create_conf_def Let_def split: if_splits)
qed

lemma create_core_confs_eq:
  "create_confs ctx (core_modules ncpu) h p ptrs core =
     (case cw_core_module_create_conf h p core of
        (h1, p1, core1, rv) \<Rightarrow> if rv = 0 then (h1, p1, ptrs, core1, False) else (h1, p1, ptrs(ctx := rv), core1, True))"
  by (simp add: modules_eq cw_core_module_def split: prod.splits)

lemma create_core_confs:
  assumes b: "boot live g h p rs" and c: "create_confs ctx (core_modules ncpu) h p ptrs core = (h', p', ptrs', core', ok)"
  shows "\<exists>rs'. boot live g h' p' (rs' @ rs)" and "\<not> ok \<Longrightarrow> refusal g h'"
    and "ok \<Longrightarrow> \<exists>ccf. core' (ptrs' ctx) = Some ccf \<and> cc_worker_processes ccf = CW_CONF_UNSET"
proof -
  obtain h1 p1 core1 rv where r: "cw_core_module_create_conf h p core = (h1, p1, core1, rv)" using prod_cases4 by blast
  note R = core_create_conf [OF b r]
  have e: "create_confs ctx (core_modules ncpu) h p ptrs core =
      (if rv = 0 then (h1, p1, ptrs, core1, False) else (h1, p1, ptrs(ctx := rv), core1, True))"
    by (simp add: create_core_confs_eq r)
  show "\<exists>rs'. boot live g h' p' (rs' @ rs)" using c R(1) unfolding e by (auto split: if_splits)
  show "\<not> ok \<Longrightarrow> refusal g h'" using c R(2) unfolding e by (auto split: if_splits)
  show "ok \<Longrightarrow> \<exists>ccf. core' (ptrs' ctx) = Some ccf \<and> cc_worker_processes ccf = CW_CONF_UNSET"
    using c R(3) unfolding e by (auto split: if_splits)
qed

section \<open>The temporary pool\<close>

text \<open>It is a second pool on the same heap, one block that nothing is taken from.\<close>

lemma temp_pool_created:
  assumes b: "array_inv h p arr rs" and o: "others h p = live"
    and c: "cw_create_pool h CW_CYCLE_POOL_SIZE = (h', Some temp)"
  obtains t where "array_inv h' p arr rs" and "others h' p = (t, CW_CYCLE_POOL_SIZE) # live"
    and "t \<noteq> 0" and "\<And>h. fst (cw_destroy_pool h temp) = cw_free h t"
proof -
  have inv: "pool_inv h p (arr_region arr # rs)" using b by (simp add: array_inv_def)
  have hok: "heap_ok h" using inv by (simp add: pool_inv_def)
  obtain t where r: "libc_request h CW_POOL_ALIGNMENT CW_CYCLE_POOL_SIZE = (h', t)" and t: "t \<noteq> 0"
    and temp: "p_large temp = []" "map b_addr (p_blocks temp) = [t]"
    using c by (auto simp: cw_create_pool_def cw_memalign_eq Let_def split: prod.splits if_splits)
  note G = libc_request_granted [OF hok r t]
  have hok': "heap_ok h'" by (rule libc_request_ok [OF hok r])
  have "pool_inv h' p (arr_region arr # rs)" by (rule pool_inv_more_heap [OF inv hok']) (auto simp: G(1))
  then have "array_inv h' p arr rs" using b by (simp add: array_inv_def)
  moreover have "t \<notin> set (pool_addrs p)"
    using G(2) owned_live [OF pool_invD(3) [OF inv]] by (auto simp: fits_def)
  then have "others h' p = (t, CW_CYCLE_POOL_SIZE) # live" using o by (simp add: others_def G(1))
  moreover have "fst (cw_destroy_pool h temp) = cw_free h t" for h
    by (simp add: destroy_as_frees temp large_addrs_def)
  ultimately show ?thesis using that t by blast
qed

lemma destroy_cycle_pools:
  assumes ok: "args_ok rs cf" and o: "others (c_heap cf) (c_pool cf) = (t, n) # live"
    and temp: "\<And>h. fst (cw_destroy_pool h temp) = cw_free h t"
  shows "h_live (w_heap (cw_destroy_cycle_pools cf temp w)) = live"
    and "h_refused (w_heap (cw_destroy_cycle_pools cf temp w)) = h_refused (c_heap cf)"
    and "w_sys (cw_destroy_cycle_pools cf temp w) = c_sys cf"
proof -
  let ?cf = "cf\<lparr>c_heap := cw_free (c_heap cf) t\<rparr>"
  have hok: "heap_ok (c_heap cf)" by (rule args_ok_heap_ok [OF ok])
  have "args_ok rs ?cf" by (rule args_ok_free [OF ok, of t n]) (simp add: o)
  then obtain rs' where "pool_inv (cw_free (c_heap cf) t) (c_pool cf) rs'" by (auto simp: args_ok_def array_inv_def)
  then have "h_live (fst (cw_destroy_pool (cw_free (c_heap cf) t) (c_pool cf))) = others (cw_free (c_heap cf) t) (c_pool cf)"
    by (rule cw_destroy_pool_frees(2))
  then show "h_live (w_heap (cw_destroy_cycle_pools cf temp w)) = live"
    by (simp add: cw_destroy_cycle_pools_def Let_def temp others_free [OF hok o])
  show "h_refused (w_heap (cw_destroy_cycle_pools cf temp w)) = h_refused (c_heap cf)"
    by (simp add: cw_destroy_cycle_pools_def Let_def)
  show "w_sys (cw_destroy_cycle_pools cf temp w) = c_sys cf"
    by (simp add: cw_destroy_cycle_pools_def Let_def world_of_def)
qed

end
