(* ===== verification/Cycle_Name.thy ===== *)
theory Cycle_Name
  imports Cycle_Life
begin

text \<open>
  The name of the configuration file: \<open>cw_init_cycle\<close> copies it from the old cycle into its
  own pool, and what it opens is that name.  The text of the name may lie anywhere in memory
  that is not the new pool's, as static data or the data of another pool does.
\<close>

section \<open>Memory of others\<close>

lemma others_apart:
  assumes b: "boot live g h p rs" and r: "r \<in> set rs" and l: "l \<in> set live"
  shows "rdisj r l"
proof -
  have inv: "pool_inv h p rs" and lo: "l \<in> set (h_live h)" "fst l \<notin> set (pool_addrs p)"
    using b l by (auto simp: boot_def others_def)
  obtain k where k: "k \<in> set (h_live h)" "fst k \<in> set (pool_addrs p)" "lo k \<le> lo r" "hi r \<le> hi k"
    using pool_region_live [OF inv, of r] r by auto
  have "rdisj k l" using live_disjoint [OF pool_invD(1) [OF inv] k(1) lo(1)] k(2) lo(2) by metis
  then show ?thesis using k(3,4) by (auto simp: rdisj_def lo_def hi_def word_unat_eq_iff)
qed

lemma boot_pcalloc_mem:
  assumes b: "boot live g h p rs" and c: "cw_pcalloc h p n = (h', p', a)" and l: "l \<in> set live" "inside x l"
  shows "h_mem h' x = h_mem h x"
proof -
  obtain h1 where c1: "cw_palloc h p n = (h1, p', a)"
    and h': "h' = (if a \<noteq> 0 then h1\<lparr>h_mem := cw_memset (h_mem h1) a 0 n\<rparr> else h1)"
    using c by (auto simp: cw_pcalloc_def Let_def split: prod.splits)
  have m: "h_mem h1 = h_mem h" using cw_palloc_frame [OF c1] by simp
  show ?thesis
  proof (cases "a = 0")
    case False
    have b': "boot live g h' p' ((a, n) # rs)" using boot_pcalloc(1) [OF b c] False by simp
    then have "hi (a, n) < 2 ^ 64" using pool_region_bound [of h' p' "(a, n) # rs" "(a, n)"] by (simp add: boot_def)
    moreover have "rdisj (a, n) l" by (rule others_apart [OF b' _ l(1)]) simp
    then have "\<not> inside x (a, n)" using l(2) inside_disjoint by blast
    ultimately show ?thesis using False m h' memset_outside [of a n x "h_mem h1"] by simp
  qed (simp add: h' m)
qed

section \<open>The copy\<close>

text \<open>\<open>name_in live m s\<close>: the text \<open>s\<close>, ended by a NUL, lies in one of the regions \<open>live\<close>.\<close>

definition name_in :: "region list \<Rightarrow> (addr \<Rightarrow> u8) \<Rightarrow> cw_str \<Rightarrow> bool" where
  "name_in live m s \<longleftrightarrow>
     cstring_at m (s_data s) (s_bytes s) \<and>
     (\<exists>l\<in>set live. lo l \<le> unat (s_data s) \<and> unat (s_data s) + length (s_bytes s) + 1 \<le> hi l \<and> hi l < 2 ^ 64)"

lemma name_in_same:
  assumes n: "name_in live m s" and same: "\<And>l x. l \<in> set live \<Longrightarrow> inside x l \<Longrightarrow> m' x = m x"
  shows "name_in live m' s"
proof -
  obtain l where l: "l \<in> set live" "lo l \<le> unat (s_data s)" "unat (s_data s) + length (s_bytes s) + 1 \<le> hi l" "hi l < 2 ^ 64"
    and c: "cstring_at m (s_data s) (s_bytes s)" using n by (auto simp: name_in_def)
  have "m' (s_data s + of_nat i) = m (s_data s + of_nat i)" if "i < length (s_bytes s @ [0])" for i
  proof (rule same [OF l(1)])
    have "unat (s_data s + of_nat i) = unat (s_data s) + i"
      by (rule inside_offset [of _ "length (s_bytes s) + 1"]) (use l that in simp_all)
    then show "inside (s_data s + of_nat i) l" using l that by (simp add: inside_def)
  qed
  then have "cstring_at m' (s_data s) (s_bytes s)"
    using c bytes_at_cong unfolding cstring_at_def by blast
  then show ?thesis using l by (auto simp: name_in_def)
qed

lemma bytes_at_mem: "bytes_at m a bs \<Longrightarrow> mem_bytes m a (length bs) = bs"
  by (auto simp: bytes_at_def mem_bytes_def intro: nth_equalityI)

lemma name_copied:
  assumes b: "boot live g h p rs" and n: "name_in live (h_mem h) s"
    and c: "cw_pnalloc h p (of_nat (length (s_bytes s)) + 1) = (h', p', data)" and data: "data \<noteq> 0"
  shows "mem_bytes (fst (cw_cpystrn (h_mem h') data (s_data s) (of_nat (length (s_bytes s)) + 1))) data (length (s_bytes s))
    = s_bytes s"
proof -
  let ?n = "of_nat (length (s_bytes s)) + 1 :: u64"
  obtain l where l: "l \<in> set live" "lo l \<le> unat (s_data s)" "unat (s_data s) + length (s_bytes s) + 1 \<le> hi l" "hi l < 2 ^ 64"
    and str: "cstring_at (h_mem h) (s_data s) (s_bytes s)" using n by (auto simp: name_in_def)
  have len: "unat (of_nat (Suc (length (s_bytes s))) :: u64) = Suc (length (s_bytes s))"
    by (rule unat_of_nat_64) (use l in simp)
  have nn: "?n = of_nat (Suc (length (s_bytes s)))" by simp
  have b': "boot live g h' p' ((data, ?n) # rs)" using boot_pnalloc(1) [OF b c] data by simp
  then have bd: "hi (data, ?n) < 2 ^ 64" using pool_region_bound [of h' p' "(data, ?n) # rs" "(data, ?n)"] by (simp add: boot_def)
  have "rdisj (data, ?n) l" by (rule others_apart [OF b' _ l(1)]) simp
  then have dis: "rdisj (data, ?n) (s_data s, of_nat (Suc (length (s_bytes s))))"
    using l(2,3) len unfolding rdisj_def nn by (auto simp: lo_def hi_def)
  have m: "h_mem h' = h_mem h" using cw_pnalloc_frame [OF c] by simp
  obtain m' e where cp: "cw_cpystrn (h_mem h') data (s_data s) ?n = (m', e)" by fastforce
  have "?n \<noteq> 0" using len unfolding nn by auto
  from cpystrn_result [OF str [folded m] this _ _ dis cp] bd l len
  have "cstring_at m' data (take (unat ?n - 1) (s_bytes s))" unfolding nn by simp
  then have "bytes_at m' data (s_bytes s @ [0])" using len unfolding nn by (simp add: cstring_at_def)
  then show ?thesis
    using bytes_at_mem [of m' data "s_bytes s @ [0]"] mem_bytes_take [of "length (s_bytes s)" "length (s_bytes s) + 1" m' data]
    by (simp add: cp)
qed

section \<open>The cycle keeps the name\<close>

lemma configure_name:
  "cycle_configure mods junk conf temp cycle w = Some (w', Some y) \<Longrightarrow> y_conf_file y = y_conf_file cycle"
  by (auto simp: cycle_configure_def Let_def split: option.splits prod.splits if_splits)

lemma create_name:
  "cycle_create mods junk cycle h ptrs w = Some (w', Some y) \<Longrightarrow> y_conf_file y = y_conf_file cycle"
  by (auto simp: cycle_create_def Let_def dest: configure_name split: option.splits prod.splits if_splits bool.splits)

section \<open>The name when the file is opened\<close>

text \<open>
  The model keeps in \<open>y_conf_file\<close> the bytes that were copied, and opens the file of that name.  This is
  what memory holds at that moment: between the copy and the call of \<open>cw_conf_parse\<close>, creating
  the configurations, the array of the arguments and the temporary pool write only to regions that
  the pool had not handed out.
\<close>

lemma create_pool_mem: "cw_create_pool h sz = (h', r) \<Longrightarrow> h_mem h' = h_mem h"
  by (auto simp: cw_create_pool_def cw_memalign_def Let_def cw_frame split: prod.splits if_splits)

lemma array_init_mem: "cw_array_init h p n sz = (h', p', arr, rc) \<Longrightarrow> h_mem h' = h_mem h"
  using cw_palloc_frame by (fastforce simp: cw_array_init_def Let_def split: prod.splits if_splits)

lemma array_create_mem: "cw_array_create h p n sz = (h', p', r) \<Longrightarrow> h_mem h' = h_mem h"
  using cw_palloc_frame array_init_mem by (fastforce simp: cw_array_create_def Let_def split: prod.splits if_splits)

lemma create_core_confs_mem:
  assumes b: "boot live g h p rs" and c: "create_confs ctx (core_modules ncpu) h p ptrs core = (h', p', ptrs', core', ok)"
    and k: "k \<in> set rs" "inside x k"
  shows "h_mem h' x = h_mem h x"
proof -
  have inv: "pool_inv h p rs" using b by (simp add: boot_def)
  obtain h1 p1 a where c1: "cw_pcalloc h p sizeof_cw_core_conf = (h1, p1, a)" using prod_cases3 by blast
  obtain h2 p2 env rc where c2: "cw_array_init h1 p1 1 sizeof_cw_str = (h2, p2, env, rc)" using prod_cases4 by blast
  have "h_mem h1 x = h_mem h x"
  proof (cases "a = 0")
    case True
    then have "cw_palloc h p sizeof_cw_core_conf = (h1, p1, 0)"
      using c1 by (auto simp: cw_pcalloc_def Let_def split: prod.splits if_splits)
    then show ?thesis using cw_palloc_frame [of h p sizeof_cw_core_conf h1 p1 0] by simp
  next
    case False
    then show ?thesis using cw_pcalloc_granted(4) [OF inv c1 False k] by simp
  qed
  moreover have "h' = h1 \<or> h' = h2"
    using c c1 c2 by (auto simp: create_core_confs_eq cw_core_module_create_conf_def Let_def split: if_splits)
  ultimately show ?thesis using array_init_mem [OF c2] by auto
qed

lemma name_at_open:
  assumes b: "boot live g h p rs" and k: "(data, n) \<in> set rs" and len: "len \<le> unat n"
    and c1: "create_confs ctx (core_modules ncpu) h p ptrs core = (h1, p1, ptrs1, core1, ok)"
    and c2: "cw_array_create h1 p1 10 sizeof_cw_str = (h2, p2, r2)" and c3: "cw_create_pool h2 CW_CYCLE_POOL_SIZE = (h3, r3)"
  shows "mem_bytes (h_mem h3) data len = mem_bytes (h_mem h) data len"
proof (rule mem_bytes_cong [OF _ len])
  show "h_mem h3 x = h_mem h x" if "inside x (data, n)" for x
    using create_core_confs_mem [OF b c1 k that] array_create_mem [OF c2] create_pool_mem [OF c3] by simp
  show "unat data + unat n < 2 ^ 64" using pool_region_bound [of h p rs "(data, n)"] b k by (simp add: boot_def)
qed

end
