(* ===== verification/Cycle_Run.thy ===== *)
theory Cycle_Run
  imports Cycle_Name
begin

text \<open>
  \<open>cw_init_cycle\<close> with the modules of the program, stage by stage: what it returns, what it
  gives back when it fails, and why it may fail.
\<close>

section \<open>The outcome\<close>

text \<open>The worker processes configured in a cycle.\<close>

definition cycle_wp :: "world \<Rightarrow> cw_cycle \<Rightarrow> int" where
  "cycle_wp w y = cc_worker_processes (the (w_core w (w_ptrs w (y_conf_ctx y))))"

text \<open>
  \<open>built live w y\<close>: the cycle's pool is well formed and is all that is live besides
  \<open>live\<close> and one block, that of the temporary pool; the core configuration is there.
\<close>

definition built :: "region list \<Rightarrow> world \<Rightarrow> cw_cycle \<Rightarrow> bool" where
  "built live w y \<longleftrightarrow>
     (\<exists>t rs. pool_inv (w_heap w) (y_pool y) rs \<and>
        others (w_heap w) (y_pool y) = (t, CW_CYCLE_POOL_SIZE) # live) \<and>
     w_core w (w_ptrs w (y_conf_ctx y)) \<noteq> None \<and> y_listening y = []"

text \<open>
  \<open>unreadable ncpu nm s\<close>: the file \<open>nm\<close> is none that the parser has to accept; either it is not in
  the language, or it is too long for the buffer, or the system does not give its bytes.
\<close>

definition unreadable :: "int \<Rightarrow> u8 list \<Rightarrow> sys \<Rightarrow> bool" where
  "unreadable ncpu nm s \<longleftrightarrow>
     (\<forall>content fd wp. served content s fd nm \<longrightarrow> calm_sys content fd s \<longrightarrow>
        \<not> accepts (core_step ncpu) CW_CONF_UNSET content wp)"

definition outcome :: "int \<Rightarrow> u8 list \<Rightarrow> world \<Rightarrow> world \<times> cw_cycle option \<Rightarrow> bool" where
  "outcome ncpu nm w r \<longleftrightarrow>
     sy_fds (w_sys (fst r)) = sy_fds (w_sys w) \<and> w_net (fst r) = w_net w \<and>
     (case snd r of
        None \<Rightarrow> h_live (w_heap (fst r)) = h_live (w_heap w) \<and>
          (refusal (w_heap w) (w_heap (fst r)) \<or> unreadable ncpu nm (w_sys w))
      | Some y \<Rightarrow> built (h_live (w_heap w)) (fst r) y \<and> cstr (s_bytes (y_conf_file y)) = nm \<and>
          (\<forall>content fd. served content (w_sys w) fd nm \<longrightarrow>
             accepts (core_step ncpu) CW_CONF_UNSET content (cycle_wp (fst r) y)))"

lemma destroyed_outcome:
  assumes "boot (h_live (w_heap w)) (w_heap w) h p rs" and "refusal (w_heap w) h"
  shows "outcome ncpu nm w (w\<lparr>w_heap := fst (cw_destroy_pool h p)\<rparr>, None)"
  using boot_destroy [OF assms(1)] assms(2) by (simp add: outcome_def refusal_def)

section \<open>Reading the configuration\<close>

lemma configure_failed:
  assumes ok: "args_ok rs conf" and rd: "core_ready conf" and wp: "core_wp conf = CW_CONF_UNSET"
    and o: "others (c_heap conf2) (c_pool conf2) = (t, CW_CYCLE_POOL_SIZE) # h_live (w_heap w)" and ok2: "args_ok rs conf2"
    and temp: "\<And>h. fst (cw_destroy_pool h temp) = cw_free h t" and fds: "sy_fds (c_sys conf2) = sy_fds (w_sys w)"
    and sys: "c_sys conf = w_sys w" and cnt: "h_refused (w_heap w) \<le> h_refused (c_heap conf)"
    and p: "cw_conf_parse (core_modules ncpu) False junk None conf (Some nm) = Some (rv, conf2)" and rv: "rv \<noteq> ConfOk"
  shows "outcome ncpu nm w ((cw_destroy_cycle_pools conf2 temp w)\<lparr>w_environ := 0\<rparr>, None)"
proof -
  let ?w = "cw_destroy_cycle_pools conf2 temp w"
  note D = destroy_cycle_pools [OF ok2 o temp, of w]
  have "w_net ?w = w_net w" by (simp add: cw_destroy_cycle_pools_def Let_def world_of_def)
  moreover have "refusal (w_heap w) (w_heap ?w)"
    if "served content (w_sys w) fd nm" "calm_sys content fd (w_sys w)" "accepts (core_step ncpu) CW_CONF_UNSET content n" for content fd n
    using core_lang.parse_refused [OF ok rd _ _ _ p rv, unfolded sys wp, OF that] cnt D(2) by (simp add: refusal_def)
  ultimately show ?thesis using D fds by (auto simp: outcome_def unreadable_def refusal_def)
qed

lemma configure_result:
  assumes ok: "args_ok rs conf" and rd: "core_ready conf" and wp: "core_wp conf = CW_CONF_UNSET" and prm: "s_bytes (c_param conf) = []"
    and o: "others (c_heap conf) (c_pool conf) = (t, CW_CYCLE_POOL_SIZE) # h_live (w_heap w)"
    and temp: "\<And>h. fst (cw_destroy_pool h temp) = cw_free h t" and cnt: "h_refused (w_heap w) \<le> h_refused (c_heap conf)"
    and ls: "y_listening cycle = []" and ctx: "c_ctx conf = y_conf_ctx cycle" and sys: "c_sys conf = w_sys w"
  shows "\<exists>w' r. cycle_configure (core_modules ncpu) junk conf temp cycle w = Some (w', r) \<and>
    outcome ncpu (cstr (s_bytes (y_conf_file cycle))) w (w', r)"
proof -
  have p: "cw_conf_param (core_modules ncpu) False junk None conf = Some (ConfOk, conf)" by (simp add: cw_conf_param_def prm)
  let ?name = "cstr (s_bytes (y_conf_file cycle))"
  obtain rv conf2 where q: "cw_conf_parse (core_modules ncpu) False junk None conf (Some ?name) = Some (rv, conf2)"
    and rel: "released rs conf conf2" and rd2: "core_ready conf2" and ctx2: "c_ctx conf2 = c_ctx conf"
    using core_table.parse_file_ends [OF ok rd] by blast
  have r2: "args_ok rs conf2" "others (c_heap conf2) (c_pool conf2) = (t, CW_CYCLE_POOL_SIZE) # h_live (w_heap w)"
    "sy_fds (c_sys conf2) = sy_fds (w_sys w)"
    using rel o sys by (simp_all add: released_def)
  show ?thesis
  proof (cases "rv = ConfOk")
    case False
    then have "cycle_configure (core_modules ncpu) junk conf temp cycle w =
        Some ((cw_destroy_cycle_pools conf2 temp w)\<lparr>w_environ := 0\<rparr>, None)"
      using p q by (simp add: cycle_configure_def)
    then show ?thesis using configure_failed [OF ok rd wp r2(2,1) temp r2(3) sys cnt q False] by blast
  next
    case True
    let ?w = "(world_of conf2 w)\<lparr>w_net := w_net w, w_ls_log := w_ls_log w\<rparr>"
    let ?y = "cycle\<lparr>y_pool := c_pool conf2, y_listening := []\<rparr>"
    have e: "cycle_configure (core_modules ncpu) junk conf temp cycle w = Some (?w, Some ?y)"
      using True p q ls by (simp add: cycle_configure_def cw_sizes)
    obtain rs' where "pool_inv (c_heap conf2) (c_pool conf2) rs'" using r2(1) by (auto simp: args_ok_def array_inv_def)
    then have "built (h_live (w_heap w)) ?w ?y"
      using r2(2) rd2 ctx ctx2 by (auto simp: built_def world_of_def core_ready_def)
    moreover have "cycle_wp ?w ?y = core_wp conf2" using ctx ctx2 by (simp add: cycle_wp_def core_wp_def world_of_def)
    then have "accepts (core_step ncpu) CW_CONF_UNSET content (cycle_wp ?w ?y)" if "served content (w_sys w) fd ?name" for content fd
      using core_lang.parse_accepts [OF ok rd _ q, of content fd] that True sys wp by simp
    ultimately have "outcome ncpu ?name w (?w, Some ?y)" using r2(3) by (auto simp: outcome_def world_of_def)
    then show ?thesis using e by blast
  qed
qed

text \<open>The configuration is read in a pool of its own, with the arguments in the cycle's.\<close>

definition start_conf :: "cw_cycle \<Rightarrow> heap \<Rightarrow> cw_pool \<Rightarrow> cw_array \<Rightarrow> (addr \<Rightarrow> addr) \<Rightarrow> (addr \<Rightarrow> cw_core_conf option) \<Rightarrow> world \<Rightarrow> cw_conf" where
  "start_conf cycle h p args ptrs core w =
     \<lparr>c_heap = h, c_sys = w_sys w, c_log = w_log w, c_ptrs = ptrs, c_core = core, c_args = args,
      c_words = [], c_param = y_conf_param cycle, c_pool = p, c_file = None,
      c_ctx = y_conf_ctx cycle, c_module_type = CW_CORE_MODULE, c_cmd_type = CW_MAIN_CONF\<rparr>"

lemma array_create_size: "cw_array_create h p n sz = (h', p', Some (a, args)) \<Longrightarrow> a_size args = sz"
  by (auto simp: cw_array_create_def cw_array_init_def Let_def split: prod.splits if_splits)

lemma start_ready:
  assumes b: "boot live g h1 p1 rs" and c2: "cw_array_create h1 p1 10 sizeof_cw_str = (h2, p2, Some (at, args))"
    and c3: "cw_create_pool h2 CW_CYCLE_POOL_SIZE = (h3, Some temp)"
    and core: "\<exists>c. core (ptrs (y_conf_ctx cycle)) = Some c \<and> cc_worker_processes c = CW_CONF_UNSET"
  shows "args_ok [] (start_conf cycle h3 p2 args ptrs core w)" "core_ready (start_conf cycle h3 p2 args ptrs core w)"
    "core_wp (start_conf cycle h3 p2 args ptrs core w) = CW_CONF_UNSET" "h_refused g \<le> h_refused h3"
    "\<exists>t. others h3 p2 = (t, CW_CYCLE_POOL_SIZE) # live \<and> (\<forall>h. fst (cw_destroy_pool h temp) = cw_free h t)"
proof -
  have inv1: "pool_inv h1 p1 rs" using b by (simp add: boot_def)
  have "array_inv h2 p2 args ((at, sizeof_cw_array) # rs)"
    by (rule cw_array_create_ok(1) [OF inv1 c2]) (simp_all add: cw_sizes sizeof_cw_str_def)
  moreover have o2: "others h2 p2 = live" "h_refused g \<le> h_refused h2" using boot_array_create(1) [OF b c2] by (auto simp: boot_def)
  ultimately obtain t where t: "array_inv h3 p2 args ((at, sizeof_cw_array) # rs)"
    "others h3 p2 = (t, CW_CYCLE_POOL_SIZE) # live" "\<And>h. fst (cw_destroy_pool h temp) = cw_free h t"
    using temp_pool_created [OF _ _ c3] by blast
  show "args_ok [] (start_conf cycle h3 p2 args ptrs core w)"
    using t(1) array_create_size [OF c2] by (auto simp: args_ok_def start_conf_def)
  show "core_ready (start_conf cycle h3 p2 args ptrs core w)" "core_wp (start_conf cycle h3 p2 args ptrs core w) = CW_CONF_UNSET"
    using core by (auto simp: start_conf_def core_ready_def core_wp_def)
  show "h_refused g \<le> h_refused h3" using o2(2) create_pool_counts [OF c3] by simp
  show "\<exists>t. others h3 p2 = (t, CW_CYCLE_POOL_SIZE) # live \<and> (\<forall>h. fst (cw_destroy_pool h temp) = cw_free h t)"
    using t by blast
qed

section \<open>Creating the configurations\<close>

lemma create_result:
  assumes b: "boot (h_live (w_heap w)) (w_heap w) h (y_pool cycle) rs" and prm: "s_bytes (y_conf_param cycle) = []"
    and ls: "y_listening cycle = []"
  shows "\<exists>w' r. cycle_create (core_modules ncpu) junk cycle h ptrs w = Some (w', r) \<and>
    outcome ncpu (cstr (s_bytes (y_conf_file cycle))) w (w', r)"
proof -
  obtain h1 p1 ptrs1 core1 ok where c1: "create_confs (y_conf_ctx cycle) (core_modules ncpu) h (y_pool cycle) ptrs (w_core w) =
      (h1, p1, ptrs1, core1, ok)"
    using prod_cases5 by blast
  note C = create_core_confs [OF b c1]
  obtain rs1 where b1: "boot (h_live (w_heap w)) (w_heap w) h1 p1 rs1" using C(1) by blast
  obtain h2 p2 r2 where c2: "cw_array_create h1 p1 10 sizeof_cw_str = (h2, p2, r2)" using prod_cases3 by blast
  note A = boot_array_create [OF b1 c2]
  obtain rs2 where b2: "boot (h_live (w_heap w)) (w_heap w) h2 p2 rs2" using A(1) by blast
  obtain h3 r3 where c3: "cw_create_pool h2 CW_CYCLE_POOL_SIZE = (h3, r3)" by fastforce
  consider "\<not> ok" | "ok" "r2 = None" | "ok" "r2 \<noteq> None" "r3 = None"
    | at args temp where "ok" "r2 = Some (at, args)" "r3 = Some temp"
    by (cases r2; cases r3) auto
  then show ?thesis
  proof cases
    case 1
    then show ?thesis using destroyed_outcome [OF b1 C(2)] by (simp add: cycle_create_def c1)
  next
    case 2
    then show ?thesis using destroyed_outcome [OF b2 A(2)] by (simp add: cycle_create_def c1 c2)
  next
    case 3
    have hok: "heap_ok h2" using b2 by (simp add: boot_def pool_inv_def)
    have n: "h_live h3 = h_live h2 \<and> heap_ok h3" by (rule cw_create_pool_none [OF hok c3 [unfolded 3]])
    have rf: "refusal h2 h3" by (rule create_pool_refused [OF c3 [unfolded 3]])
    have "boot (h_live (w_heap w)) (w_heap w) h3 p2 rs2"
      using b2 n rf pool_inv_more_heap [of h2 p2 rs2 h3] by (simp add: boot_def others_def refusal_def)
    moreover have "refusal (w_heap w) h3" using rf b2 by (simp add: boot_def refusal_def)
    ultimately show ?thesis using destroyed_outcome 3 by (auto simp: cycle_create_def c1 c2 c3)
  next
    case 4
    let ?conf = "start_conf cycle h3 p2 args ptrs1 core1 w"
    have e: "cycle_create (core_modules ncpu) junk cycle h ptrs w = cycle_configure (core_modules ncpu) junk ?conf temp cycle w"
      using 4 by (simp add: cycle_create_def c1 c2 c3 start_conf_def)
    note S = start_ready [where core = core1 and ptrs = ptrs1, OF b1 c2 [unfolded 4] c3 [unfolded 4] C(3) [OF 4(1)]]
    obtain t where t: "others h3 p2 = (t, CW_CYCLE_POOL_SIZE) # h_live (w_heap w)" "\<And>h. fst (cw_destroy_pool h temp) = cw_free h t"
      using S(5) by blast
    have f: "s_bytes (c_param ?conf) = []" "others (c_heap ?conf) (c_pool ?conf) = (t, CW_CYCLE_POOL_SIZE) # h_live (w_heap w)"
      "h_refused (w_heap w) \<le> h_refused (c_heap ?conf)" "c_ctx ?conf = y_conf_ctx cycle" "c_sys ?conf = w_sys w"
      using t(1) prm S(4) by (simp_all add: start_conf_def)
    show ?thesis unfolding e by (rule configure_result [OF S(1-3) f(1,2) t(2) f(3) ls f(4,5)])
  qed
qed

section \<open>The whole\<close>

text \<open>\<open>stranded live h\<close>: a pool is on the heap that was not destroyed.\<close>

definition stranded :: "region list \<Rightarrow> heap \<Rightarrow> bool" where
  "stranded live h \<longleftrightarrow> (\<exists>pool rs. pool_inv h pool rs \<and> others h pool = live)"

lemma stranded_more:
  assumes "stranded live h"
  shows "h_live h \<noteq> live"
proof
  obtain pool rs where inv: "pool_inv h pool rs" and o: "others h pool = live" using assms by (auto simp: stranded_def)
  have 0: "0 < length (p_blocks pool)" using chain_okD(1) [OF pool_invD(2) [OF inv]] by simp
  have l: "(b_addr (p_blocks pool ! 0), pool_size pool) \<in> set (h_live h)" by (rule block_region_live [OF pool_invD(3) [OF inv] 0])
  have "b_addr (p_blocks pool ! 0) \<in> set (pool_addrs pool)" using 0 by (auto simp: pool_addrs_def)
  then have "(b_addr (p_blocks pool ! 0), pool_size pool) \<notin> set (others h pool)" by (simp add: others_def)
  moreover assume "h_live h = live"
  ultimately show False using l o by simp
qed

text \<open>
  \<open>modules_refused\<close>: of the requests \<open>cw_init_cycle\<close> makes, the one for the array of modules is the first
  to be refused.
\<close>

definition modules_refused :: "u64 \<Rightarrow> cw_str \<Rightarrow> heap \<Rightarrow> bool" where
  "modules_refused max_module old g =
     (case cw_create_pool g CW_CYCLE_POOL_SIZE of
        (h, None) \<Rightarrow> False
      | (h, Some pool) \<Rightarrow>
          let (h1, p1, cycle) = cw_pcalloc h pool sizeof_cw_cycle;
              (h2, p2, ctx) = cw_pcalloc h1 p1 (max_module * 8);
              len = of_nat (length (s_bytes old));
              (h3, p3, data) = cw_pnalloc h2 p2 (len + 1);
              h4 = h3\<lparr>h_mem := fst (cw_cpystrn (h_mem h3) data (s_data old) (len + 1))\<rparr>;
              (h5, p5, modules) = cw_pcalloc h4 p3 ((max_module + 1) * 8)
          in cycle \<noteq> 0 \<and> ctx \<noteq> 0 \<and> data \<noteq> 0 \<and> modules = 0)"

lemma init_named:
  assumes ok: "heap_ok g" and n: "name_in (h_live g) (h_mem g) s" and c0: "cw_create_pool g CW_CYCLE_POOL_SIZE = (h0, Some pool)"
    and c1: "cw_pcalloc h0 pool n1 = (h1, p1, cyc)" and c2: "cw_pcalloc h1 p1 n2 = (h2, p2, ctx)"
    and c3: "cw_pnalloc h2 p2 (of_nat (length (s_bytes s)) + 1) = (h3, p3, data)" and data: "data \<noteq> 0"
  shows "mem_bytes (fst (cw_cpystrn (h_mem h3) data (s_data s) (of_nat (length (s_bytes s)) + 1))) data (length (s_bytes s)) = s_bytes s"
proof -
  note b0 = boot_create [OF ok c0]
  note b1 = boot_pcalloc(1) [OF b0 c1] and b2 = boot_pcalloc(1) [OF boot_pcalloc(1) [OF b0 c1] c2]
  have "name_in (h_live g) (h_mem h0) s" using n create_pool_mem [OF c0] by simp
  then have "name_in (h_live g) (h_mem h1) s" by (rule name_in_same) (rule boot_pcalloc_mem [OF b0 c1])
  then have "name_in (h_live g) (h_mem h2) s" by (rule name_in_same) (rule boot_pcalloc_mem [OF b1 c2])
  then show ?thesis by (rule name_copied [OF b2 _ c3 data])
qed

text \<open>
  \<open>cycle_result\<close>: the outcome for the name that the cycle read, which is the old cycle's where that lies
  in memory of others; or, exactly when the array of modules is refused, the leak.
\<close>

definition cycle_result :: "int \<Rightarrow> u64 \<Rightarrow> cw_str \<Rightarrow> world \<Rightarrow> world \<times> cw_cycle option \<Rightarrow> bool" where
  "cycle_result ncpu max_module old w r \<longleftrightarrow>
     (\<exists>nm. (name_in (h_live (w_heap w)) (h_mem (w_heap w)) old \<longrightarrow> nm = s_bytes old) \<and>
        (if modules_refused max_module old (w_heap w)
         then snd r = None \<and> sy_fds (w_sys (fst r)) = sy_fds (w_sys w) \<and> w_net (fst r) = w_net w \<and>
           stranded (h_live (w_heap w)) (w_heap (fst r)) \<and> refusal (w_heap w) (w_heap (fst r))
         else outcome ncpu nm w r))"

lemma cycle_resultI:
  "outcome ncpu (s_bytes old) w r \<Longrightarrow> \<not> modules_refused max_module old (w_heap w) \<Longrightarrow> cycle_result ncpu max_module old w r"
  by (auto simp: cycle_result_def)

lemma init_modules_result:
  assumes ok: "heap_ok (w_heap w)" and c0: "cw_create_pool (w_heap w) CW_CYCLE_POOL_SIZE = (h, Some pool)"
    and c1: "cw_pcalloc h pool sizeof_cw_cycle = (h1, p1, cyc)" and c2: "cw_pcalloc h1 p1 (max_module * 8) = (h2, p2, ctx)"
    and c3: "cw_pnalloc h2 p2 (of_nat (length (s_bytes old)) + 1) = (h3, p3, data)"
    and nz: "cyc \<noteq> 0" "ctx \<noteq> 0" "data \<noteq> 0"
  shows "\<exists>w' r. cw_init_cycle (core_modules ncpu) 1 max_module junk old w = Some (w', r) \<and> cycle_result ncpu max_module old w (w', r)"
proof -
  let ?live = "h_live (w_heap w)"
  define h4 where "h4 = h3\<lparr>h_mem := fst (cw_cpystrn (h_mem h3) data (s_data old) (of_nat (length (s_bytes old)) + 1))\<rparr>"
  have b3: "boot ?live (w_heap w) h3 p3 ((data, of_nat (length (s_bytes old)) + 1) # (ctx, max_module * 8) # (cyc, sizeof_cw_cycle) # [])"
    using boot_pnalloc(1) [OF boot_pcalloc(1) [OF boot_pcalloc(1) [OF boot_create [OF ok c0] c1] c2] c3] nz by simp
  then have b4: "boot ?live (w_heap w) h4 p3 ((data, of_nat (length (s_bytes old)) + 1) # (ctx, max_module * 8) # (cyc, sizeof_cw_cycle) # [])"
    unfolding h4_def by (rule boot_mem)
  obtain h5 p5 at where c5: "cw_pcalloc h4 p3 ((max_module + 1) * 8) = (h5, p5, at)" using prod_cases3 by blast
  note b5 = boot_pcalloc [OF b4 c5]
  have mr: "modules_refused max_module old (w_heap w) \<longleftrightarrow> at = 0"
    using nz by (simp add: modules_refused_def c0 c1 c2 c3 c5 [unfolded h4_def] Let_def del: distrib_right_numeral)
  have m5: "cw_cycle_modules (core_modules ncpu) 1 max_module h4 p3 =
      (h5, p5, if at = 0 then None else Some (at, core_modules ncpu, 1))"
    unfolding cw_cycle_modules_def c5 by (simp add: modules_eq)
  show ?thesis
  proof (cases "at = 0")
    case True
    then have "stranded ?live h5 \<and> refusal (w_heap w) h5" using b5 by (auto simp: stranded_def boot_def)
    then show ?thesis
      using nz True by (auto simp: cw_init_cycle_def c0 c1 c2 c3 m5 [unfolded h4_def] Let_def cycle_result_def mr)
  next
    case False
    define cycle where "cycle = \<lparr>y_addr = cyc, y_pool = p5, y_conf_ctx = ctx, y_modules_at = at, y_modules = core_modules ncpu,
         y_modules_n = 1, y_listening = [],
         y_conf_file = \<lparr>s_data = data, s_bytes = mem_bytes (h_mem h4) data (length (s_bytes old))\<rparr>,
         y_conf_param = \<lparr>s_data = 0, s_bytes = []\<rparr>\<rparr>"
    have e: "cw_init_cycle (core_modules ncpu) 1 max_module junk old w =
        cycle_create (core_modules ncpu) junk cycle h5 (clear_cells (w_ptrs w) ctx (max_module * 8)) w"
      using nz False by (simp add: cw_init_cycle_def c0 c1 c2 c3 m5 [unfolded h4_def] Let_def cycle_def h4_def)
    have "s_bytes (y_conf_param cycle) = []" "y_listening cycle = []" "y_pool cycle = p5" by (simp_all add: cycle_def)
    then obtain w' r where R: "cycle_create (core_modules ncpu) junk cycle h5 (clear_cells (w_ptrs w) ctx (max_module * 8)) w = Some (w', r)"
      "outcome ncpu (cstr (s_bytes (y_conf_file cycle))) w (w', r)"
      using create_result [of w h5 cycle] b5(1) by metis
    have "cstr (s_bytes (y_conf_file cycle)) = s_bytes old" if n: "name_in ?live (h_mem (w_heap w)) old"
    proof -
      have "0 \<notin> set (s_bytes old)" using n by (simp add: name_in_def cstring_at_def)
      then show ?thesis using init_named [OF ok n c0 c1 c2 c3 nz(3)] by (simp add: cycle_def h4_def cstr_id)
    qed
    then show ?thesis unfolding e using R False by (auto simp: cycle_result_def mr)
  qed
qed

lemma init_cycle_result:
  assumes ok: "heap_ok (w_heap w)"
  shows "\<exists>w' r. cw_init_cycle (core_modules ncpu) 1 max_module junk old w = Some (w', r) \<and> cycle_result ncpu max_module old w (w', r)"
proof -
  let ?live = "h_live (w_heap w)" and ?len = "of_nat (length (s_bytes old)) :: u64"
  obtain h r0 where c0: "cw_create_pool (w_heap w) CW_CYCLE_POOL_SIZE = (h, r0)" by fastforce
  show ?thesis
  proof (cases r0)
    case None
    have "h_live h = ?live" using cw_create_pool_none [OF ok c0 [unfolded None]] by simp
    moreover have "refusal (w_heap w) h" by (rule create_pool_refused [OF c0 [unfolded None]])
    ultimately have "outcome ncpu (s_bytes old) w (w\<lparr>w_heap := h\<rparr>, None)" by (simp add: outcome_def)
    moreover have "\<not> modules_refused max_module old (w_heap w)" using None by (simp add: modules_refused_def c0)
    ultimately show ?thesis using None cycle_resultI by (simp add: cw_init_cycle_def c0)
  next
    case (Some pool)
    note b0 = boot_create [OF ok c0 [unfolded Some]]
    obtain h1 p1 cyc where c1: "cw_pcalloc h pool sizeof_cw_cycle = (h1, p1, cyc)" using prod_cases3 by blast
    note b1 = boot_pcalloc [OF b0 c1]
    obtain h2 p2 ctx where c2: "cw_pcalloc h1 p1 (max_module * 8) = (h2, p2, ctx)" using prod_cases3 by blast
    note b2 = boot_pcalloc [OF b1(1) c2]
    obtain h3 p3 data where c3: "cw_pnalloc h2 p2 (?len + 1) = (h3, p3, data)" using prod_cases3 by blast
    note b3 = boot_pnalloc [OF b2(1) c3]
    show ?thesis
    proof (cases "cyc = 0 \<or> ctx = 0 \<or> data = 0")
      case True
      then have mr: "\<not> modules_refused max_module old (w_heap w)"
        using Some by (auto simp: modules_refused_def c0 c1 c2 c3 Let_def split: prod.splits)
      from True consider "cyc = 0" | "cyc \<noteq> 0" "ctx = 0" | "cyc \<noteq> 0" "ctx \<noteq> 0" "data = 0" by blast
      then show ?thesis
        using destroyed_outcome [OF b1] destroyed_outcome [OF b2] destroyed_outcome [OF b3] cycle_resultI [OF _ mr] Some
        by cases (simp_all add: cw_init_cycle_def c0 c1 c2 c3 Let_def)
    next
      case False
      then show ?thesis using init_modules_result [OF ok c0 [unfolded Some] c1 c2 c3] Some by simp
    qed
  qed
qed

end
