(* ===== verification/Cycle_Props.thy ===== *)
theory Cycle_Props
  imports Cycle_Run Conf_Parse_Props
begin

text \<open>
  The properties of \<open>cw_init_cycle\<close> with the modules of the program: it returns, what a
  failure gives back and what a success keeps, and what the configuration means.
\<close>

section \<open>A world to start in\<close>

text \<open>
  The text of the name lies in 32 bytes of static data; a pool of 1024 bytes is on the heap, as it is
  when \<open>main\<close> calls \<open>cw_init_cycle\<close>.
\<close>

definition demo_name :: cw_str where
  "demo_name = \<lparr>s_data = 64, s_bytes = [99, 111, 110, 102, 47, 99, 119, 46, 99, 111, 110, 102]\<rparr>"

definition demo_start :: "nat list \<Rightarrow> heap" where
  "demo_start refused = (bump_heap refused)\<lparr>h_live := [(64, 32)], h_mem := store_bytes (\<lambda>x. 255) 64 (s_bytes demo_name @ [0])\<rparr>"

definition demo_after_pool :: "nat list \<Rightarrow> heap" where
  "demo_after_pool refused = (demo_start refused)\<lparr>h_calls := 1, h_live := [(4112, 1024), (64, 32)]\<rparr>"

definition demo_world :: "heap \<Rightarrow> u8 list \<Rightarrow> world" where
  "demo_world h content =
     \<lparr>w_heap = h, w_sys = demo_sys content, w_net = demo_net, w_ptrs = (\<lambda>x. 0), w_core = (\<lambda>x. None),
      w_log = [], w_ls_log = [], w_environ = 1\<rparr>"

lemma demo_world_heap [simp]: "w_heap (demo_world h content) = h"
  by (simp add: demo_world_def)

lemma demo_start_ok: "heap_ok (demo_start refused)"
  by (simp add: heap_ok_def demo_start_def bump_heap_def bump_libc_ok)

lemma demo_pool_created: "0 \<notin> set refused \<Longrightarrow> \<exists>p. cw_create_pool (demo_start refused) 1024 = (demo_after_pool refused, Some p)"
  by (simp add: demo_after_pool_def demo_start_def pool_eval)

lemma demo_after_ok: "0 \<notin> set refused \<Longrightarrow> heap_ok (demo_after_pool refused)"
  using demo_pool_created [of refused] cw_create_pool_ok(1) [OF demo_start_ok] by (fastforce simp: pool_inv_def)

lemma demo_name_at: "cstring_at (h_mem (demo_start refused)) 64 (s_bytes demo_name)"
  by (auto simp: cstring_at_def bytes_at_def demo_start_def demo_name_def store_bytes_def unat_of_nat_64)

lemma demo_name_in: "name_in (h_live (demo_start refused)) (h_mem (demo_start refused)) demo_name"
  "name_in (h_live (demo_after_pool refused)) (h_mem (demo_after_pool refused)) demo_name"
  using demo_name_at [of refused]
  by (auto simp: name_in_def demo_start_def demo_after_pool_def demo_name_def)

lemma demo_world_served: "served txt (w_sys (demo_world h txt)) 3 name"
  by (auto simp: served_def demo_world_def demo_sys_def CW_INVALID_FILE_def)

section \<open>A run\<close>

lemmas cycle_eval = cw_init_cycle_def cw_cycle_modules_def cycle_create_def create_core_confs_eq
  cw_core_module_create_conf_def cw_array_create_def cw_array_init_def demo_world_def demo_after_pool_def demo_start_def
  demo_name_def sizeof_cw_cycle_def sizeof_cw_core_conf_def sizeof_cw_array_def sizeof_cw_str_def CW_CYCLE_POOL_SIZE_def
  CW_DEFAULT_POOL_SIZE_def pool_eval

lemma take_core: "take (Suc 0) (core_modules ncpu) = core_modules ncpu"
  by (simp add: modules_eq)

text \<open>The cycle and the configuration when \<open>cw_conf_parse\<close> is called; \<open>m\<close> is the memory, \<open>nm\<close> the name.\<close>

definition demo_made :: "u8 list \<Rightarrow> cw_cycle" where
  "demo_made nm =
     \<lparr>y_addr = 5232,
      y_pool = \<lparr>p_blocks = [\<lparr>b_addr = 5152, b_last = 5392, b_end = 21536, b_failed = 0\<rparr>], p_max = 1023, p_current = 0,
        p_large = [\<lparr>l_addr = 5376, l_alloc = 22592\<rparr>, \<lparr>l_addr = 5344, l_alloc = 21552\<rparr>], p_cleanup = []\<rparr>,
      y_conf_ctx = 21552, y_modules_at = 22592, y_modules = core_modules 4, y_modules_n = 1, y_listening = [],
      y_conf_file = \<lparr>s_data = 5360, s_bytes = nm\<rparr>, y_conf_param = \<lparr>s_data = 0, s_bytes = []\<rparr>\<rparr>"

definition demo_fresh :: cw_core_conf where
  "demo_fresh =
     \<lparr>cc_daemon = CW_CONF_UNSET, cc_master = CW_CONF_UNSET, cc_timer_resolution = word_of_int CW_CONF_UNSET,
      cc_shutdown_timeout = word_of_int CW_CONF_UNSET, cc_worker_processes = CW_CONF_UNSET, cc_debug_points = CW_CONF_UNSET,
      cc_rlimit_nofile = CW_CONF_UNSET, cc_rlimit_core = CW_CONF_UNSET, cc_priority = 0,
      cc_env = \<lparr>a_elts = 5576, a_nelts = 0, a_size = 16, a_nalloc = 1\<rparr>\<rparr>"

definition demo_ready :: "(addr \<Rightarrow> u8) \<Rightarrow> cw_conf" where
  "demo_ready m =
     \<lparr>c_heap = (bump_heap [])\<lparr>h_calls := Suc (Suc (Suc (Suc (Suc 0)))),
        h_live := [(23648, 16384), (22592, 1040), (21552, 1032), (5152, 16384), (4112, 1024), (64, 32)], h_mem := m\<rparr>,
      c_sys = demo_sys demo_text, c_log = [], c_ptrs = (clear_cells (\<lambda>x. 0) 21552 1032)(21552 := 5392),
      c_core = Map.empty(5392 \<mapsto> demo_fresh), c_args = \<lparr>a_elts = 5632, a_nelts = 0, a_size = 16, a_nalloc = 10\<rparr>,
      c_words = [], c_param = \<lparr>s_data = 0, s_bytes = []\<rparr>,
      c_pool = \<lparr>p_blocks = [\<lparr>b_addr = 5152, b_last = 5792, b_end = 21536, b_failed = 0\<rparr>], p_max = 1023, p_current = 0,
        p_large = [\<lparr>l_addr = 5376, l_alloc = 22592\<rparr>, \<lparr>l_addr = 5344, l_alloc = 21552\<rparr>], p_cleanup = []\<rparr>,
      c_file = None, c_ctx = 21552, c_module_type = CW_CORE_MODULE, c_cmd_type = CW_MAIN_CONF\<rparr>"

definition demo_temp :: cw_pool where
  "demo_temp = \<lparr>p_blocks = [\<lparr>b_addr = 23648, b_last = 23728, b_end = 40032, b_failed = 0\<rparr>], p_max = 1023,
     p_current = 0, p_large = [], p_cleanup = []\<rparr>"

lemma demo_created:
  "\<exists>m nm. cw_init_cycle (core_modules 4) 1 129 junk demo_name (demo_world (demo_after_pool []) demo_text) =
    cycle_configure (core_modules 4) junk (demo_ready m) demo_temp (demo_made nm) (demo_world (demo_after_pool []) demo_text)"
  by (simp add: cycle_eval take_core demo_ready_def demo_temp_def demo_made_def demo_fresh_def) (intro exI, rule refl)

definition demo_ready_opened :: "(addr \<Rightarrow> u8) \<Rightarrow> u8 list \<Rightarrow> cw_conf" where
  "demo_ready_opened m name = fst (parse_open False (demo_file []) (demo_ready m) name)"

lemma demo_ready_open: "parse_open False (demo_file []) (demo_ready m) name = (demo_ready_opened m name, Some (3, 40048))"
  unfolding demo_ready_opened_def
  by (simp add: parse_open_def cw_open_file_def cw_fd_info_def demo_ready_def demo_text_def
      demo_sys_def CW_INVALID_FILE_def CW_CONF_BUFFER_def tick_def pool_eval)

lemma demo_ready_token:
  obtains cf1 where "cw_conf_read_token (demo_ready_opened m name) = Some (CW_OK, cf1)" "at_end cf1"
    "sy_close (c_sys cf1) = (\<lambda>t fd. 0)" "core_ready cf1" "core_wp cf1 = CW_CONF_UNSET" "a_nelts (c_args cf1) = 2"
    "a_elts (c_args cf1) = 5632" "h_mem (c_heap cf1) = demo_stored m 5632 5792 5809"
  by (simp add: demo_ready_opened_def parse_open_def cw_open_file_def cw_fd_info_def demo_ready_def demo_text_def
      worker_processes_name_def lex_eval sizeof_cw_str_def new_conf_file_def core_wp_def demo_fresh_def at_end_def core_ready_def
      set_data_def set_len_def write_bytes_def demo_stored_def)

lemma demo_cycle:
  obtains w' y where "cw_init_cycle (core_modules 4) 1 129 (demo_file []) demo_name (demo_world (demo_after_pool []) demo_text) =
    Some (w', Some y)"
proof -
  obtain m nm where c: "cw_init_cycle (core_modules 4) 1 129 (demo_file []) demo_name (demo_world (demo_after_pool []) demo_text) =
    cycle_configure (core_modules 4) (demo_file []) (demo_ready m) demo_temp (demo_made nm) (demo_world (demo_after_pool []) demo_text)"
    using demo_created by blast
  obtain cf1 where t: "cw_conf_read_token (demo_ready_opened m (cstr nm)) = Some (CW_OK, cf1)" "at_end cf1"
      "sy_close (c_sys cf1) = (\<lambda>t fd. 0)"
    and d: "core_ready cf1" "core_wp cf1 = CW_CONF_UNSET" "a_nelts (c_args cf1) = 2"
      "a_elts (c_args cf1) = 5632" "h_mem (c_heap cf1) = demo_stored m 5632 5792 5809"
    by (rule demo_ready_token)
  have w: "directive_name cf1 = worker_processes_name" "s_bytes (arg_value cf1 1) = [55]"
    using d(4,5) demo_stored_words [of 5632 5792 5809] by (simp_all add: directive_name_def arg_value_def sizeof_cw_str_def)
  obtain cf' where "cw_conf_parse (core_modules 4) False (demo_file []) None (demo_ready m) (Some (cstr nm)) = Some (ConfOk, cf')"
    by (rule parse_one_directive [OF demo_ready_open _ t d(1) w(1) d(3,2) w(2)]) (auto intro: that)
  then show thesis
    using that c by (simp add: cycle_configure_def cw_conf_param_def demo_ready_def demo_made_def cw_sizes)
qed

section \<open>Properties\<close>

text \<open>
  C33: \<open>cw_init_cycle\<close> returns, and a failure gives back what it took: no descriptor and no
  memory is left, whichever call was refused and whatever the file holds.  There is one
  exception: when the pool, the cycle, the contexts and the name were granted and the request for
  the array of modules is refused, the function returns NULL without destroying its pool, and then
  more is live than before.
\<close>

theorem cw_init_cycle_failure:
  assumes "heap_ok (w_heap w)"
  shows "\<exists>w' r. cw_init_cycle (core_modules ncpu) 1 max_module junk old w = Some (w', r) \<and>
    sy_fds (w_sys w') = sy_fds (w_sys w) \<and>
    (if modules_refused max_module old (w_heap w)
     then r = None \<and> stranded (h_live (w_heap w)) (w_heap w') \<and> h_live (w_heap w') \<noteq> h_live (w_heap w) \<and>
       refusal (w_heap w) (w_heap w')
     else r = None \<longrightarrow> h_live (w_heap w') = h_live (w_heap w))"
proof -
  obtain w' r where c: "cw_init_cycle (core_modules ncpu) 1 max_module junk old w = Some (w', r)"
    and R: "cycle_result ncpu max_module old w (w', r)"
    using init_cycle_result [OF assms] by blast
  show ?thesis
  proof (cases "modules_refused max_module old (w_heap w)")
    case True
    then show ?thesis using c R stranded_more [of "h_live (w_heap w)" "w_heap w'"] by (simp add: cycle_result_def)
  next
    case False
    then show ?thesis using c R by (auto simp: cycle_result_def outcome_def)
  qed
qed

theorem cw_init_cycle_failure_witness:
  "\<exists>w'. cw_init_cycle (core_modules 4) 1 129 (demo_file []) demo_name (demo_world (demo_after_pool [3]) []) = Some (w', None) \<and>
     modules_refused 129 demo_name (demo_after_pool [3]) \<and>
     h_live (w_heap w') \<noteq> [(4112, 1024), (64, 32)] \<and> stranded [(4112, 1024), (64, 32)] (w_heap w')"
proof -
  obtain w' where c: "cw_init_cycle (core_modules 4) 1 129 (demo_file []) demo_name (demo_world (demo_after_pool [3]) []) = Some (w', None)"
    and l: "h_live (w_heap w') \<noteq> [(4112, 1024), (64, 32)]"
    by (simp add: cycle_eval)
  have "heap_ok (w_heap (demo_world (demo_after_pool [3]) []))" using demo_after_ok [of "[3]"] by simp
  from cw_init_cycle_failure [OF this, of 4 129 "demo_file []" demo_name] c
  have i: "if modules_refused 129 demo_name (demo_after_pool [3]) then stranded (h_live (demo_after_pool [3])) (w_heap w')
      else h_live (w_heap w') = h_live (demo_after_pool [3])"
    by (simp split: if_splits)
  have "h_live (demo_after_pool [3]) = [(4112, 1024), (64, 32)]" by (simp add: demo_after_pool_def)
  then show ?thesis using c l i by (simp split: if_splits)
qed

text \<open>
  C34: a cycle that is returned is complete: its pool is well formed and holds the core
  configuration, no descriptor is open that was not, and besides what was live before only
  the pool and the block of the temporary pool are, which no code ever destroys.
\<close>

theorem cw_init_cycle_success:
  assumes "heap_ok (w_heap w)"
    and "cw_init_cycle (core_modules ncpu) 1 max_module junk old w = Some (w', Some y)"
  shows "built (h_live (w_heap w)) w' y \<and> sy_fds (w_sys w') = sy_fds (w_sys w)"
  using init_cycle_result [OF assms(1), of ncpu max_module junk old] assms(2)
  by (auto simp: cycle_result_def outcome_def split: if_splits)

theorem cw_init_cycle_success_witness:
  "\<exists>w' y. cw_init_cycle (core_modules 4) 1 129 (demo_file []) demo_name (demo_world (demo_after_pool []) demo_text) = Some (w', Some y) \<and>
     built [(4112, 1024), (64, 32)] w' y"
proof -
  obtain w' y where c: "cw_init_cycle (core_modules 4) 1 129 (demo_file []) demo_name (demo_world (demo_after_pool []) demo_text) = Some (w', Some y)"
    by (rule demo_cycle)
  have "heap_ok (w_heap (demo_world (demo_after_pool []) demo_text))" using demo_after_ok [of "[]"] by simp
  from cw_init_cycle_success [OF this c] show ?thesis using c by (auto simp: demo_after_pool_def)
qed

text \<open>
  C35: the name of the file.  Whatever the modules, a cycle that is returned has the name of the
  old cycle as the name of its file, byte for byte, although the structure and the contexts were
  cleared in between; so it is that file that was read.
\<close>

theorem cw_init_cycle_name:
  assumes "heap_ok (w_heap w)" and "name_in (h_live (w_heap w)) (h_mem (w_heap w)) old"
    and "cw_init_cycle mods modules_n max_module junk old w = Some (w', Some y)"
  shows "s_bytes (y_conf_file y) = s_bytes old \<and> cstr (s_bytes (y_conf_file y)) = s_bytes old"
proof -
  let ?len = "of_nat (length (s_bytes old)) :: u64" and ?live = "h_live (w_heap w)"
  obtain h0 r0 where c0: "cw_create_pool (w_heap w) CW_CYCLE_POOL_SIZE = (h0, r0)" by fastforce
  obtain pool where r0: "r0 = Some pool" using assms(3) c0 by (cases r0) (auto simp: cw_init_cycle_def)
  obtain h1 p1 cyc where c1: "cw_pcalloc h0 pool sizeof_cw_cycle = (h1, p1, cyc)" using prod_cases3 by blast
  obtain h2 p2 ctx where c2: "cw_pcalloc h1 p1 (max_module * 8) = (h2, p2, ctx)" using prod_cases3 by blast
  obtain h3 p3 data where c3: "cw_pnalloc h2 p2 (?len + 1) = (h3, p3, data)" using prod_cases3 by blast
  have nz: "cyc \<noteq> 0" "ctx \<noteq> 0" "data \<noteq> 0"
    using assms(3) by (auto simp: cw_init_cycle_def c0 r0 c1 c2 c3 Let_def split: if_splits)
  then have name: "s_bytes (y_conf_file y) = mem_bytes (fst (cw_cpystrn (h_mem h3) data (s_data old) (?len + 1))) data (length (s_bytes old))"
    using assms(3) by (auto simp: cw_init_cycle_def c0 r0 c1 c2 c3 Let_def dest!: create_name split: prod.splits option.splits)
  have "s_bytes (y_conf_file y) = s_bytes old"
    using name init_named [OF assms(1,2) c0 [unfolded r0] c1 c2 c3 nz(3)] by simp
  moreover have "0 \<notin> set (s_bytes old)" using assms(2) by (simp add: name_in_def cstring_at_def)
  ultimately show ?thesis using cstr_id by simp
qed

theorem cw_init_cycle_name_witness:
  "\<exists>w' y. cw_init_cycle (core_modules 4) 1 129 (demo_file []) demo_name (demo_world (demo_after_pool []) demo_text) = Some (w', Some y) \<and>
     s_bytes (y_conf_file y) = [99, 111, 110, 102, 47, 99, 119, 46, 99, 111, 110, 102]"
proof -
  let ?w = "demo_world (demo_after_pool []) demo_text"
  obtain w' y where c: "cw_init_cycle (core_modules 4) 1 129 (demo_file []) demo_name ?w = Some (w', Some y)" by (rule demo_cycle)
  have "heap_ok (w_heap ?w)" "name_in (h_live (w_heap ?w)) (h_mem (w_heap ?w)) demo_name"
    using demo_after_ok [of "[]"] demo_name_in(2) by simp_all
  from cw_init_cycle_name [OF this c] show ?thesis using c by (auto simp: demo_name_def)
qed

text \<open>
  C36: the configuration means what the file says, the file that has the old cycle's name and
  holds \<open>content\<close>.  When a cycle is returned, \<open>content\<close> is in the language of the core module and
  the cycle has the number of worker processes it means.  Conversely, where the bytes are read
  and the file is shorter than the buffer, a file of the language is refused only if the C library
  refused a request for memory.
\<close>

theorem cw_init_cycle_meaning:
  assumes "heap_ok (w_heap w)" and "name_in (h_live (w_heap w)) (h_mem (w_heap w)) old"
    and "served content (w_sys w) fd (s_bytes old)"
    and "cw_init_cycle (core_modules ncpu) 1 max_module junk old w = Some (w', r)"
  shows "case r of
      Some y \<Rightarrow> accepts (core_step ncpu) CW_CONF_UNSET content (cycle_wp w' y)
    | None \<Rightarrow> calm_sys content fd (w_sys w) \<and> accepts (core_step ncpu) CW_CONF_UNSET content wp \<longrightarrow>
        refusal (w_heap w) (w_heap w')"
  using init_cycle_result [OF assms(1), of ncpu max_module junk old] assms(2-4)
  by (auto simp: cycle_result_def outcome_def unreadable_def split: option.splits if_splits)

theorem cw_init_cycle_meaning_witness:
  "\<exists>w' y. cw_init_cycle (core_modules 4) 1 129 (demo_file []) demo_name (demo_world (demo_after_pool []) demo_text) = Some (w', Some y) \<and>
     cycle_wp w' y = 7"
proof -
  let ?w = "demo_world (demo_after_pool []) demo_text"
  obtain w' y where c: "cw_init_cycle (core_modules 4) 1 129 (demo_file []) demo_name ?w = Some (w', Some y)" by (rule demo_cycle)
  have "heap_ok (w_heap ?w)" "name_in (h_live (w_heap ?w)) (h_mem (w_heap ?w)) demo_name"
    using demo_after_ok [of "[]"] demo_name_in(2) by simp_all
  from cw_init_cycle_meaning [OF this demo_world_served c]
  have "accepts (core_step 4) CW_CONF_UNSET demo_text (cycle_wp w' y)" by simp
  then show ?thesis using accepts_unique [OF _ demo_accepts] c by blast
qed

end
