(* ===== verification/Platform.thy ===== *)
theory Platform
  imports Prelude
begin

text \<open>
  What \<open>main\<close> starts before the cycle: the logging library (\<open>src/core/cw_log.c\<close>) and the
  number of processors (\<open>src/os/unix/cw_posix_init.c\<close>, on Darwin with
  \<open>src/os/unix/cw_darwin_init.c\<close>).
\<close>

section \<open>Logging\<close>

text \<open>
  zlog is a library: what it answers to \<open>zlog_init\<close> and \<open>zlog_get_category\<close> (0 is NULL) are the
  first two fields.  The others are the state of the process: whether the library has been
  started and not ended, what was printed, and the category of the global \<open>cw_log\<close>.
\<close>

record zlog =
  zl_init :: "string \<Rightarrow> int"
  zl_category :: "string \<Rightarrow> addr"
  zl_running :: bool
  zl_printed :: "string list"
  zl_log :: addr

definition zlog_fini :: "zlog \<Rightarrow> zlog" where
  "zlog_fini z = z\<lparr>zl_running := False\<rparr>"

text \<open>\<open>True\<close> when the address of \<open>cw_log\<close> is returned, \<open>False\<close> for NULL.\<close>

definition cw_log_init :: "zlog \<Rightarrow> zlog \<times> bool" where
  "cw_log_init z =
     (if zl_init z ''./conf/zlog.conf'' \<noteq> 0
      then (z\<lparr>zl_printed := zl_printed z @ [''zlog init failed'' @ [CHR 0x0A]]\<rparr>, False)
      else let z1 = z\<lparr>zl_running := True, zl_log := zl_category z ''master''\<rparr>
           in if zl_log z1 = 0
              then (zlog_fini (z1\<lparr>zl_printed := zl_printed z1 @ [''get master cat fail'' @ [CHR 0x0A]]\<rparr>), False)
              else (z1, True))"

definition cw_log_fini :: "zlog \<Rightarrow> zlog" where
  "cw_log_fini z = zlog_fini z"

lemma cw_log_init_running:
  assumes "cw_log_init z = (z', ok)" and "\<not> zl_running z"
  shows "zl_running z' = ok" and "ok \<Longrightarrow> zl_log z' \<noteq> 0 \<and> zl_printed z' = zl_printed z"
  using assms by (auto simp: cw_log_init_def zlog_fini_def Let_def split: if_splits)

section \<open>Darwin\<close>

text \<open>
  \<open>cw_os_specific_init\<close> asks \<open>sysctlbyname\<close> for two strings and for the values of a table.
  The table and the variables are declared in no file of the sources, so they are a
  parameter: \<open>dw_state\<close> stands for the variables, of any type, \<open>dw_sysctl\<close> is what
  \<open>sysctlbyname\<close> does to them (with the size it leaves and its error), \<open>dw_nul\<close> is the store
  \<open>name[i] = '\0'\<close>, \<open>dw_hw_ncpu\<close> and \<open>dw_somaxconn\<close> read the variables the code reads, and
  \<open>dw_io\<close> is the address of \<open>cw_darwin_io\<close>.
\<close>

datatype sys_errno = ENOENT | ENOMEM | OTHER_ERRNO

record 's darwin =
  dw_sysctl :: "string \<Rightarrow> u64 \<Rightarrow> 's \<Rightarrow> 's \<times> u64 \<times> sys_errno option"
  dw_nul :: "string \<Rightarrow> u64 \<Rightarrow> 's \<Rightarrow> 's"
  dw_ostype_size :: u64
  dw_osrelease_size :: u64
  dw_table :: "(string \<times> u64) list"
  dw_hw_ncpu :: "'s \<Rightarrow> int"
  dw_somaxconn :: "'s \<Rightarrow> int"
  dw_io :: addr

text \<open>The variables the function writes: those of the platform, and the globals of the program.\<close>

record 's darwin_state =
  dw_state :: 's
  dw_exists :: "nat \<Rightarrow> bool"
  dw_ncpu :: int
  dw_nodelay_and_nopush :: int
  dw_os_io :: addr
  dw_log :: "string list"

definition dw_logged :: "string \<Rightarrow> 's darwin_state \<Rightarrow> 's darwin_state" where
  "dw_logged m d = d\<lparr>dw_log := dw_log d @ [m]\<rparr>"

text \<open>
  The first two calls: an unknown name is passed over, a buffer too small ends in a NUL at the
  last byte written, any other error is returned (\<open>False\<close>).
\<close>

definition sysctl_string :: "'s darwin \<Rightarrow> string \<Rightarrow> u64 \<Rightarrow> 's darwin_state \<Rightarrow> 's darwin_state \<times> bool" where
  "sysctl_string dw name sz d =
     (let (s1, sz1, err) = dw_sysctl dw name sz (dw_state d); d1 = d\<lparr>dw_state := s1\<rparr>
      in case err of
           None \<Rightarrow> (d1, True)
         | Some ENOENT \<Rightarrow> (d1, True)
         | Some ENOMEM \<Rightarrow> ((dw_logged name d1)\<lparr>dw_state := dw_nul dw name (sz1 - 1) s1\<rparr>, True)
         | Some OTHER_ERRNO \<Rightarrow> (dw_logged name d1, False))"

text \<open>The loop over the table, from entry \<open>i\<close> on.\<close>

fun sysctl_table ::
    "'s darwin \<Rightarrow> nat \<Rightarrow> (string \<times> u64) list \<Rightarrow> 's darwin_state \<Rightarrow> 's darwin_state \<times> bool" where
  "sysctl_table dw i [] d = (d, True)"
| "sysctl_table dw i ((name, sz) # entries) d =
     (let (s1, sz1, err) = dw_sysctl dw name sz (dw_state d); d1 = d\<lparr>dw_state := s1\<rparr>
      in case err of
           None \<Rightarrow> sysctl_table dw (Suc i) entries (d1\<lparr>dw_exists := (dw_exists d1)(i := True)\<rparr>)
         | Some e \<Rightarrow>
             if e = ENOENT then sysctl_table dw (Suc i) entries d1
             else (dw_logged name d1, False))"

definition cw_os_specific_init :: "'s darwin \<Rightarrow> 's darwin_state \<Rightarrow> 's darwin_state \<times> int" where
  "cw_os_specific_init dw d =
     (let (d1, ok) = sysctl_string dw ''kern.ostype'' (dw_ostype_size dw) d
      in if \<not> ok then (d1, CW_ERROR)
      else let (d2, ok) = sysctl_string dw ''kern.osrelease'' (dw_osrelease_size dw) d1
      in if \<not> ok then (d2, CW_ERROR)
      else let (d3, ok) = sysctl_table dw 0 (dw_table dw) d2
      in if \<not> ok then (d3, CW_ERROR)
      else let d4 = d3\<lparr>dw_ncpu := dw_hw_ncpu dw (dw_state d3)\<rparr>
      in if dw_somaxconn dw (dw_state d4) > 32767
         then (dw_logged ''kern.ipc.somaxconn'' d4, CW_ERROR)
         else (d4\<lparr>dw_nodelay_and_nopush := 1, dw_os_io := dw_io dw\<rparr>, CW_OK))"

section \<open>\<open>cw_os_init\<close>\<close>

text \<open>
  \<open>specific\<close> is \<open>cw_os_specific_init\<close> where the platform has one (\<open>CW_HAVE_OS_SPECIFIC_INIT\<close>):
  from the value of \<open>cw_ncpu\<close> it gives the new value and its result.  \<open>nprocs\<close> is what
  \<open>sysconf(_SC_NPROCESSORS_ONLN)\<close> answers where there is one
  (\<open>CW_HAVE_SC_NPROCESSORS_ONLN\<close>).
\<close>

definition cw_os_init :: "(int \<Rightarrow> int \<times> int) option \<Rightarrow> int option \<Rightarrow> int \<Rightarrow> int \<times> int" where
  "cw_os_init specific nprocs ncpu0 =
     (let (ncpu1, rc) = (case specific of None \<Rightarrow> (ncpu0, CW_OK) | Some f \<Rightarrow> f ncpu0)
      in if rc \<noteq> CW_OK then (ncpu1, CW_ERROR)
         else let ncpu2 = (case nprocs of
                    None \<Rightarrow> ncpu1
                  | Some n \<Rightarrow> if ncpu1 = 0 then n else ncpu1);
                  ncpu3 = (if ncpu2 < 1 then 1 else ncpu2)
              in (ncpu3, CW_OK))"

text \<open>On Darwin.\<close>

definition darwin_specific :: "'s darwin \<Rightarrow> 's darwin_state \<Rightarrow> int \<Rightarrow> int \<times> int" where
  "darwin_specific dw d ncpu =
     (let (d1, rc) = cw_os_specific_init dw (d\<lparr>dw_ncpu := ncpu\<rparr>) in (dw_ncpu d1, rc))"

section \<open>What the table of Darwin's variables answers\<close>

fun answers :: "'s darwin \<Rightarrow> (string \<times> u64) list \<Rightarrow> 's \<Rightarrow> sys_errno option list" where
  "answers dw [] s = []"
| "answers dw ((name, sz) # entries) s =
     (case dw_sysctl dw name sz s of (s1, sz1, err) \<Rightarrow> err # answers dw entries s1)"

definition passes :: "sys_errno option \<Rightarrow> bool" where
  "passes e \<longleftrightarrow> e = None \<or> e = Some ENOENT"

lemma answers_length [simp]: "length (answers dw entries s) = length entries"
  by (induction dw entries s rule: answers.induct) (simp_all split: prod.splits)

text \<open>The loop ends well when every answer passes, and marks the entries that were answered.\<close>

lemma sysctl_table_spec:
  assumes "sysctl_table dw i entries d = (d', ok)"
  shows "ok = list_all passes (answers dw entries (dw_state d)) \<and>
    (ok \<longrightarrow> dw_log d' = dw_log d \<and>
       (\<forall>j. dw_exists d' j = (dw_exists d j \<or> i \<le> j \<and> j < i + length entries \<and> answers dw entries (dw_state d) ! (j - i) = None))) \<and>
    (\<not> ok \<longrightarrow> length (dw_log d) < length (dw_log d'))"
  using assms
proof (induction dw i entries d rule: sysctl_table.induct)
  case (2 dw i name sz entries d)
  obtain s1 sz1 err where c: "dw_sysctl dw name sz (dw_state d) = (s1, sz1, err)" using prod_cases3 by blast
  have pos: "(i \<le> j \<and> j < Suc (i + k) \<and> (e # es) ! (j - i) = None) =
      (j = i \<and> e = None \<or> Suc i \<le> j \<and> j < Suc (i + k) \<and> es ! (j - Suc i) = None)" for j k e and es :: "'b option list"
    by (auto simp: nth_Cons')
  have ans: "answers dw ((name, sz) # entries) (dw_state d) = err # answers dw entries s1" by (simp add: c)
  consider (yes) "err = None" | (no) "err = Some ENOENT" | (bad) e where "err = Some e" "e \<noteq> ENOENT" by (cases err) auto
  then show ?case
  proof cases
    case yes
    let ?d1 = "d\<lparr>dw_state := s1, dw_exists := (dw_exists d)(i := True)\<rparr>"
    have "sysctl_table dw (Suc i) entries ?d1 = (d', ok)" using 2(3) by (simp add: c yes)
    then show ?thesis using 2(1) [OF c [symmetric] refl refl refl yes] unfolding ans yes
      by (auto simp: passes_def pos)
  next
    case no
    have "sysctl_table dw (Suc i) entries (d\<lparr>dw_state := s1\<rparr>) = (d', ok)" using 2(3) by (simp add: c no)
    then show ?thesis using 2(2) [OF c [symmetric] refl refl refl no refl] unfolding ans no
      by (auto simp: passes_def pos)
  next
    case bad
    then have "(d', ok) = (dw_logged name (d\<lparr>dw_state := s1\<rparr>), False)" using 2(3) by (simp add: c)
    then show ?thesis unfolding ans using bad by (simp add: passes_def dw_logged_def)
  qed
qed auto

lemma sysctl_string_spec:
  assumes "sysctl_string dw name sz d = (d', ok)"
  shows "dw_exists d' = dw_exists d \<and> length (dw_log d) \<le> length (dw_log d') \<and>
    (\<not> ok \<longrightarrow> length (dw_log d) < length (dw_log d'))"
  using assms
  by (auto simp: sysctl_string_def dw_logged_def Let_def split: prod.splits option.splits sys_errno.splits)

section \<open>Properties\<close>

text \<open>
  C37: the initialisation on Darwin, whatever \<open>sysctlbyname\<close> answers.  It succeeds only if each
  entry of the table was answered or is unknown to the system; then exactly the entries answered
  are marked, \<open>cw_ncpu\<close> is the number the platform gave, and \<open>somaxconn\<close> is in range.  It fails
  with \<open>CW_ERROR\<close>, never without a message.
\<close>

theorem cw_os_specific_init_outcome:
  assumes "cw_os_specific_init dw d = (d', rc)"
  shows "if rc = CW_OK
    then (\<exists>s. list_all passes (answers dw (dw_table dw) s) \<and>
            (\<forall>i. dw_exists d' i = (dw_exists d i \<or> i < length (dw_table dw) \<and> answers dw (dw_table dw) s ! i = None))) \<and>
         dw_ncpu d' = dw_hw_ncpu dw (dw_state d') \<and> dw_somaxconn dw (dw_state d') \<le> 32767 \<and> dw_nodelay_and_nopush d' = 1 \<and>
         dw_os_io d' = dw_io dw
    else rc = CW_ERROR \<and> length (dw_log d) < length (dw_log d')"
proof -
  obtain d1 ok1 where c1: "sysctl_string dw ''kern.ostype'' (dw_ostype_size dw) d = (d1, ok1)" by fastforce
  obtain d2 ok2 where c2: "sysctl_string dw ''kern.osrelease'' (dw_osrelease_size dw) d1 = (d2, ok2)" by fastforce
  obtain d3 ok3 where c3: "sysctl_table dw 0 (dw_table dw) d2 = (d3, ok3)" by fastforce
  show ?thesis
    using assms c1 c2 c3 sysctl_string_spec [OF c1] sysctl_string_spec [OF c2] sysctl_table_spec [OF c3]
    by (auto simp: cw_os_specific_init_def Let_def dw_logged_def cw_sizes split: if_splits)
qed

text \<open>A platform whose variables are the number of the call and the number of processors.\<close>

definition demo_darwin :: "int darwin" where
  "demo_darwin =
     \<lparr>dw_sysctl = (\<lambda>name sz s. if name = ''hw.ncpu'' then (8, sz, None) else (s, sz, Some ENOENT)),
      dw_nul = (\<lambda>name i s. s), dw_ostype_size = 16, dw_osrelease_size = 128,
      dw_table = [(''hw.ncpu'', 4), (''hw.extra'', 4)], dw_hw_ncpu = (\<lambda>s. s), dw_somaxconn = (\<lambda>s. 128), dw_io = 4096\<rparr>"

theorem cw_os_specific_init_outcome_witness:
  "\<exists>d'. cw_os_specific_init demo_darwin
       \<lparr>dw_state = 0, dw_exists = (\<lambda>i. False), dw_ncpu = 0, dw_nodelay_and_nopush = 0, dw_os_io = 0, dw_log = []\<rparr> = (d', CW_OK) \<and>
     dw_ncpu d' = 8 \<and> dw_exists d' 0 \<and> \<not> dw_exists d' 1 \<and> dw_nodelay_and_nopush d' = 1"
proof -
  let ?d = "\<lparr>dw_state = 0, dw_exists = (\<lambda>i. False), dw_ncpu = 0, dw_nodelay_and_nopush = 0, dw_os_io = 0, dw_log = []\<rparr>"
  obtain d' where c: "cw_os_specific_init demo_darwin ?d = (d', CW_OK)" and e: "dw_exists d' 0" "\<not> dw_exists d' 1"
    and s: "dw_state d' = 8"
    by (simp add: cw_os_specific_init_def demo_darwin_def sysctl_string_def Let_def)
  show ?thesis using cw_os_specific_init_outcome [OF c] c e s by (auto simp: demo_darwin_def)
qed

text \<open>
  Whatever the platform's initialisation and \<open>sysconf\<close> answer, the number of processors
  is at least 1 when \<open>cw_os_init\<close> succeeds, and it is theirs when that is one; it fails only
  when the platform's part does.
\<close>

theorem cw_os_init_ncpu:
  assumes "cw_os_init specific nprocs ncpu0 = (ncpu, rc)"
  shows "(rc = CW_OK \<longrightarrow> 1 \<le> ncpu) \<and>
    (rc \<noteq> CW_OK \<longrightarrow> (\<exists>f. specific = Some f \<and> snd (f ncpu0) \<noteq> CW_OK)) \<and>
    (specific = None \<longrightarrow> ncpu = max 1 (if ncpu0 = 0 then (case nprocs of None \<Rightarrow> 0 | Some n \<Rightarrow> n) else ncpu0))"
  using assms
  by (auto simp: cw_os_init_def Let_def max_def cw_sizes split: option.splits prod.splits if_splits)

theorem cw_os_init_ncpu_witness:
  "cw_os_init None (Some (-1)) 0 = (1, CW_OK) \<and> 1 \<le> fst (cw_os_init (Some (\<lambda>n. (12, CW_OK))) (Some 4) 0)"
proof -
  have a: "cw_os_init None (Some (-1)) 0 = (1, CW_OK)" by (simp add: cw_os_init_def)
  have b: "cw_os_init (Some (\<lambda>n. (12, CW_OK))) (Some 4) 0 = (12, CW_OK)" by (simp add: cw_os_init_def)
  show ?thesis using cw_os_init_ncpu [OF a] cw_os_init_ncpu [OF b] a b by simp
qed

end
