(* ===== verification/Main_Program.thy ===== *)
theory Main_Program
  imports Cycle_Props Process_Props Platform
begin

text \<open>
  \<open>main\<close> and \<open>cw_process_options\<close> of \<open>src/core/cw.c\<close>: the way from the start of the process
  to the master's loop.
\<close>

section \<open>\<open>cw_process_options\<close>\<close>

text \<open>\<open>conf/cw.conf\<close>, the path the build configures; \<open>at\<close> is the address of the literal.\<close>

definition CW_CONF_PATH :: "u8 list" where
  "CW_CONF_PATH = [99, 111, 110, 102, 47, 99, 119, 46, 99, 111, 110, 102]"

definition cw_process_options :: "addr \<Rightarrow> cw_str option \<Rightarrow> cw_str \<times> int" where
  "cw_process_options at conf_file =
     (case conf_file of
        Some f \<Rightarrow> (\<lparr>s_data = s_data f, s_bytes = cstr (s_bytes f)\<rparr>, CW_OK)
      | None \<Rightarrow> (\<lparr>s_data = at, s_bytes = CW_CONF_PATH\<rparr>, CW_OK))"

section \<open>\<open>main\<close>\<close>

text \<open>
  \<open>ExitWith\<close> is the code \<open>main\<close> returns; \<open>RunMaster\<close> is the call of
  \<open>cw_master_process_cycle\<close>, which does not return (theory \<open>Process_Cycle\<close>), with the
  number of processors and the signals handled.  \<open>modules\<close> is the list of the build, whose
  directives read \<open>cw_ncpu\<close>.
\<close>

datatype main_result = ExitWith int zlog world | RunMaster zlog world cw_cycle int "(int \<times> bool) list"

definition main_program ::
    "zlog \<Rightarrow> addr \<Rightarrow> cw_str option \<Rightarrow> (int \<Rightarrow> int \<times> int) option \<Rightarrow> int option \<Rightarrow> (int \<Rightarrow> cw_module list)
     \<Rightarrow> cw_conf_file \<Rightarrow> (int \<Rightarrow> int) \<Rightarrow> world \<Rightarrow> main_result option" where
  "main_program z at conf_file specific nprocs modules junk act w =
     (let (z1, log) = cw_log_init z
      in if \<not> log then Some (ExitWith 1 z1 w)
      else case cw_create_pool (w_heap w) 1024 of
        (h, None) \<Rightarrow> Some (ExitWith 1 z1 (w\<lparr>w_heap := h\<rparr>))
      | (h, Some pool) \<Rightarrow>
          let w1 = w\<lparr>w_heap := h\<rparr>; (file, rc) = cw_process_options at conf_file
          in if rc \<noteq> CW_OK then Some (ExitWith 1 z1 w1)
          else let (ncpu, rc) = cw_os_init specific nprocs 0
          in if rc \<noteq> CW_OK then Some (ExitWith 1 z1 w1)
          else let (mods, modules_n, max_module, rc) = cw_preinit_modules (modules ncpu)
          in if rc \<noteq> CW_OK then Some (ExitWith 1 z1 w1)
          else case cw_init_cycle mods modules_n max_module junk file w1 of
                 None \<Rightarrow> None
               | Some (w2, None) \<Rightarrow> Some (ExitWith 1 z1 w2)
               | Some (w2, Some cycle) \<Rightarrow>
                   (case cw_init_signals act of
                      (hs, rc) \<Rightarrow> if rc \<noteq> CW_OK then Some (ExitWith 1 z1 w2) else Some (RunMaster z1 w2 cycle ncpu hs)))"

section \<open>Properties\<close>

text \<open>The values \<open>worker_processes\<close> can have.\<close>

lemma cw_atoi_range: "cw_atoi v = CW_ERROR \<or> 0 \<le> cw_atoi v \<and> cw_atoi v \<le> CW_MAX_INT_T_VALUE"
  using dec_from_mono [of v 0]
  by (auto simp: cw_atoi_def atoi_loop_value dec_value_def cw_sizes list_all_iff)

lemma accepts_core_range:
  "accepts (core_step ncpu) wp s wp' \<Longrightarrow> wp' = wp \<or> wp' = ncpu \<or> 0 \<le> wp' \<and> wp' \<le> CW_MAX_INT_T_VALUE"
proof (induction rule: accepts.induct)
  case (accepts_directive s rc ws rest wp wp1 wp')
  have "wp1 = ncpu \<or> 0 \<le> wp1 \<and> wp1 \<le> CW_MAX_INT_T_VALUE"
    using accepts_directive.hyps(3) cw_atoi_range
    by (auto simp: core_step_def wp_value_def split: if_splits)
  then show ?case using accepts_directive.IH by auto
qed simp

text \<open>The list of modules of the build.\<close>

lemma preinit_core: "cw_preinit_modules [cw_core_module ncpu] = (core_modules ncpu, 1, 129, CW_OK)"
  by (simp add: cw_preinit_modules_def core_modules_def CW_MAX_DYNAMIC_MODULES_def)

lemma main_pool_heap:
  assumes "heap_ok h0" and "cw_create_pool h0 1024 = (h, Some p)"
  shows "heap_ok h"
  using cw_create_pool_ok(1) [OF assms] by (simp add: pool_inv_def)

text \<open>A text that lies in memory of others lies there still after the first pool is made.\<close>

lemma name_in_pool:
  assumes ok: "heap_ok g" and n: "name_in (h_live g) (h_mem g) s" and c: "cw_create_pool g 1024 = (h, Some p)"
  shows "name_in (h_live h) (h_mem h) s"
  using n cw_create_pool_ok(2) [OF ok c] create_pool_mem [OF c] by (auto simp: name_in_def)

text \<open>
  What follows the start of the logging library and of the first pool: with the modules of the
  build, the result is that of \<open>cw_init_cycle\<close> and of \<open>cw_init_signals\<close>.
\<close>

definition main_good :: "world \<Rightarrow> world \<Rightarrow> cw_cycle \<Rightarrow> int \<Rightarrow> (int \<times> bool) list \<Rightarrow> bool" where
  "main_good w w' y ncpu hs \<longleftrightarrow>
     1 \<le> ncpu \<and> hs = [(SIGQUIT, True), (SIGTERM, True)] \<and> sy_fds (w_sys w') = sy_fds (w_sys w) \<and>
     (\<exists>live. built live w' y) \<and>
     (\<forall>content fd. served content (w_sys w) fd (cstr (s_bytes (y_conf_file y))) \<longrightarrow>
        accepts (core_step ncpu) CW_CONF_UNSET content (cycle_wp w' y) \<and>
        (cycle_wp w' y = CW_CONF_UNSET \<or> cycle_wp w' y = ncpu \<or>
           0 \<le> cycle_wp w' y \<and> cycle_wp w' y \<le> CW_MAX_INT_T_VALUE))"

lemma init_signals_handled: "cw_init_signals act = (hs, CW_OK) \<Longrightarrow> hs = [(SIGQUIT, True), (SIGTERM, True)]"
  by (auto simp: cw_init_signals_def signals_def SIGQUIT_def SIGTERM_def cw_sizes split: if_splits)

lemma cycle_of_main:
  assumes ok: "heap_ok h" and n: "1 \<le> ncpu"
    and c: "cw_init_cycle (core_modules ncpu) 1 129 junk opt (w\<lparr>w_heap := h\<rparr>) = Some (w2, r)"
  shows "sy_fds (w_sys w2) = sy_fds (w_sys w)"
    and "r = Some y \<Longrightarrow> cw_init_signals act = (hs, CW_OK) \<Longrightarrow> main_good w w2 y ncpu hs"
proof -
  have hok: "heap_ok (w_heap (w\<lparr>w_heap := h\<rparr>))" using ok by simp
  have R: "cycle_result ncpu 129 opt (w\<lparr>w_heap := h\<rparr>) (w2, r)"
    using init_cycle_result [OF hok, of ncpu 129 junk opt] c by auto
  then show fds: "sy_fds (w_sys w2) = sy_fds (w_sys w)" by (auto simp: cycle_result_def outcome_def split: if_splits)
  assume y: "r = Some y" and sg: "cw_init_signals act = (hs, CW_OK)"
  have b: "built (h_live h) w2 y" and acc: "\<forall>content fd. served content (w_sys w) fd (cstr (s_bytes (y_conf_file y))) \<longrightarrow>
      accepts (core_step ncpu) CW_CONF_UNSET content (cycle_wp w2 y)"
    using R y by (auto simp: cycle_result_def outcome_def split: if_splits)
  show "main_good w w2 y ncpu hs"
    unfolding main_good_def using fds b n init_signals_handled [OF sg] acc accepts_core_range by blast
qed

lemma main_after_log:
  assumes "\<And>n. modules n = [cw_core_module n]" and "cw_log_init z = (z1, True)"
    and "cw_create_pool (w_heap w) 1024 = (h, Some pool)" and "cw_process_options at conf_file = (opt, CW_OK)"
    and "cw_os_init specific nprocs 0 = (ncpu, CW_OK)"
    and "cw_init_cycle (core_modules ncpu) 1 129 junk opt (w\<lparr>w_heap := h\<rparr>) = Some (w2, r)"
    and "cw_init_signals act = (hs, rs)"
  shows "main_program z at conf_file specific nprocs modules junk act w =
    (case r of None \<Rightarrow> Some (ExitWith 1 z1 w2)
     | Some y \<Rightarrow> if rs \<noteq> CW_OK then Some (ExitWith 1 z1 w2) else Some (RunMaster z1 w2 y ncpu hs))"
  using assms by (simp add: main_program_def preinit_core split: option.splits)

text \<open>
  C39: the program, with the modules it is built with.  \<open>main\<close> either returns 1, with every
  file it opened closed, or enters the master's loop; it never returns 0.  When the logging
  library does not start nothing else is done, and the library is not left running; otherwise it
  is left running on every path.  In the master there is at least one processor, the two signals
  have their handler, the cycle is complete, and if its file holds \<open>content\<close>, then that is well
  formed and the number of workers configured is what it says: none (-1), the number of
  processors, or a number that fits.
\<close>

theorem main_program_outcome:
  assumes "heap_ok (w_heap w)" and "\<And>n. modules n = [cw_core_module n]" and "\<not> zl_running z"
  shows "\<exists>r. main_program z at conf_file specific nprocs modules junk act w = Some r \<and>
    (case r of
       ExitWith c z' w' \<Rightarrow> c = 1 \<and> sy_fds (w_sys w') = sy_fds (w_sys w) \<and> (\<not> zl_running z' \<longrightarrow> w' = w)
     | RunMaster z' w' y ncpu hs \<Rightarrow>
         zl_running z' \<and> 1 \<le> ncpu \<and> hs = [(SIGQUIT, True), (SIGTERM, True)] \<and> sy_fds (w_sys w') = sy_fds (w_sys w) \<and>
         (\<exists>live. built live w' y) \<and>
         (\<forall>content fd. served content (w_sys w) fd (cstr (s_bytes (y_conf_file y))) \<longrightarrow>
            accepts (core_step ncpu) CW_CONF_UNSET content (cycle_wp w' y) \<and>
            (cycle_wp w' y = CW_CONF_UNSET \<or> cycle_wp w' y = ncpu \<or>
               0 \<le> cycle_wp w' y \<and> cycle_wp w' y \<le> CW_MAX_INT_T_VALUE)))"
proof -
  obtain z1 log where lg: "cw_log_init z = (z1, log)" by fastforce
  note Z = cw_log_init_running [OF lg assms(3)]
  obtain h r0 where c0: "cw_create_pool (w_heap w) 1024 = (h, r0)" by fastforce
  obtain opt where opt: "cw_process_options at conf_file = (opt, CW_OK)"
    by (cases conf_file) (simp_all add: cw_process_options_def)
  obtain ncpu rc where os: "cw_os_init specific nprocs 0 = (ncpu, rc)" by fastforce
  obtain hs rs where sg: "cw_init_signals act = (hs, rs)" by fastforce
  show ?thesis
  proof (cases "log \<and> r0 \<noteq> None \<and> rc = CW_OK")
    case False
    then show ?thesis using lg Z c0 opt os by (cases r0) (auto simp: main_program_def)
  next
    case True
    then obtain pool where pool: "r0 = Some pool" by blast
    have hok: "heap_ok h" using main_pool_heap [OF assms(1)] c0 pool by simp
    have n: "1 \<le> ncpu" using os True by (auto simp: cw_os_init_def Let_def cw_sizes split: option.splits prod.splits if_splits)
    obtain w2 r where ic: "cw_init_cycle (core_modules ncpu) 1 129 junk opt (w\<lparr>w_heap := h\<rparr>) = Some (w2, r)"
      using init_cycle_result [of "w\<lparr>w_heap := h\<rparr>" ncpu 129 junk opt] hok by auto
    note C = cycle_of_main [OF hok n ic]
    have m: "main_program z at conf_file specific nprocs modules junk act w =
      (case r of None \<Rightarrow> Some (ExitWith 1 z1 w2)
       | Some y \<Rightarrow> if rs \<noteq> CW_OK then Some (ExitWith 1 z1 w2) else Some (RunMaster z1 w2 y ncpu hs))"
      by (rule main_after_log [OF assms(2) _ c0 [unfolded pool] opt _ ic sg]) (use lg os True in simp_all)
    show ?thesis
    proof (cases "r = None \<or> rs \<noteq> CW_OK")
      case True
      then show ?thesis using m C(1) Z(1) \<open>log \<and> _\<close> by (auto split: option.splits)
    next
      case False
      then obtain y where y: "r = Some y" by auto
      then have "main_good w w2 y ncpu hs" using C(2) sg False by simp
      then show ?thesis using m y False Z(1) True by (simp add: main_good_def)
    qed
  qed
qed

definition demo_zlog :: zlog where
  "demo_zlog = \<lparr>zl_init = (\<lambda>f. 0), zl_category = (\<lambda>c. 4096), zl_running = False, zl_printed = [], zl_log = 0\<rparr>"

lemma demo_main_run:
  obtains w' y hs z' where "main_program demo_zlog 64 None None (Some 4) (\<lambda>n. [cw_core_module n]) (demo_file []) (\<lambda>signo. 0)
     (demo_world (demo_start []) demo_text) = Some (RunMaster z' w' y 4 hs)"
proof -
  obtain w' y where c: "cw_init_cycle (core_modules 4) 1 129 (demo_file []) demo_name (demo_world (demo_after_pool []) demo_text) =
      Some (w', Some y)"
    by (rule demo_cycle)
  obtain p where p: "cw_create_pool (demo_start []) 1024 = (demo_after_pool [], Some p)" using demo_pool_created [of "[]"] by auto
  obtain z1 where z: "cw_log_init demo_zlog = (z1, True)" by (simp add: cw_log_init_def demo_zlog_def)
  have e: "(demo_world (demo_start []) demo_text)\<lparr>w_heap := demo_after_pool []\<rparr> = demo_world (demo_after_pool []) demo_text"
    by (simp add: demo_world_def)
  have o: "cw_process_options 64 None = (demo_name, CW_OK)" "cw_os_init None (Some 4) 0 = (4, CW_OK)"
    by (simp_all add: cw_process_options_def CW_CONF_PATH_def demo_name_def cw_os_init_def)
  obtain hs where sg: "cw_init_signals (\<lambda>signo. 0) = (hs, CW_OK)"
    by (simp add: cw_init_signals_def signals_def SIGQUIT_def SIGTERM_def)
  have p': "cw_create_pool (w_heap (demo_world (demo_start []) demo_text)) 1024 = (demo_after_pool [], Some p)" using p by simp
  show thesis
    using that main_after_log [OF refl z p' o _ sg, of "demo_file []" w' "Some y"] c unfolding e by simp
qed

theorem main_program_outcome_witness:
  "\<exists>w' y hs z'. main_program demo_zlog 64 None None (Some 4) (\<lambda>n. [cw_core_module n]) (demo_file []) (\<lambda>signo. 0)
     (demo_world (demo_start []) demo_text) = Some (RunMaster z' w' y 4 hs) \<and> cycle_wp w' y = 7"
proof -
  let ?w = "demo_world (demo_start []) demo_text"
  have z: "\<not> zl_running demo_zlog" by (simp add: demo_zlog_def)
  have h: "heap_ok (w_heap ?w)" using demo_start_ok by simp
  obtain w' y hs z' where r: "main_program demo_zlog 64 None None (Some 4) (\<lambda>n. [cw_core_module n]) (demo_file []) (\<lambda>signo. 0) ?w =
      Some (RunMaster z' w' y 4 hs)"
    by (rule demo_main_run)
  have "\<forall>content fd. served content (w_sys ?w) fd (cstr (s_bytes (y_conf_file y))) \<longrightarrow>
      accepts (core_step 4) CW_CONF_UNSET content (cycle_wp w' y)"
    using main_program_outcome [OF h refl z, of 64 None None "Some 4" "demo_file []" "\<lambda>signo. 0"] unfolding r by simp
  then have "accepts (core_step 4) CW_CONF_UNSET demo_text (cycle_wp w' y)" using demo_world_served by blast
  then show ?thesis using accepts_unique [OF _ demo_accepts] r by blast
qed

text \<open>
  C40: the program starts.  When the logging library starts, the system tells the number of
  processors, the handlers are installed, and the file named on the command line (or else
  \<open>conf/cw.conf\<close>) is read whole, is shorter than the buffer and says \<open>wp\<close> in the language of the core
  module, then \<open>main\<close> enters the master's loop with \<open>wp\<close> worker processes configured, or the C
  library refused a request for memory and \<open>main\<close> returns 1.
\<close>

theorem main_program_starts:
  assumes "heap_ok (w_heap w)" and "\<And>n. modules n = [cw_core_module n]"
    and "cw_log_init z = (z1, True)" and "cw_os_init specific nprocs 0 = (ncpu, CW_OK)" and "cw_init_signals act = (hs, CW_OK)"
    and "cw_process_options at conf_file = (opt, CW_OK)" and "name_in (h_live (w_heap w)) (h_mem (w_heap w)) opt"
    and "served content (w_sys w) fd (s_bytes opt)" and "calm_sys content fd (w_sys w)"
    and "accepts (core_step ncpu) CW_CONF_UNSET content wp"
  shows "\<exists>w'. (\<exists>y. main_program z at conf_file specific nprocs modules junk act w = Some (RunMaster z1 w' y ncpu hs) \<and>
        cycle_wp w' y = wp) \<or>
      main_program z at conf_file specific nprocs modules junk act w = Some (ExitWith 1 z1 w') \<and> refusal (w_heap w) (w_heap w')"
proof -
  obtain h r0 where c0: "cw_create_pool (w_heap w) 1024 = (h, r0)" by fastforce
  show ?thesis
  proof (cases r0)
    case None
    then have "refusal (w_heap w) h" using create_pool_refused c0 by simp
    then show ?thesis using None assms(3) c0 by (simp add: main_program_def)
  next
    case (Some pool)
    let ?w = "w\<lparr>w_heap := h\<rparr>"
    have ok: "heap_ok (w_heap ?w)" using main_pool_heap [OF assms(1)] c0 Some by simp
    have nm: "name_in (h_live (w_heap ?w)) (h_mem (w_heap ?w)) opt" using name_in_pool [OF assms(1,7)] c0 Some by simp
    have cnt: "h_refused (w_heap w) \<le> h_refused h" by (rule create_pool_counts [OF c0])
    obtain w2 r where ic: "cw_init_cycle (core_modules ncpu) 1 129 junk opt ?w = Some (w2, r)" and R: "cycle_result ncpu 129 opt ?w (w2, r)"
      using init_cycle_result [OF ok, of ncpu 129 junk opt] by blast
    have m: "main_program z at conf_file specific nprocs modules junk act w =
      (case r of None \<Rightarrow> Some (ExitWith 1 z1 w2) | Some y \<Rightarrow> Some (RunMaster z1 w2 y ncpu hs))"
      using main_after_log [OF assms(2,3) c0 [unfolded Some] assms(6,4) ic assms(5)] by (simp split: option.splits)
    show ?thesis
    proof (cases r)
      case None
      have "refusal h (w_heap w2)"
        using R nm assms(8-10) None by (auto simp: cycle_result_def outcome_def unreadable_def split: if_splits)
      then show ?thesis using m None cnt by (auto simp: refusal_def)
    next
      case (Some y)
      have "accepts (core_step ncpu) CW_CONF_UNSET content (cycle_wp w2 y)"
        using R nm assms(8) Some by (simp add: cycle_result_def outcome_def split: if_splits) metis
      then show ?thesis using m Some accepts_unique [OF _ assms(10)] by auto
    qed
  qed
qed

theorem main_program_starts_witness:
  "\<exists>w' y hs z'. main_program demo_zlog 64 None None (Some 4) (\<lambda>n. [cw_core_module n]) (demo_file []) (\<lambda>signo. 0)
     (demo_world (demo_start []) demo_text) = Some (RunMaster z' w' y 4 hs) \<and> cycle_wp w' y = 7"
proof -
  let ?w = "demo_world (demo_start []) demo_text"
  have h: "heap_ok (w_heap ?w)" "name_in (h_live (w_heap ?w)) (h_mem (w_heap ?w)) demo_name"
    using demo_start_ok demo_name_in(1) by simp_all
  obtain z1 where z: "cw_log_init demo_zlog = (z1, True)" by (simp add: cw_log_init_def demo_zlog_def)
  have o: "cw_process_options 64 None = (demo_name, CW_OK)" "cw_os_init None (Some 4) 0 = (4, CW_OK)"
    by (simp_all add: cw_process_options_def CW_CONF_PATH_def demo_name_def cw_os_init_def)
  obtain hs where sg: "cw_init_signals (\<lambda>signo. 0) = (hs, CW_OK)" by (simp add: cw_init_signals_def signals_def SIGQUIT_def SIGTERM_def)
  have cs: "calm_sys demo_text 3 (w_sys ?w)"
    using demo_calm [of demo_text] by (simp add: demo_world_def demo_text_def worker_processes_name_def CW_CONF_BUFFER_def)
  obtain w' y hs' z' where r: "main_program demo_zlog 64 None None (Some 4) (\<lambda>n. [cw_core_module n]) (demo_file []) (\<lambda>signo. 0) ?w =
      Some (RunMaster z' w' y 4 hs')"
    by (rule demo_main_run)
  show ?thesis
    using main_program_starts [OF h(1) refl z o(2) sg o(1) h(2) demo_world_served cs demo_accepts, of "demo_file []"] r by auto
qed

end
