(* ===== verification/Spec2Isabelle.thy ===== *)
theory Spec2Isabelle
  imports Prelude Alloc Memory Palloc Pool_Life Pool_Search Array Array_Props Cw_String Files
    Conf_Data Conf_Lex Conf_Lex_Inv Conf_Lex_Safe Conf_Spec Conf_Refine Conf_World Conf_Words Conf_Token_Props
    Conf_Parse Conf_Lookup Conf_Run Conf_Calm Conf_Language Core_Module Core_Config Conf_Parse_Props
    Sockets Process Process_Cycle Process_Props Cycle Cycle_Life Cycle_Name Cycle_Run Cycle_Props Platform Main_Program
begin

text \<open>
  A verification library for api-capwap: the core of a CAPWAP daemon (\<open>cw\<close>) written in the
  style of nginx.  The program allocates from memory pools, reads a configuration file into
  the configuration of its modules, opens its listening sockets, installs its signal handlers
  and becomes a master process that starts workers and waits for signals.  CAPWAP itself is
  not in the sources: there is no packet, session or state machine of the protocol to model.

  \<^bold>\<open>The program and how its parts interact.\<close>  \<open>main\<close> (\<open>src/core/cw.c\<close>) creates a pool, reads
  its options, asks the platform for the number of processors, numbers the modules and calls
  \<open>cw_init_cycle\<close> (\<open>src/core/cw_cycle.c\<close>).  That creates the cycle in a pool of its own, lets
  each core module create its configuration, parses the configuration file
  (\<open>src/core/cw_conf_file.c\<close>), whose directives write into those configurations, and opens
  the listening sockets (\<open>src/core/cw_connection.c\<close>).  \<open>main\<close> then installs the handlers
  (\<open>src/os/unix/cw_process.c\<close>) and enters \<open>cw_master_process_cycle\<close>
  (\<open>src/os/unix/cw_process_cycle.c\<close>), which forks the workers through \<open>cw_spawn_process\<close>.

  \<^bold>\<open>Theories and the code they model.\<close>

  \<^item> \<open>Prelude\<close>: machine words (\<open>size_t\<close>, \<open>cw_uint_t\<close> and pointers are \<open>64 word\<close>, bytes are
    \<open>8 word\<close>), regions and their separation, \<open>cw_align_ptr\<close>, the return codes.  The machine is amd64:
    \<open>CW_ALIGNMENT\<close> is its default, 8.

  \<^item> \<open>Alloc\<close> (\<open>src/os/unix/cw_alloc.[ch]\<close>): the heap, with the C library's allocator as its
    field \<open>h_libc\<close>; \<open>cw_alloc\<close>, \<open>cw_memalign\<close>, \<open>cw_free\<close>.  The field \<open>h_fault\<close>
    records a free of something that is not allocated, \<open>h_refused\<close> counts the requests the library
    refused; \<open>refusal h h'\<close> says that it refused one between the two states.

  \<^item> \<open>Memory\<close>: strings and machine words in the memory of the heap; words are stored with their
    least significant byte first, and reading gives back what was stored.

  \<^item> \<open>Palloc\<close>, \<open>Pool_Life\<close>, \<open>Pool_Search\<close> (\<open>src/core/cw_palloc.[ch]\<close>): the pool.  A pool is the
    list of its blocks in link order, the position \<open>current\<close> in it and the list of its large
    allocations.  \<open>Palloc\<close> has the operations and the invariant \<open>pool_inv\<close> (blocks, large
    allocations and every region handed out are separate and live), \<open>Pool_Life\<close> creation to
    destruction, \<open>Pool_Search\<close> the failure counters.

  \<^item> \<open>Array\<close>, \<open>Array_Props\<close> (\<open>src/core/cw_array.[ch]\<close>): the array that grows in a pool, in place or by
    moving; element contents are the bytes of the heap's memory.

  \<^item> \<open>Cw_String\<close> (\<open>src/core/cw_string.[ch]\<close>): \<open>cw_cpystrn\<close> on the memory, \<open>cw_atoi\<close> on bytes.

  \<^item> \<open>Files\<close> (\<open>src/os/unix/cw_files.[ch]\<close>): opening, closing and reading; both builds of
    \<open>cw_read_file\<close>.

  \<^item> \<open>Conf_Data\<close>, \<open>Conf_Lex\<close> (\<open>src/core/cw_conf_file.[ch]\<close>): the types and the scanner
    \<open>cw_conf_read_token\<close>, one definition per stage of its loop.  \<open>Conf_Lex_Inv\<close> and
    \<open>Conf_Lex_Safe\<close> hold its invariants and its termination, \<open>Conf_Spec\<close> the language without
    a buffer (\<open>scan\<close>), \<open>Conf_Refine\<close> the proof that the scanner implements it,
    \<open>Conf_World\<close> what it leaves alone, \<open>Conf_Words\<close> that the words it hands on lie in memory as
    \<open>cw_str_t\<close> elements of \<open>cf->args\<close>, each in a region of its own (\<open>own_regions\<close>), and
    \<open>Conf_Token_Props\<close> the properties.

  \<^item> \<open>Conf_Parse\<close> (same file): \<open>cw_conf_handler\<close>, \<open>cw_conf_parse\<close>, \<open>cw_conf_param\<close>.
    \<open>Conf_Lookup\<close> reads the handler as a table lookup, \<open>Conf_Run\<close> proves that the loop returns
    and gives back what it took for every table of directives.  \<open>Conf_Calm\<close> is the scanner where the
    system gives the bytes it is asked for.  \<open>Conf_Language\<close> has the language of a table of directives, as a
    relation (\<open>accepts\<close>) and as a function (\<open>meaning\<close>), and the proof that the loop accepts it;
    \<open>Conf_Parse_Props\<close> the properties for the tables of the program.

  \<^item> \<open>Core_Module\<close>, \<open>Core_Config\<close> (\<open>src/core/cw.c\<close>, \<open>src/core/cw_module.c\<close>, \<open>src/http/cw_http.c\<close>): the
    directive \<open>worker_processes\<close>, the block \<open>http\<close>, the modules, and their language.

  \<^item> \<open>Sockets\<close> (\<open>src/os/unix/cw_socket.[ch]\<close>, \<open>cw_channel.c\<close>, \<open>src/core/cw_connection.[ch]\<close>):
    sockets, channels and \<open>cw_open_listening_sockets\<close>.

  \<^item> \<open>Process\<close>, \<open>Process_Cycle\<close>, \<open>Process_Props\<close> (\<open>src/os/unix/cw_process.[ch]\<close>,
    \<open>cw_process_cycle.[ch]\<close>, \<open>src/event/cw_event.[ch]\<close>, \<open>src/event/modules/cw_epoll_module.c\<close>):
    signals, the table of processes with \<open>cw_spawn_process\<close>, the table of event actions, and the
    master and the worker as step relations.  \<open>master_step\<close> has the signals with a handler;
    \<open>master_process\<close> adds those whose default action ends the process.

  \<^item> \<open>Cycle\<close> (\<open>src/core/cw_cycle.[ch]\<close>): \<open>cw_init_cycle\<close>, in the three parts \<open>cw_init_cycle\<close>,
    \<open>cycle_create\<close> and \<open>cycle_configure\<close> that follow each other in the code.  \<open>Cycle_Life\<close> is what each
    stage takes and gives back, \<open>Cycle_Name\<close> the configuration file's name that the cycle copies into
    its pool and that is still there when the file is opened (\<open>name_at_open\<close>), \<open>Cycle_Run\<close> the outcome of the stages together, and \<open>Cycle_Props\<close> the properties.

  \<^item> \<open>Platform\<close> (\<open>src/core/cw_log.[ch]\<close>, \<open>src/os/unix/cw_posix_init.c\<close>, \<open>cw_darwin_init.c\<close>): the start
    and the end of logging, \<open>cw_os_init\<close> and the initialisation on Darwin.

  \<^item> \<open>Main_Program\<close> (\<open>src/core/cw.c\<close>): the options and \<open>main\<close> up to the master's loop.

  \<^bold>\<open>State.\<close>  Every operation takes and returns the state it acts on.  The scanner and the
  parser act on \<open>cw_conf\<close>, which holds the fields of \<open>cw_conf_t\<close> and beside them the heap,
  the system, the messages written, and two stores for the data reached through pointers: the
  cells of the configuration contexts (\<open>c_ptrs\<close>) and the core configurations (\<open>c_core\<close>).
  A word is written to the memory of the heap byte by byte, with its length and address in its
  element of \<open>args\<close>, as the code writes it, and the handlers of directives read it from there
  (\<open>arg_value\<close>).  \<open>c_words\<close> is a copy of the words as lists, which no operation reads: the specification
  speaks of it, and \<open>read_token_words\<close> proves that the memory holds the same (\<open>words_ok\<close>), which needs
  that the words and the elements are separate regions.  The read buffer is an object of its own, a list of bytes
  beside its address, which no word's region overlaps (\<open>word_in\<close>).  What \<open>cw_array_push\<close>
  and \<open>cw_cpystrn\<close> do to memory byte by byte is modelled on the heap too.

  \<^bold>\<open>What is outside the sources\<close> is an argument.  The C library's allocator is \<open>h_libc\<close>, a
  function of the call's number, alignment, size and the live regions; its documentation is
  the hypothesis \<open>libc_ok\<close> (a region handed out is aligned, in the lower half of the address
  space and separate from the live ones), and it may refuse any call.  System calls on files are the
  record \<open>sys\<close>, on sockets \<open>net\<close>, on processes fields of \<open>procs\<close>: functions from the time of
  the call to its answer, so that nothing is assumed of them except where a theorem says so
  (\<open>served\<close>, \<open>reads\<close>: the file holds given bytes).
  Every such hypothesis is met by a concrete system in the witnesses.  The list of modules, which the build
  generates, \<open>sysconf\<close> and \<open>sysctlbyname\<close> are arguments of the definitions that use them; the
  record \<open>zlog\<close> holds the logging library's answers and whether it runs.

  \<^bold>\<open>Interfaces.\<close>  \<open>region_allocator\<close> (\<open>Alloc\<close>) is what a client relies on when it allocates: the
  wrappers and the two pool routines are its interpretations \<open>malloc\<close>, \<open>memalign\<close>, \<open>pool\<close>
  and \<open>npool\<close>.  \<open>vector\<close> (\<open>Array\<close>) is a container one pushes to, interpreted on \<open>cw_array_push\<close>.
  \<open>directive_table\<close> (\<open>Conf_Run\<close>) is what the parser needs of a table of directives: each keeps the
  parser's invariants; \<open>directive_language\<close> (\<open>Conf_Language\<close>) extends it by what each directive
  means.  Both are interpreted on the tables with the core module alone, as it is built, and with
  the http module.  \<open>blame\<close> (\<open>Conf_Language\<close>) is what a set of causes for refusing a legal file has to
  cover; its interpretations are any trouble, in any state, and refused requests alone, where the
  system gives the bytes it is asked for.  \<open>words_fact\<close> (\<open>Conf_Words\<close>) is a fact about the words that the scanner keeps, interpreted on their
  being stored in memory and on their regions.  \<open>transition_system\<close> (\<open>Process_Cycle\<close>) is interpreted on the
  master's steps, on its process with the signals that end it, and on the worker.

  \<^bold>\<open>What the lemmas show.\<close>
  Memory: regions handed out are separate, are given back exactly once, and no operation writes outside
  the region it was given, with the two exceptions found.  Scanner and parser: they return on
  every file and every behaviour of the system, keep no descriptor and no memory outside the pool,
  and accept exactly the language of \<open>Conf_Spec\<close> and \<open>Conf_Language\<close>; a refusal of a legal file has a
  cause that the log or the C library shows (\<open>trouble\<close>), and where the system gives the bytes it is asked
  for (\<open>calm_sys\<close>) the only cause is a refused request.  Sockets and processes: no descriptor
  is lost on any path; a spawn that fails records no child and keeps no descriptor, one that succeeds is recorded.
  The processes: the invariants of their loops under any sequence of signals.  Cycle and main: the
  composition of all of these, from the start of the process to the master: what a failure gives back
  and why there may be one, and that the program starts, with the number of workers its file says.

  \<^bold>\<open>Loops.\<close>  The two loops whose end is not structural, \<open>lex_loop\<close> and \<open>parse_loop\<close>, are partial
  functions into \<open>option\<close>; that they return is a theorem, with the bytes not yet taken from the buffer and the file
  (\<open>left_in\<close>) as measure.  No definition has fuel.  The endless loops of master and
  worker are step relations.  Integers keep their width where the code can reach it: sizes and
  counters are words, and the wrap-around in \<open>cw_palloc_small\<close> is one of the findings.
  File sizes, descriptors and \<open>cw_int_t\<close> values are integers, bounded by the theorems on them.

  \<^bold>\<open>Findings\<close>, each with the theorem that shows it: a pool whose size is no multiple of the alignment
  hands out memory past its block; an array of capacity 0 hands out an
  address that the next allocation is given too; \<open>http\<close> does not
  read its block; the configuration file that comes with the sources is refused; an address in use is passed
  over in silence; neither master nor worker can be ended by the signals they handle; a signal that
  arrives just before the master sleeps is not answered until another one comes; a worker keeps every
  descriptor it inherits; the
  configured number of workers is not used; a cycle leaks its pool when the modules cannot be
  copied, and the temporary pool when it succeeds.

  \<^bold>\<open>Not modelled.\<close>  Of the log only its start and end: the text of a message is zlog's to format, and the messages
  the code chooses are constructors in the state.  Of \<open>src/event/modules/cw_epoll_module.c\<close> the table of actions and
  its initialisation, whose operations no file defines; the module's record refers to names that
  no file declares.  \<open>src/os/unix/cw_thread_id.c\<close> is one system call whose result is only logged.
  \<open>src/core/cw_rbtree.h\<close> and the platform headers hold type names and switches.
  \<open>cw_core_module_init_conf\<close> only writes a debug message, and is never called.  Of \<open>cw_core_conf_t\<close>
  and \<open>cw_listening_t\<close> the fields that no code reads are left out.
\<close>

end
